(* ===== verification/Gemina_Prelude.thy ===== *)
theory Gemina_Prelude
  imports Main "HOL-Library.Word" "HOL-Library.Monad_Syntax"
begin

text \<open>
  Shared vocabulary of the development: the machine types the Go code uses, the parts of
  the Go language and of its standard library that the modelled packages rely on
  (slice indexing with its run-time panic, signed 64-bit wrap-around, big-endian
  codecs of \<^verbatim>\<open>encoding/binary\<close>, saturating \<^verbatim>\<open>time.Time.Sub\<close>), and the
  generic lemmas on lists, options, results and words that the component theories use.

  Conventions. A Go \<^verbatim>\<open>byte\<close> is an 8-bit word, a \<^verbatim>\<open>[]byte\<close> a list of them,
  a Go \<^verbatim>\<open>string\<close> an Isabelle \<^typ>\<open>string\<close> (both are byte sequences).
  An operation that returns \<^verbatim>\<open>(T, error)\<close> returns a sum, \<^term>\<open>Inl\<close> for the error.
  A computation that the run time may abort (index out of range, division by zero,
  \<^verbatim>\<open>make\<close> with a negative length) returns an \<^typ>\<open>'a option\<close>, \<^term>\<open>None\<close> for the panic.
\<close>

unbundle bit_operations_syntax

section \<open>Machine types\<close>

type_synonym byte = "8 word"
type_synonym bytes = "byte list"
type_synonym u16 = "16 word"
type_synonym u32 = "32 word"
type_synonym u64 = "64 word"
type_synonym ('e, 'a) result = "'e + 'a"

section \<open>Collections of facts\<close>

named_theorems go_simps \<open>unfolding of the Go run-time helpers\<close>
named_theorems result_iff \<open>characterisations of a successful result\<close>
named_theorems panic_free \<open>operations that do not panic under their invariant\<close>

section \<open>Results\<close>

text \<open>\<^verbatim>\<open>x, err := f(); if err != nil { return err }\<close>.\<close>

definition res_bind :: "('e, 'a) result \<Rightarrow> ('a \<Rightarrow> ('e, 'b) result) \<Rightarrow> ('e, 'b) result" where
  "res_bind r f = (case r of Inl e \<Rightarrow> Inl e | Inr x \<Rightarrow> f x)"

lemma res_bind_simps [simp]:
  "res_bind (Inl e) f = Inl e"
  "res_bind (Inr x) f = f x"
  by (simp_all add: res_bind_def)

lemma res_bind_Inr_iff [result_iff]:
  "res_bind r f = Inr y \<longleftrightarrow> (\<exists>x. r = Inr x \<and> f x = Inr y)"
  by (cases r) auto

section \<open>Slices: indexing and its panic\<close>

definition idx :: "'a list \<Rightarrow> nat \<Rightarrow> 'a option" where
  "idx xs i = (if i < length xs then Some (xs ! i) else None)"

definition idx_upd :: "'a list \<Rightarrow> nat \<Rightarrow> ('a \<Rightarrow> 'a) \<Rightarrow> 'a list option" where
  "idx_upd xs i f = (if i < length xs then Some (xs[i := f (xs ! i)]) else None)"

definition go_mod :: "nat \<Rightarrow> nat \<Rightarrow> nat option" where
  "go_mod a b = (if b = 0 then None else Some (a mod b))"

lemma idx_Some [simp]: "i < length xs \<Longrightarrow> idx xs i = Some (xs ! i)"
  by (simp add: idx_def)

lemma idx_upd_Some [simp]: "i < length xs \<Longrightarrow> idx_upd xs i f = Some (xs[i := f (xs ! i)])"
  by (simp add: idx_upd_def)

lemma go_mod_Some [simp]: "0 < b \<Longrightarrow> go_mod a b = Some (a mod b)"
  by (simp add: go_mod_def)

text \<open>
  A slice expression \<^verbatim>\<open>b[lo:hi]\<close>. The code takes it only after checking that \<open>hi\<close> is at
  most the length; each use below sits under that guard.
\<close>

definition slice :: "'a list \<Rightarrow> nat \<Rightarrow> nat \<Rightarrow> 'a list" where
  "slice xs lo hi = take (hi - lo) (drop lo xs)"

lemma length_slice [simp]: "hi \<le> length xs \<Longrightarrow> lo \<le> hi \<Longrightarrow> length (slice xs lo hi) = hi - lo"
  by (simp add: slice_def)

lemma slice_append_left: "hi \<le> length xs \<Longrightarrow> slice (xs @ ys) lo hi = slice xs lo hi"
  by (simp add: slice_def)

lemma slice_append_right:
  "length xs \<le> lo \<Longrightarrow> slice (xs @ ys) lo hi = slice ys (lo - length xs) (hi - length xs)"
  by (simp add: slice_def)

lemma slice_all: "n = length xs \<Longrightarrow> slice xs 0 n = xs"
  by (simp add: slice_def)

lemma slice_0: "slice xs 0 n = take n xs"
  by (simp add: slice_def)

lemma take_slice_drop: "lo \<le> hi \<Longrightarrow> take lo xs @ slice xs lo hi @ drop hi xs = xs"
  by (metis append_take_drop_id drop_drop le_add_diff_inverse2 slice_def)

section \<open>Signed 64-bit arithmetic\<close>

text \<open>The value of a Go \<^verbatim>\<open>int\<close> or \<^verbatim>\<open>int64\<close> expression: two's complement, wrapping.\<close>

definition wrap64 :: "int \<Rightarrow> int" where
  "wrap64 i = (i + 2 ^ 63) mod 2 ^ 64 - 2 ^ 63"

definition min_int64 :: int where "min_int64 = - (2 ^ 63)"
definition max_int64 :: int where "max_int64 = 2 ^ 63 - 1"

lemma wrap64_id [simp]: "min_int64 \<le> i \<Longrightarrow> i \<le> max_int64 \<Longrightarrow> wrap64 i = i"
  by (simp add: wrap64_def min_int64_def max_int64_def)

lemma wrap64_range: "min_int64 \<le> wrap64 i \<and> wrap64 i \<le> max_int64"
  by (simp add: wrap64_def min_int64_def max_int64_def)

lemma wrap64_over: "max_int64 < i \<Longrightarrow> i \<le> max_int64 + 2 ^ 63 \<Longrightarrow> wrap64 i = i - 2 ^ 64"
proof -
  assume i: "max_int64 < i" "i \<le> max_int64 + 2 ^ 63"
  have "(i + 2 ^ 63) mod 2 ^ 64 = (i + 2 ^ 63 - 2 ^ 64) mod (2 ^ 64 :: int)"
    by (simp only: minus_mod_self2)
  also have "\<dots> = i + 2 ^ 63 - 2 ^ 64"
    using i by (intro mod_pos_pos_trivial) (simp_all add: max_int64_def)
  finally show ?thesis by (simp add: wrap64_def)
qed

text \<open>Go integer division truncates towards zero.\<close>

definition go_div :: "int \<Rightarrow> int \<Rightarrow> int" where
  "go_div a b = sgn a * sgn b * (\<bar>a\<bar> div \<bar>b\<bar>)"

lemma go_div_nonneg [simp]: "0 \<le> a \<Longrightarrow> 0 < b \<Longrightarrow> go_div a b = a div b"
  by (cases "a = 0") (simp_all add: go_div_def)

section \<open>Time\<close>

text \<open>
  An instant is the number of nanoseconds since the internal epoch (1 January of year 1),
  a duration a signed 64-bit number of nanoseconds. \<^verbatim>\<open>time.Unix\<close> adds the epoch offset
  in wrapping 64-bit arithmetic; \<^verbatim>\<open>Time.Sub\<close> saturates at the range of a duration.
\<close>

type_synonym go_time = int
type_synonym duration = int

definition nanos_per_second :: int where "nanos_per_second = 10 ^ 9"
definition unix_to_internal :: int where "unix_to_internal = 62135596800"

definition time_Unix :: "int \<Rightarrow> go_time" where
  "time_Unix sec = wrap64 (sec + unix_to_internal) * nanos_per_second"

definition Time_Unix_seconds :: "go_time \<Rightarrow> int" where
  "Time_Unix_seconds t = wrap64 (t div nanos_per_second - unix_to_internal)"

definition Time_Sub :: "go_time \<Rightarrow> go_time \<Rightarrow> duration" where
  "Time_Sub t u = max min_int64 (min max_int64 (t - u))"

definition Time_Add :: "go_time \<Rightarrow> duration \<Rightarrow> go_time" where
  "Time_Add t d = t + d"

text \<open>Unary minus on a duration wraps: the negation of the least duration is itself.\<close>

definition dur_neg :: "duration \<Rightarrow> duration" where
  "dur_neg d = wrap64 (- d)"

lemma dur_neg_min: "dur_neg min_int64 = min_int64"
  by (simp add: dur_neg_def wrap64_def min_int64_def)

lemma dur_neg_id: "min_int64 < d \<Longrightarrow> d \<le> max_int64 \<Longrightarrow> dur_neg d = - d"
  unfolding dur_neg_def by (rule wrap64_id) (simp_all add: min_int64_def max_int64_def)

text \<open>The absolute skew of two instants as the code computes it, and the test against a tolerance.\<close>

lemma skew_within:
  assumes "0 \<le> tolerance" and "tolerance < max_int64"
  shows "(if Time_Sub now t < 0 then dur_neg (Time_Sub now t) else Time_Sub now t) \<le> tolerance \<longleftrightarrow>
           \<bar>now - t\<bar> \<le> tolerance \<or> now - t \<le> min_int64"
proof -
  consider "now - t \<le> min_int64" | "min_int64 < now - t" "now - t \<le> max_int64" | "max_int64 < now - t" by linarith
  then show ?thesis
  proof cases
    case 1
    then have "Time_Sub now t = min_int64" by (simp add: Time_Sub_def min_int64_def max_int64_def)
    moreover have "min_int64 < 0" by (simp add: min_int64_def)
    ultimately show ?thesis using 1 assms by (simp add: dur_neg_min)
  next
    case 2
    then have "Time_Sub now t = now - t" by (simp add: Time_Sub_def)
    with 2 show ?thesis by (auto simp: dur_neg_id)
  next
    case 3
    then have "Time_Sub now t = max_int64" by (simp add: Time_Sub_def min_int64_def max_int64_def)
    with 3 assms show ?thesis by (auto simp: min_int64_def max_int64_def)
  qed
qed

section \<open>Big-endian codecs of encoding/binary\<close>

definition put_be64 :: "u64 \<Rightarrow> bytes" where
  "put_be64 v = [ucast (drop_bit 56 v), ucast (drop_bit 48 v), ucast (drop_bit 40 v),
     ucast (drop_bit 32 v), ucast (drop_bit 24 v), ucast (drop_bit 16 v),
     ucast (drop_bit 8 v), ucast v]"

definition get_be64 :: "bytes \<Rightarrow> u64" where
  "get_be64 b = ucast (b ! 7) OR push_bit 8 (ucast (b ! 6)) OR push_bit 16 (ucast (b ! 5)) OR
     push_bit 24 (ucast (b ! 4)) OR push_bit 32 (ucast (b ! 3)) OR push_bit 40 (ucast (b ! 2)) OR
     push_bit 48 (ucast (b ! 1)) OR push_bit 56 (ucast (b ! 0))"

definition put_be16 :: "u16 \<Rightarrow> bytes" where
  "put_be16 v = [ucast (drop_bit 8 v), ucast v]"

definition get_be16 :: "bytes \<Rightarrow> u16" where
  "get_be16 b = ucast (b ! 1) OR push_bit 8 (ucast (b ! 0))"

lemma length_put_be64 [simp]: "length (put_be64 v) = 8"
  by (simp add: put_be64_def)

lemma length_put_be16 [simp]: "length (put_be16 v) = 2"
  by (simp add: put_be16_def)

lemma bit_push_byte:
  "bit (push_bit k (ucast (b::byte)) :: 'a::len word) n \<longleftrightarrow>
     n < LENGTH('a) \<and> k \<le> n \<and> n < k + 8 \<and> bit b (n - k)"
proof -
  have "bit b (n - k) \<Longrightarrow> n - k < 8" 
    using bit_imp_le_length[of b "n - k"] by simp
  then show ?thesis
    unfolding bit_push_bit_iff bit_ucast_iff possible_bit_word by linarith
qed

lemma bit_byte_of:
  "bit (ucast (drop_bit k (v::'a::len word)) :: byte) n \<longleftrightarrow> n < 8 \<and> bit v (k + n)"
  by (simp only: bit_ucast_iff bit_drop_bit_eq o_apply possible_bit_word) auto

lemma bit_be_byte:
  "bit (push_bit k (ucast (ucast (drop_bit k (v :: 'a word)) :: byte)) :: 'a::len word) n \<longleftrightarrow>
     k \<le> n \<and> n < k + 8 \<and> bit v n"
  unfolding bit_push_byte bit_byte_of using bit_imp_le_length[of v n] by auto

lemma bit_be_byte0:
  "bit (ucast (ucast (v :: 'a word) :: byte) :: 'a::len word) n \<longleftrightarrow> n < 8 \<and> bit v n"
  using bit_be_byte [of 0 v n] by simp

lemma get_be64_Cons8:
  "get_be64 (b0 # b1 # b2 # b3 # b4 # b5 # b6 # b7 # rest) =
     ucast b7 OR push_bit 8 (ucast b6) OR push_bit 16 (ucast b5) OR
     push_bit 24 (ucast b4) OR push_bit 32 (ucast b3) OR push_bit 40 (ucast b2) OR
     push_bit 48 (ucast b1) OR push_bit 56 (ucast b0)"
  by (simp add: get_be64_def del: push_bit_numeral)

lemma get_put_be64 [simp]: "get_be64 (put_be64 v @ rest) = v"
proof (rule bit_word_eqI)
  fix n assume "n < LENGTH(64)"
  then have n: "n < 64" by simp
  show "bit (get_be64 (put_be64 v @ rest)) n = bit v n"
    unfolding put_be64_def append_Cons append_Nil get_be64_Cons8 bit_or_iff bit_be_byte bit_be_byte0
    using n by (cases "bit v n") (simp_all, presburger?)
qed

lemma bit_ucast_byte: "bit (ucast (b::byte) :: 'a::len word) n \<longleftrightarrow> n < LENGTH('a) \<and> n < 8 \<and> bit b n"
  using bit_push_byte [of 0 b n, where 'a = 'a] by simp

lemma put_get_be64: 
  assumes "length b = 8" shows "put_be64 (get_be64 b) = b"
proof -
  obtain b0 b1 b2 b3 b4 b5 b6 b7 where b: "b = [b0, b1, b2, b3, b4, b5, b6, b7]"
    using assms by (auto simp: length_Suc_conv numeral_eq_Suc)
  have low: "bit (ucast (v::u64) :: byte) n \<longleftrightarrow> n < 8 \<and> bit v n" for v n
    using bit_byte_of [of 0 v n] by simp
  show ?thesis
    unfolding b put_be64_def get_be64_Cons8 list.inject
    by (intro conjI refl; rule bit_word_eqI; simp del: push_bit_numeral add: low bit_byte_of bit_or_iff bit_drop_bit_eq bit_push_byte bit_ucast_byte)
qed

lemma get_put_be64_Nil [simp]: "get_be64 (put_be64 v) = v"
  using get_put_be64 [of v "[]"] by simp

lemma put_be64_inj: "put_be64 v = put_be64 w \<longleftrightarrow> v = w"
  by (metis get_put_be64_Nil)

lemma get_be16_Cons2: "get_be16 (b0 # b1 # rest) = ucast b1 OR push_bit 8 (ucast b0)"
  by (simp add: get_be16_def del: push_bit_numeral)

lemma get_put_be16 [simp]: "get_be16 (put_be16 v @ rest) = v"
proof (rule bit_word_eqI)
  fix n assume "n < LENGTH(16)"
  then have n: "n < 16" by simp
  show "bit (get_be16 (put_be16 v @ rest)) n = bit v n"
    unfolding put_be16_def append_Cons append_Nil get_be16_Cons2 bit_or_iff bit_be_byte bit_be_byte0
    using n by (cases "bit v n") auto
qed

lemma put_get_be64_take: "8 \<le> length b \<Longrightarrow> put_be64 (get_be64 b) = take 8 b"
proof -
  assume "8 \<le> length b"
  then have "get_be64 b = get_be64 (take 8 b)" by (simp add: get_be64_def)
  then show ?thesis using put_get_be64 [of "take 8 b"] \<open>8 \<le> length b\<close> by simp
qed

section \<open>The common header shape\<close>

text \<open>
  Every datagram of the protocol starts with a 4-byte magic, a version byte, a one-byte
  field and (pings excepted) a 16-byte session id.
\<close>

lemma header_split:
  assumes "22 \<le> length b"
  shows "b = slice b 0 4 @ [b ! 4] @ [b ! 5] @ slice b 6 22 @ drop 22 b"
proof -
  have "b = take 4 b @ b ! 4 # b ! 5 # drop 6 b"
    using assms Cons_nth_drop_Suc [of 4 b] Cons_nth_drop_Suc [of 5 b]
      append_take_drop_id [of 4 b] by simp
  moreover have "drop 6 b = take 16 (drop 6 b) @ drop 22 b"
    using append_take_drop_id [of 16 "drop 6 b"] by simp
  ultimately show ?thesis by (simp add: slice_def)
qed

lemma put_get_be16: "put_be16 (get_be16 (b0 # b1 # rest)) = [b0, b1]"
proof -
  have "ucast (drop_bit 8 (ucast b1 OR push_bit 8 (ucast b0 :: u16))) = b0"
    by (rule bit_word_eqI) (auto simp: bit_ucast_iff bit_drop_bit_eq bit_or_iff bit_push_bit_iff dest: bit_imp_le_length)
  moreover have "ucast (ucast b1 OR push_bit 8 (ucast b0 :: u16)) = b1"
    by (rule bit_word_eqI) (auto simp: bit_ucast_iff bit_or_iff bit_push_bit_iff)
  ultimately show ?thesis by (simp add: put_be16_def get_be16_Cons2)
qed

lemma put_get_be16_take: "2 \<le> length b \<Longrightarrow> put_be16 (get_be16 b) = take 2 b"
  by (cases b; cases "tl b") (auto simp: put_get_be16 numeral_2_eq_2)

section \<open>Conversions\<close>

text \<open>\<^verbatim>\<open>[]byte(s)\<close> and \<^verbatim>\<open>string(b)\<close>; \<^verbatim>\<open>int64(u)\<close> and \<^verbatim>\<open>uint64(i)\<close>.\<close>

definition str_bytes :: "string \<Rightarrow> bytes" where
  "str_bytes s = map (\<lambda>c. of_nat (of_char c)) s"

definition bytes_str :: "bytes \<Rightarrow> string" where
  "bytes_str b = map (\<lambda>x. char_of (unat x)) b"

lemma length_str_bytes [simp]: "length (str_bytes s) = length s"
  by (simp add: str_bytes_def)

lemma length_bytes_str [simp]: "length (bytes_str b) = length b"
  by (simp add: bytes_str_def)

lemma of_char_less: "of_char c < (256 :: nat)"
  using nat_of_char_less_256 [of c] by simp

lemma bytes_str_bytes [simp]: "bytes_str (str_bytes s) = s"
  by (induction s) (simp_all add: bytes_str_def str_bytes_def unat_of_nat of_char_less)

lemma str_bytes_str [simp]: "str_bytes (bytes_str b) = b"
proof (induction b)
  case (Cons x b)
  have "unat x < 256" using unsigned_less [of x] by simp
  then have "(of_char (char_of (unat x) :: char) :: nat) = unat x"
    by (simp add: of_char_of)
  with Cons show ?case by (simp add: bytes_str_def str_bytes_def)
qed (simp add: bytes_str_def str_bytes_def)

lemma str_bytes_inj [simp]: "str_bytes s = str_bytes t \<longleftrightarrow> s = t"
  by (metis bytes_str_bytes)

definition int64_of :: "u64 \<Rightarrow> int" where "int64_of u = sint u"
definition uint64_of :: "int \<Rightarrow> u64" where "uint64_of i = word_of_int i"

lemma uint64_int64 [simp]: "uint64_of (int64_of u) = u"
  by (simp add: uint64_of_def int64_of_def)

lemma int64_uint64 [simp]: "min_int64 \<le> i \<Longrightarrow> i \<le> max_int64 \<Longrightarrow> int64_of (uint64_of i) = i"
  by (simp add: uint64_of_def int64_of_def min_int64_def max_int64_def signed_take_bit_int_eq_self sint_sbintrunc')

lemma int64_range: "min_int64 \<le> int64_of u \<and> int64_of u \<le> max_int64"
  using sint_range_size [of u] by (simp add: int64_of_def min_int64_def max_int64_def word_size)

end
