(* ===== verification/Protocol.thy ===== *)
theory Protocol
  imports Gemina_Prelude
begin

text \<open>
  Package \<^verbatim>\<open>internal/protocol\<close>: packet identities (\<^verbatim>\<open>identity.go\<close>) and the fixed-size
  stage-1 probe datagram (\<^verbatim>\<open>probe.go\<close>). A \<^verbatim>\<open>SessionID\<close> is a Go array of 16 bytes; it is
  modelled as a byte list, \<open>wf_session\<close> is the length that the Go type guarantees.
\<close>

section \<open>Packet identities\<close>

definition SessionIDSize :: nat where "SessionIDSize = 16"

type_synonym SessionID = bytes
type_synonym PacketNumber = u64

record PacketID =
  Session :: SessionID
  Number :: PacketNumber

definition wf_session :: "SessionID \<Rightarrow> bool" where
  "wf_session s \<longleftrightarrow> length s = SessionIDSize"

datatype session_id_error = BadSessionIDLength nat nat

definition NewSessionID :: "bytes \<Rightarrow> (session_id_error, SessionID) result" where
  "NewSessionID raw =
     (if length raw \<noteq> SessionIDSize then Inl (BadSessionIDLength SessionIDSize (length raw))
      else Inr raw)"

text \<open>The loop of \<^verbatim>\<open>IsZero\<close> returns false at the first non-zero byte.\<close>

fun SessionID_IsZero :: "SessionID \<Rightarrow> bool" where
  "SessionID_IsZero [] = True"
| "SessionID_IsZero (b # bs) = (if b \<noteq> 0 then False else SessionID_IsZero bs)"

definition PacketID_Valid :: "PacketID \<Rightarrow> bool" where
  "PacketID_Valid i \<longleftrightarrow> \<not> SessionID_IsZero (Session i) \<and> Number i > 0"

definition zeroSession :: SessionID where
  "zeroSession = replicate SessionIDSize 0"

lemma SessionID_IsZero_iff: "SessionID_IsZero s \<longleftrightarrow> (\<forall>b \<in> set s. b = 0)"
  by (induction s) auto

lemma IsZero_zeroSession [simp]: "SessionID_IsZero zeroSession"
  by (simp add: zeroSession_def SessionID_IsZero_iff)

lemma IsZero_wf_iff: "wf_session s \<Longrightarrow> SessionID_IsZero s \<longleftrightarrow> s = zeroSession"
  by (auto simp: wf_session_def SessionID_IsZero_iff zeroSession_def intro: replicate_eqI)

lemma NewSessionID_Inr [result_iff]: "NewSessionID raw = Inr s \<longleftrightarrow> wf_session raw \<and> s = raw"
  by (auto simp: NewSessionID_def wf_session_def)

section \<open>Probe datagrams\<close>

definition ProbeVersion :: byte where "ProbeVersion = 1"
definition ProbeSessionOffset :: nat where "ProbeSessionOffset = 6"
definition ProbeWireSize :: nat where "ProbeWireSize = ProbeSessionOffset + SessionIDSize + 8"

text \<open>The ASCII bytes \<^verbatim>\<open>CVP1\<close>.\<close>

definition probeMagic :: bytes where "probeMagic = [0x43, 0x56, 0x50, 0x31]"

datatype probe_error = ErrShortProbe | ErrBadMagic | ErrUnsupportedVersion | ErrInvalidProbe

type_synonym PathTag = byte

definition PathUnknown :: PathTag where "PathUnknown = 0"
definition PathWiFi :: PathTag where "PathWiFi = 1"
definition PathAndroidUSBTether :: PathTag where "PathAndroidUSBTether = 2"

definition PathTag_String :: "PathTag \<Rightarrow> string" where
  "PathTag_String t =
     (if t = PathWiFi then ''wi-fi''
      else if t = PathAndroidUSBTether then ''android-usb-tether''
      else ''unknown'')"

record ProbePacket =
  ID :: PacketID
  Path :: PathTag

definition ProbePacket_MarshalBinary :: "ProbePacket \<Rightarrow> (probe_error, bytes) result" where
  "ProbePacket_MarshalBinary p =
     (if \<not> PacketID_Valid (ID p) then Inl ErrInvalidProbe
      else Inr (probeMagic @ [ProbeVersion] @ [Path p] @ Session (ID p) @ put_be64 (Number (ID p))))"

definition UnmarshalProbe :: "bytes \<Rightarrow> (probe_error, ProbePacket) result" where
  "UnmarshalProbe b =
     (if length b < ProbeWireSize then Inl ErrShortProbe
      else if slice b 0 4 \<noteq> probeMagic then Inl ErrBadMagic
      else if b ! 4 \<noteq> ProbeVersion then Inl ErrUnsupportedVersion
      else
        let session = slice b ProbeSessionOffset (ProbeSessionOffset + SessionIDSize);
            number = get_be64 (drop (ProbeSessionOffset + SessionIDSize) b);
            packet = \<lparr>ID = \<lparr>Session = session, Number = number\<rparr>, Path = b ! 5\<rparr>
        in if \<not> PacketID_Valid (ID packet) then Inl ErrInvalidProbe
           else Inr packet)"

lemmas protocol_consts =
  SessionIDSize_def ProbeSessionOffset_def ProbeWireSize_def probeMagic_def ProbeVersion_def

lemma UnmarshalProbe_wf:
  "UnmarshalProbe b = Inr p \<Longrightarrow> wf_session (Session (ID p)) \<and> PacketID_Valid (ID p)"
  by (auto simp: UnmarshalProbe_def Let_def wf_session_def protocol_consts split: if_splits)

lemma MarshalBinary_length:
  "ProbePacket_MarshalBinary p = Inr b \<Longrightarrow> wf_session (Session (ID p)) \<Longrightarrow> length b = ProbeWireSize"
  by (auto simp: ProbePacket_MarshalBinary_def wf_session_def protocol_consts split: if_splits)

lemma UnmarshalProbe_Marshal:
  assumes "wf_session (Session (ID p))" and "PacketID_Valid (ID p)"
  shows "UnmarshalProbe (probeMagic @ [ProbeVersion] @ [Path p] @ Session (ID p) @
           put_be64 (Number (ID p)) @ trailing) = Inr p"
proof -
  have len: "length (Session (ID p)) = 16"
    using assms(1) by (simp add: wf_session_def SessionIDSize_def)
  then show ?thesis
    using assms(2)
    by (cases p; cases "ID p")
       (simp add: UnmarshalProbe_def Let_def protocol_consts slice_def numeral_eq_Suc)
qed

lemma UnmarshalProbe_canonical:
  assumes "UnmarshalProbe b = Inr p"
  shows "b = probeMagic @ [ProbeVersion] @ [Path p] @ Session (ID p) @
           put_be64 (Number (ID p)) @ drop ProbeWireSize b"
proof -
  from assms have len: "30 \<le> length b" and magic: "slice b 0 4 = probeMagic"
    and ver: "b ! 4 = ProbeVersion"
    and p: "p = \<lparr>ID = \<lparr>Session = slice b 6 22, Number = get_be64 (drop 22 b)\<rparr>, Path = b ! 5\<rparr>"
    by (auto simp: UnmarshalProbe_def Let_def ProbeWireSize_def ProbeSessionOffset_def
        SessionIDSize_def split: if_splits)
  have "drop 22 b = put_be64 (get_be64 (drop 22 b)) @ drop 30 b"
    using len append_take_drop_id [of 8 "drop 22 b"] by (simp add: put_get_be64_take)
  then show ?thesis
    using len header_split [of b] magic ver
    by (simp add: p ProbeWireSize_def ProbeSessionOffset_def SessionIDSize_def)
qed

text \<open>
  The probe codec is exact: a datagram decodes to a probe if and only if it is the
  marshalled form of that probe (which has a valid identity) followed by trailing bytes. In
  particular marshal and unmarshal are inverse, and two probes never share a datagram.
\<close>

theorem probe_codec_exact:
  "UnmarshalProbe b = Inr p \<longleftrightarrow>
     (\<exists>w trailing. wf_session (Session (ID p)) \<and> ProbePacket_MarshalBinary p = Inr w \<and>
        length w = ProbeWireSize \<and> b = w @ trailing)"
proof
  assume *: "UnmarshalProbe b = Inr p"
  let ?w = "probeMagic @ [ProbeVersion] @ [Path p] @ Session (ID p) @ put_be64 (Number (ID p))"
  from UnmarshalProbe_wf [OF *] have wf: "wf_session (Session (ID p))" "PacketID_Valid (ID p)"
    by simp_all
  then have m: "ProbePacket_MarshalBinary p = Inr ?w" by (simp add: ProbePacket_MarshalBinary_def)
  moreover have "b = ?w @ drop ProbeWireSize b" using UnmarshalProbe_canonical [OF *] by simp
  ultimately show "\<exists>w trailing. wf_session (Session (ID p)) \<and> ProbePacket_MarshalBinary p = Inr w \<and>
      length w = ProbeWireSize \<and> b = w @ trailing"
    using MarshalBinary_length [OF m wf(1)] wf(1) by blast
next
  assume "\<exists>w trailing. wf_session (Session (ID p)) \<and> ProbePacket_MarshalBinary p = Inr w \<and>
      length w = ProbeWireSize \<and> b = w @ trailing"
  then show "UnmarshalProbe b = Inr p"
    using UnmarshalProbe_Marshal
    by (auto simp: ProbePacket_MarshalBinary_def split: if_splits)
qed

end
