(* ===== verification/Once_Filter.thy ===== *)
theory Once_Filter
  imports Gemina_Prelude
begin

text \<open>
  The contract shared by every layer that suppresses duplicate copies: the replay window,
  a session's inbound path, the gateway's data plane and the datagram handler. A step
  consumes one input and reports whether it was let through; each input has a key, and
  a key that has been let through is spent for good. The client lemma is proved once: whatever the
  sequence of inputs, no key is let through twice.
\<close>

fun accepted_run :: "('s \<Rightarrow> 'i \<Rightarrow> bool \<times> 's) \<Rightarrow> 's \<Rightarrow> 'i list \<Rightarrow> 'i list" where
  "accepted_run step s [] = []"
| "accepted_run step s (i # is) =
     (let (ok, s') = step s i in (if ok then [i] else []) @ accepted_run step s' is)"

fun final_state :: "('s \<Rightarrow> 'i \<Rightarrow> bool \<times> 's) \<Rightarrow> 's \<Rightarrow> 'i list \<Rightarrow> 's" where
  "final_state step s [] = s"
| "final_state step s (i # is) = final_state step (snd (step s i)) is"

locale once_filter =
  fixes step :: "'s \<Rightarrow> 'i \<Rightarrow> bool \<times> 's"
    and key :: "'i \<Rightarrow> 'k"
    and inv :: "'s \<Rightarrow> bool"
    and spent :: "'s \<Rightarrow> 'k \<Rightarrow> bool"
  assumes inv_step: "inv s \<Longrightarrow> inv (snd (step s i))"
    and accept_fresh: "inv s \<Longrightarrow> fst (step s i) \<Longrightarrow> \<not> spent s (key i)"
    and accept_spends: "inv s \<Longrightarrow> fst (step s i) \<Longrightarrow> spent (snd (step s i)) (key i)"
    and spent_mono: "inv s \<Longrightarrow> spent s k \<Longrightarrow> spent (snd (step s i)) k"
begin

lemma inv_final: "inv s \<Longrightarrow> inv (final_state step s is)"
  by (induction "is" arbitrary: s) (simp_all add: inv_step)

lemma accepted_not_spent:
  "inv s \<Longrightarrow> i \<in> set (accepted_run step s is) \<Longrightarrow> \<not> spent s (key i)"
proof (induction "is" arbitrary: s)
  case (Cons j "is")
  show ?case
  proof (cases "i \<in> set (accepted_run step (snd (step s j)) is)")
    case True
    with Cons.IH inv_step Cons.prems(1) have "\<not> spent (snd (step s j)) (key i)" by blast
    with spent_mono Cons.prems(1) show ?thesis by blast
  next
    case False
    with Cons.prems(2) have "i = j" "fst (step s j)"
      by (auto simp: Let_def split_beta split: if_splits)
    with accept_fresh Cons.prems(1) show ?thesis by blast
  qed
qed simp

theorem accepted_distinct: "inv s \<Longrightarrow> distinct (map key (accepted_run step s is))"
proof (induction "is" arbitrary: s)
  case (Cons j "is")
  let ?s' = "snd (step s j)"
  have tl: "distinct (map key (accepted_run step ?s' is))"
    using Cons inv_step by blast
  have "key j \<notin> key ` set (accepted_run step ?s' is)" if "fst (step s j)"
    using accept_spends [OF Cons.prems that] accepted_not_spent [OF inv_step [OF Cons.prems]]
    by fastforce
  with tl show ?case by (auto simp: Let_def split_beta)
qed simp

end

end
