(* ===== verification/Replay.thy ===== *)
theory Replay
  imports Protocol Once_Filter
begin

text \<open>
  \<^verbatim>\<open>internal/dedup/replay.go\<close>: the RFC 6479 sliding-window anti-replay filter. The ring
  bitmap is modelled word for word (a list of 64-bit words, positions taken modulo the
  width, masks built by shifts), every slice access with its bounds panic. The theory
  proves that the bitmap implements a reference filter that remembers every packet number
  it ever accepted, and from that the promises of \<^verbatim>\<open>Observe\<close>.
\<close>

section \<open>The code\<close>

datatype ReplayDecision = ReplayInvalid | ReplayFirstCopy | ReplayDuplicate | ReplayStale

fun ReplayDecision_String :: "ReplayDecision \<Rightarrow> string" where
  "ReplayDecision_String ReplayFirstCopy = ''first-copy''"
| "ReplayDecision_String ReplayDuplicate = ''duplicate''"
| "ReplayDecision_String ReplayStale = ''stale''"
| "ReplayDecision_String ReplayInvalid = ''invalid''"

datatype dedup_error = ErrInvalidCapacity | PanicMakeslice

record ReplayWindow =
  rw_last :: PacketNumber
  rw_words :: "u64 list"
  rw_width :: nat
  rw_nw :: nat

text \<open>
  The argument is a Go \<^verbatim>\<open>int\<close>: \<^verbatim>\<open>width + 63\<close> wraps for the 63 largest values, the word count
  is then negative and \<^verbatim>\<open>make\<close> panics.
\<close>

definition NewReplayWindow :: "int \<Rightarrow> (dedup_error, ReplayWindow) result" where
  "NewReplayWindow width =
     (if width \<le> 0 then Inl ErrInvalidCapacity
      else
        let nw = go_div (wrap64 (width + 63)) 64;
            actual = wrap64 (nw * 64)
        in if nw < 0 then Inl PanicMakeslice
           else Inr \<lparr>rw_last = 0, rw_words = replicate (nat nw) 0, rw_width = nat actual, rw_nw = nat nw\<rparr>)"

definition ReplayWindow_Width :: "ReplayWindow \<Rightarrow> nat" where
  "ReplayWindow_Width w = rw_width w"

definition wordMask :: "nat \<Rightarrow> nat \<Rightarrow> u64" where
  "wordMask lo hi =
     (if lo > hi then 0
      else let n = hi - lo + 1 in
        if n = 64 then NOT 0
        else push_bit lo (push_bit n 1 - 1))"

definition setBit :: "ReplayWindow \<Rightarrow> PacketNumber \<Rightarrow> ReplayWindow option" where
  "setBit w n = do {
     pos \<leftarrow> go_mod (unat n) (rw_width w);
     ws \<leftarrow> idx_upd (rw_words w) (pos div 64) (\<lambda>x. x OR push_bit (pos mod 64) 1);
     Some (w\<lparr>rw_words := ws\<rparr>)
   }"

definition testBit :: "ReplayWindow \<Rightarrow> PacketNumber \<Rightarrow> bool option" where
  "testBit w n = do {
     pos \<leftarrow> go_mod (unat n) (rw_width w);
     x \<leftarrow> idx (rw_words w) (pos div 64);
     Some (x AND push_bit (pos mod 64) 1 \<noteq> 0)
   }"

text \<open>The loop \<^verbatim>\<open>for wd := loWord + 1; wd < hiWord; wd++\<close>.\<close>

function zeroWords :: "u64 list \<Rightarrow> nat \<Rightarrow> nat \<Rightarrow> u64 list option" where
  "zeroWords ws wd hiWord =
     (if wd < hiWord
      then case idx_upd ws wd (\<lambda>_. 0) of None \<Rightarrow> None | Some ws' \<Rightarrow> zeroWords ws' (Suc wd) hiWord
      else Some ws)"
  by pat_completeness auto
termination
  by (relation "measure (\<lambda>(ws, wd, hiWord). hiWord - wd)") auto

declare zeroWords.simps [simp del]

definition clearRange :: "ReplayWindow \<Rightarrow> nat \<Rightarrow> nat \<Rightarrow> ReplayWindow option" where
  "clearRange w lo hi =
     (let loWord = lo div 64; hiWord = hi div 64; loBit = lo mod 64; hiBit = hi mod 64 in
      if loWord = hiWord then do {
        ws \<leftarrow> idx_upd (rw_words w) loWord (\<lambda>x. x AND NOT (wordMask loBit hiBit));
        Some (w\<lparr>rw_words := ws\<rparr>)
      } else do {
        ws1 \<leftarrow> idx_upd (rw_words w) loWord (\<lambda>x. x AND NOT (push_bit loBit (NOT 0)));
        ws2 \<leftarrow> zeroWords ws1 (loWord + 1) hiWord;
        ws3 \<leftarrow> idx_upd ws2 hiWord (\<lambda>x. x AND NOT (wordMask 0 hiBit));
        Some (w\<lparr>rw_words := ws3\<rparr>)
      })"

definition advance :: "ReplayWindow \<Rightarrow> PacketNumber \<Rightarrow> ReplayWindow option" where
  "advance w n = do {
     let diff = n - rw_last w;
     w1 \<leftarrow>
       (if diff \<ge> of_nat (rw_width w) then Some (w\<lparr>rw_words := map (\<lambda>_. 0) (rw_words w)\<rparr>)
        else do {
          startPos \<leftarrow> go_mod (unat (rw_last w + 1)) (rw_width w);
          endPos \<leftarrow> go_mod (unat n) (rw_width w);
          if startPos \<le> endPos then clearRange w startPos endPos
          else do {
            wa \<leftarrow> clearRange w startPos (rw_width w - 1);
            clearRange wa 0 endPos
          }
        });
     setBit (w1\<lparr>rw_last := n\<rparr>) n
   }"

definition ReplayWindow_Observe ::
  "ReplayWindow \<Rightarrow> PacketNumber \<Rightarrow> (ReplayDecision \<times> ReplayWindow) option" where
  "ReplayWindow_Observe w n =
     (if n = 0 then Some (ReplayInvalid, w)
      else if rw_last w = 0 then do {
        w' \<leftarrow> setBit (w\<lparr>rw_last := n\<rparr>) n;
        Some (ReplayFirstCopy, w')
      }
      else if n > rw_last w then do {
        w' \<leftarrow> advance w n;
        Some (ReplayFirstCopy, w')
      }
      else if rw_last w - n \<ge> of_nat (rw_width w) then Some (ReplayStale, w)
      else do {
        seen \<leftarrow> testBit w n;
        if seen then Some (ReplayDuplicate, w)
        else do {
          w' \<leftarrow> setBit w n;
          Some (ReplayFirstCopy, w')
        }
      })"

section \<open>Bits of the ring\<close>

definition pos_bit :: "ReplayWindow \<Rightarrow> nat \<Rightarrow> bool" where
  "pos_bit w p = bit (rw_words w ! (p div 64)) (p mod 64)"

definition rw_shape :: "ReplayWindow \<Rightarrow> bool" where
  "rw_shape w \<longleftrightarrow> 0 < rw_nw w \<and> rw_width w = 64 * rw_nw w \<and> length (rw_words w) = rw_nw w \<and>
     rw_width w < 2 ^ 63"

lemma bit_wordMask:
  assumes "hi < 64"
  shows "bit (wordMask lo hi) i \<longleftrightarrow> lo \<le> i \<and> i \<le> hi"
proof (cases "lo \<le> hi")
  case True
  show ?thesis
  proof (cases "hi - lo + 1 = 64")
    case True
    then have "lo = 0" "hi = 63" using assms by auto
    then show ?thesis by (auto simp: wordMask_def bit_simps)
  next
    case False
    have m: "push_bit (hi - lo + 1) 1 - 1 = (mask (hi - lo + 1) :: u64)"
      by (simp add: mask_eq_exp_minus_1 push_bit_eq_mult)
    from True False have "wordMask lo hi = push_bit lo (mask (hi - lo + 1))"
      unfolding wordMask_def Let_def m by simp
    then show ?thesis
      using True assms by (auto simp: bit_push_bit_iff bit_mask_iff)
  qed
qed (simp add: wordMask_def)

lemma pos_div_less: "rw_shape w \<Longrightarrow> p < rw_width w \<Longrightarrow> p div 64 < length (rw_words w)"
  by (simp add: rw_shape_def less_mult_imp_div_less)

lemma same_pos: "p div 64 = q div 64 \<Longrightarrow> p mod 64 = q mod 64 \<Longrightarrow> p = (q::nat)"
  by (metis div_mult_mod_eq)

text \<open>Positions compare by word, then by bit.\<close>

lemma pos_le_iff:
  "p \<le> (q::nat) \<longleftrightarrow> p div 64 < q div 64 \<or> p div 64 = q div 64 \<and> p mod 64 \<le> q mod 64"
proof -
  have "p = p div 64 * 64 + p mod 64" "q = q div 64 * 64 + q mod 64" by simp_all
  moreover have "p mod 64 < 64" "q mod 64 < 64" by simp_all
  ultimately show ?thesis by linarith
qed

text \<open>
  What a bitmap operation does: it keeps the fields other than the words, and the bit of every
  position is the given function of the old one.
\<close>

definition bits_to :: "ReplayWindow \<Rightarrow> ReplayWindow \<Rightarrow> (nat \<Rightarrow> bool) \<Rightarrow> bool" where
  "bits_to w w' f \<longleftrightarrow> rw_last w' = rw_last w \<and> rw_width w' = rw_width w \<and> rw_nw w' = rw_nw w \<and>
     length (rw_words w') = length (rw_words w) \<and> (\<forall>p < rw_width w. pos_bit w' p = f p)"

lemma bits_to_shape: "bits_to w w' f \<Longrightarrow> rw_shape w \<Longrightarrow> rw_shape w'"
  by (simp add: bits_to_def rw_shape_def)

lemma bits_to_trans:
  "bits_to w w1 f \<Longrightarrow> bits_to w1 w2 g \<Longrightarrow> bits_to w w2 g"
  by (simp add: bits_to_def)

lemma bits_to_upd_word:
  assumes "rw_shape w" and "k < length (rw_words w)"
    and "\<And>p. p < rw_width w \<Longrightarrow>
           f p = (if p div 64 = k then bit (g (rw_words w ! k)) (p mod 64) else pos_bit w p)"
  shows "bits_to w (w\<lparr>rw_words := (rw_words w)[k := g (rw_words w ! k)]\<rparr>) f"
  using assms by (auto simp: bits_to_def pos_bit_def nth_list_update)

lemma setBit_bits [panic_free]:
  assumes "rw_shape w"
  shows "\<exists>w'. setBit w n = Some w' \<and>
           bits_to w w' (\<lambda>p. pos_bit w p \<or> p = unat n mod rw_width w)"
proof -
  let ?p = "unat n mod rw_width w"
  have w0: "0 < rw_width w" using assms by (simp add: rw_shape_def)
  then have i: "?p div 64 < length (rw_words w)" by (simp add: pos_div_less assms)
  have "bits_to w (w\<lparr>rw_words := (rw_words w)[?p div 64 :=
          rw_words w ! (?p div 64) OR push_bit (?p mod 64) 1]\<rparr>)
          (\<lambda>p. pos_bit w p \<or> p = ?p)"
    by (rule bits_to_upd_word [OF assms i])
       (auto simp: pos_bit_def bit_or_iff bit_exp_iff dest: same_pos)
  with w0 i show ?thesis by (auto simp: setBit_def)
qed

lemma testBit_bit [panic_free]:
  assumes "rw_shape w"
  shows "testBit w n = Some (pos_bit w (unat n mod rw_width w))"
proof -
  have w0: "0 < rw_width w" using assms by (simp add: rw_shape_def)
  then have "(unat n mod rw_width w) div 64 < length (rw_words w)"
    by (simp add: pos_div_less assms)
  with w0 show ?thesis
    by (simp add: testBit_def pos_bit_def bit_iff_and_push_bit_not_eq_0)
qed

lemma zeroWords_spec:
  "hi \<le> length ws \<Longrightarrow>
     \<exists>ws'. zeroWords ws wd hi = Some ws' \<and> length ws' = length ws \<and>
       (\<forall>i < length ws. ws' ! i = (if wd \<le> i \<and> i < hi then 0 else ws ! i))"
proof (induction ws wd hi rule: zeroWords.induct)
  case (1 ws wd hi)
  show ?case
  proof (cases "wd < hi")
    case True
    with "1.prems" have u: "idx_upd ws wd (\<lambda>_. 0) = Some (ws[wd := 0])" by simp
    from "1.IH" [OF True u] "1.prems" obtain ws' where
      ws': "zeroWords (ws[wd := 0]) (Suc wd) hi = Some ws'" "length ws' = length ws"
        "\<forall>i < length ws. ws' ! i = (if Suc wd \<le> i \<and> i < hi then 0 else ws[wd := 0] ! i)"
      by auto
    have "zeroWords ws wd hi = Some ws'"
      using True u ws'(1) by (simp add: zeroWords.simps [of ws wd hi])
    with ws'(2,3) True show ?thesis
      by (auto simp: nth_list_update Suc_le_eq)
  next
    case False
    then show ?thesis by (auto simp: zeroWords.simps [of ws wd hi])
  qed
qed


lemma clearRange_one_word:
  assumes "rw_shape w" and "lo \<le> hi" and "hi < rw_width w" and one: "lo div 64 = hi div 64"
  shows "\<exists>w'. clearRange w lo hi = Some w' \<and>
           bits_to w w' (\<lambda>p. pos_bit w p \<and> \<not> (lo \<le> p \<and> p \<le> hi))"
proof -
  let ?k = "hi div 64"
  have k: "?k < length (rw_words w)" using assms by (simp add: pos_div_less)
  have "bits_to w (w\<lparr>rw_words := (rw_words w)[?k :=
      rw_words w ! ?k AND NOT (wordMask (lo mod 64) (hi mod 64))]\<rparr>)
      (\<lambda>p. pos_bit w p \<and> \<not> (lo \<le> p \<and> p \<le> hi))"
    by (rule bits_to_upd_word [OF assms(1) k])
       (auto simp: pos_bit_def bit_and_iff bit_not_iff bit_wordMask pos_le_iff [of lo]
         pos_le_iff [of _ hi] one)
  with one k show ?thesis by (auto simp: clearRange_def Let_def)
qed

lemma clearRange_words:
  assumes "rw_shape w" and "hi < rw_width w" and lt: "lo div 64 < hi div 64"
  shows "\<exists>ws. clearRange w lo hi = Some (w\<lparr>rw_words := ws\<rparr>) \<and> length ws = length (rw_words w) \<and>
     (\<forall>i < length (rw_words w). ws ! i =
        (if i = lo div 64 then rw_words w ! i AND NOT (push_bit (lo mod 64) (NOT 0))
         else if lo div 64 < i \<and> i < hi div 64 then 0
         else if i = hi div 64 then rw_words w ! i AND NOT (wordMask 0 (hi mod 64))
         else rw_words w ! i))"
proof -
  let ?lw = "lo div 64" and ?hw = "hi div 64"
  have hw: "?hw < length (rw_words w)" using assms by (simp add: pos_div_less)
  define ws1 where "ws1 = (rw_words w)[?lw := rw_words w ! ?lw AND NOT (push_bit (lo mod 64) (NOT 0))]"
  have "?hw \<le> length ws1" using hw by (simp add: ws1_def)
  from zeroWords_spec [OF this, of "?lw + 1"] obtain ws2 where ws2:
    "zeroWords ws1 (?lw + 1) ?hw = Some ws2" "length ws2 = length (rw_words w)"
    "\<And>i. i < length (rw_words w) \<Longrightarrow> ws2 ! i = (if ?lw < i \<and> i < ?hw then 0 else ws1 ! i)"
    by (auto simp: ws1_def Suc_le_eq)
  define ws3 where "ws3 = ws2[?hw := ws2 ! ?hw AND NOT (wordMask 0 (hi mod 64))]"
  have "clearRange w lo hi = Some (w\<lparr>rw_words := ws3\<rparr>)"
    using lt hw ws2(1,2) by (simp add: clearRange_def Let_def ws1_def ws3_def)
  moreover have "ws3 ! i =
        (if i = ?lw then rw_words w ! i AND NOT (push_bit (lo mod 64) (NOT 0))
         else if ?lw < i \<and> i < ?hw then 0
         else if i = ?hw then rw_words w ! i AND NOT (wordMask 0 (hi mod 64))
         else rw_words w ! i)" if "i < length (rw_words w)" for i
    using that lt hw ws2(2) ws2(3) [of i] ws2(3) [of ?hw]
    by (auto simp: ws3_def nth_list_update ws1_def)
  moreover have "length ws3 = length (rw_words w)" using ws2(2) by (simp add: ws3_def)
  ultimately show ?thesis by blast
qed

lemma clearRange_bits [panic_free]:
  assumes "rw_shape w" and "lo \<le> hi" and "hi < rw_width w"
  shows "\<exists>w'. clearRange w lo hi = Some w' \<and>
           bits_to w w' (\<lambda>p. pos_bit w p \<and> \<not> (lo \<le> p \<and> p \<le> hi))"
proof (cases "lo div 64 = hi div 64")
  case True
  with assms show ?thesis by (rule clearRange_one_word)
next
  case False
  with assms(2) have lt: "lo div 64 < hi div 64" using pos_le_iff by blast
  from clearRange_words [OF assms(1,3) lt] obtain ws where ws:
    "clearRange w lo hi = Some (w\<lparr>rw_words := ws\<rparr>)" "length ws = length (rw_words w)"
    "\<And>i. i < length (rw_words w) \<Longrightarrow> ws ! i =
        (if i = lo div 64 then rw_words w ! i AND NOT (push_bit (lo mod 64) (NOT 0))
         else if lo div 64 < i \<and> i < hi div 64 then 0
         else if i = hi div 64 then rw_words w ! i AND NOT (wordMask 0 (hi mod 64))
         else rw_words w ! i)" by blast
  have "bit (ws ! (p div 64)) (p mod 64) \<longleftrightarrow> pos_bit w p \<and> \<not> (lo \<le> p \<and> p \<le> hi)"
    if "p < rw_width w" for p
    using pos_div_less [OF assms(1) that] lt
    by (auto simp: ws(3) pos_bit_def pos_le_iff [of lo] pos_le_iff [of _ hi] bit_and_iff bit_not_iff
        bit_wordMask bit_mask_iff)
  with ws(1,2) show ?thesis by (auto simp: bits_to_def pos_bit_def)
qed

text \<open>
  The ring arithmetic of \<open>advance\<close>: sliding from \<open>L\<close> to \<open>n\<close>, a number \<open>m\<close> of the new window
  sits in the cleared positions exactly when it is one of the new numbers \<open>L + 1, \<dots>, n\<close>.
\<close>

definition in_ring :: "nat \<Rightarrow> nat \<Rightarrow> nat \<Rightarrow> bool" where
  "in_ring s e p \<longleftrightarrow> (if s \<le> e then s \<le> p \<and> p \<le> e else s \<le> p \<or> p \<le> e)"

lemma mod_back:
  fixes n k W :: nat
  assumes "k < W" and "k \<le> n"
  shows "(n - k) mod W = (if k \<le> n mod W then n mod W - k else n mod W + W - k)"
proof -
  obtain q r where n: "n = q * W + r" and r: "r < W" and nr: "n mod W = r"
    using assms(1) by (metis div_mult_mod_eq mod_less_divisor not_less_zero neq0_conv)
  show ?thesis
  proof (cases "k \<le> r")
    case True
    then have "n - k = q * W + (r - k)" using n by simp
    then have "(n - k) mod W = r - k" using r by (metis mod_mult_self3 mod_less less_imp_diff_less)
    with True nr show ?thesis by simp
  next
    case False
    then have "0 < q" using assms(2) n by (cases q) auto
    then obtain q' where q: "q = Suc q'" by (cases q) auto
    have "n - k = q' * W + (r + W - k)" using n q False assms(1) by simp
    moreover have "r + W - k < W" using False assms(1) by simp
    ultimately show ?thesis using False nr by simp
  qed
qed

lemma ring_new_iff:
  fixes L n m W :: nat
  assumes "L < n" and "n - L < W" and "m \<le> n" and "n - m < W"
  shows "in_ring ((L + 1) mod W) (n mod W) (m mod W) \<longleftrightarrow> L < m"
proof -
  define k where "k = n - m"
  define d where "d = n - (L + 1)"
  have m: "m mod W = (if k \<le> n mod W then n mod W - k else n mod W + W - k)"
    using mod_back [of k W n] assms by (simp add: k_def)
  have s: "(L + 1) mod W = (if d \<le> n mod W then n mod W - d else n mod W + W - d)"
    using mod_back [of d W n] assms by (simp add: d_def)
  have "n mod W < W" using assms by (simp add: mod_less_divisor)
  moreover have "k < W" "d < W" "L < m \<longleftrightarrow> k \<le> d" using assms by (auto simp: k_def d_def)
  ultimately show ?thesis unfolding in_ring_def m s by auto
qed


text \<open>The positions that \<open>advance\<close> clears before it marks the new number.\<close>

definition cleared :: "nat \<Rightarrow> nat \<Rightarrow> nat \<Rightarrow> nat \<Rightarrow> bool" where
  "cleared W L N p \<longleftrightarrow> W \<le> N - L \<or> in_ring ((L + 1) mod W) (N mod W) p"

lemma width_le_iff:
  assumes "rw_shape w"
  shows "of_nat (rw_width w) \<le> (d::u64) \<longleftrightarrow> rw_width w \<le> unat d"
  proof -
  have "unat (of_nat (rw_width w) :: u64) = rw_width w"
    using assms unfolding rw_shape_def by (intro of_nat_inverse) simp_all
  then show ?thesis by (simp add: word_le_nat_alt)
qed

lemma unat_distance: "(a::u64) \<le> b \<Longrightarrow> unat (b - a) = unat b - unat a"
  by (simp add: unat_sub)

lemma unat_next: "(a::u64) < b \<Longrightarrow> unat (a + 1) = unat a + 1"
proof -
  assume "a < b"
  then have "unat a < unat b" by (simp add: word_less_nat_alt)
  moreover have "unat b < 2 ^ LENGTH(64)" by (rule unsigned_less)
  ultimately have "unat a + 1 < 2 ^ 64" by simp
  then show ?thesis by (simp add: unat_word_ariths)
qed

lemma clear_two_bits:
  assumes "rw_shape w" and "s < rw_width w" and "e < rw_width w"
  shows "\<exists>w'. (if s \<le> e then clearRange w s e
              else do { wa \<leftarrow> clearRange w s (rw_width w - 1); clearRange wa 0 e }) = Some w' \<and>
           bits_to w w' (\<lambda>p. pos_bit w p \<and> \<not> in_ring s e p)"
proof (cases "s \<le> e")
  case True
  with clearRange_bits [OF assms(1) True assms(3)] show ?thesis
    by (auto simp: in_ring_def bits_to_def)
next
  case False
  have "s \<le> rw_width w - 1" "rw_width w - 1 < rw_width w" using assms(2) by auto
  from clearRange_bits [OF assms(1) this] obtain wa where
    wa: "clearRange w s (rw_width w - 1) = Some wa"
      "bits_to w wa (\<lambda>p. pos_bit w p \<and> \<not> (s \<le> p \<and> p \<le> rw_width w - 1))" by blast
  from clearRange_bits [OF bits_to_shape [OF wa(2) assms(1)], of 0 e] assms(3) wa(2) obtain wb where
    wb: "clearRange wa 0 e = Some wb" "bits_to wa wb (\<lambda>p. pos_bit wa p \<and> \<not> p \<le> e)"
    by (auto simp: bits_to_def)
  have "bits_to w wb (\<lambda>p. pos_bit w p \<and> \<not> in_ring s e p)"
    using wa(2) wb(2) False by (auto simp: bits_to_def in_ring_def)
  with False wa(1) wb(1) show ?thesis by auto
qed

lemma advance_run:
  assumes "rw_shape w" and lt: "rw_last w < n"
  shows "\<exists>w1. advance w n = setBit (w1\<lparr>rw_last := n\<rparr>) n \<and>
     bits_to w w1 (\<lambda>p. pos_bit w p \<and> \<not> cleared (rw_width w) (unat (rw_last w)) (unat n) p)"
proof -
  let ?W = "rw_width w" and ?L = "unat (rw_last w)" and ?N = "unat n"
  have W: "0 < ?W" using assms(1) by (simp add: rw_shape_def)
  have d: "unat (n - rw_last w) = ?N - ?L" using lt by (simp add: unat_distance)
  show ?thesis
  proof (cases "?W \<le> ?N - ?L")
    case True
    let ?w1 = "w\<lparr>rw_words := map (\<lambda>_. 0) (rw_words w)\<rparr>"
    have "bits_to w ?w1 (\<lambda>p. pos_bit w p \<and> \<not> cleared ?W ?L ?N p)"
      using True pos_div_less [OF assms(1)] by (auto simp: bits_to_def pos_bit_def cleared_def)
    then show ?thesis
      using True by (auto simp: advance_def Let_def width_le_iff [OF assms(1)] d)
  next
    case False
    let ?s = "(?L + 1) mod ?W" and ?e = "?N mod ?W"
    let ?X = "if ?s \<le> ?e then clearRange w ?s ?e
              else do { wa \<leftarrow> clearRange w ?s (?W - 1); clearRange wa 0 ?e }"
    have "?s < ?W" "?e < ?W" using W by simp_all
    from clear_two_bits [OF assms(1) this] obtain w1 where
      w1: "?X = Some w1" "bits_to w w1 (\<lambda>p. pos_bit w p \<and> \<not> in_ring ?s ?e p)" by blast
    have "advance w n = Option.bind ?X (\<lambda>w1. setBit (w1\<lparr>rw_last := n\<rparr>) n)"
      using False W by (simp add: advance_def Let_def width_le_iff [OF assms(1)] d unat_next [OF lt])
    then have "advance w n = setBit (w1\<lparr>rw_last := n\<rparr>) n" unfolding w1(1) by simp
    moreover have "cleared ?W ?L ?N p \<longleftrightarrow> in_ring ?s ?e p" for p
      using False by (simp add: cleared_def)
    ultimately show ?thesis using w1(2) by auto
  qed
qed

lemma advance_bits [panic_free]:
  assumes "rw_shape w" and lt: "rw_last w < n"
  shows "\<exists>w'. advance w n = Some w' \<and> rw_shape w' \<and> rw_last w' = n \<and> rw_width w' = rw_width w \<and>
     (\<forall>m. m \<le> unat n \<and> unat n - m < rw_width w \<longrightarrow>
        (pos_bit w' (m mod rw_width w) \<longleftrightarrow>
           m = unat n \<or> m \<le> unat (rw_last w) \<and> pos_bit w (m mod rw_width w)))"
proof -
  let ?W = "rw_width w" and ?L = "unat (rw_last w)" and ?N = "unat n"
  have W: "0 < ?W" using assms(1) by (simp add: rw_shape_def)
  have LN: "?L < ?N" using lt by (simp add: word_less_nat_alt)
  from advance_run [OF assms] obtain w1 where
    w1: "advance w n = setBit (w1\<lparr>rw_last := n\<rparr>) n"
      "bits_to w w1 (\<lambda>p. pos_bit w p \<and> \<not> cleared ?W ?L ?N p)" by blast
  have sh: "rw_shape (w1\<lparr>rw_last := n\<rparr>)"
    using bits_to_shape [OF w1(2) assms(1)] by (simp add: rw_shape_def)
  from setBit_bits [OF this, of n] w1(2) obtain w' where
    w': "setBit (w1\<lparr>rw_last := n\<rparr>) n = Some w'"
      "bits_to (w1\<lparr>rw_last := n\<rparr>) w' (\<lambda>p. pos_bit w1 p \<or> p = ?N mod ?W)"
    by (auto simp: bits_to_def pos_bit_def)
  have fr: "rw_shape w'" "rw_last w' = n" "rw_width w' = ?W"
    using w'(2) w1(2) bits_to_shape [OF w'(2) sh] by (auto simp: bits_to_def)
  have "pos_bit w' (m mod ?W) \<longleftrightarrow> m = ?N \<or> m \<le> ?L \<and> pos_bit w (m mod ?W)"
    if m: "m \<le> ?N" "?N - m < ?W" for m
  proof -
    have c: "cleared ?W ?L ?N (m mod ?W) \<longleftrightarrow> ?L < m"
      using ring_new_iff [of ?L ?N ?W m] LN m by (cases "?W \<le> ?N - ?L") (auto simp: cleared_def)
    have e: "m mod ?W = ?N mod ?W \<longleftrightarrow> m = ?N"
      using m mod_back [of "?N - m" ?W ?N] W mod_less_divisor [OF W, of ?N] by (auto split: if_splits)
    show ?thesis
      using w'(2) w1(2) W LN by (auto simp: bits_to_def c e)
  qed
  with w1(1) w'(1) fr show ?thesis by auto
qed

section \<open>The reference filter and the refinement\<close>

text \<open>
  The contract of \<^verbatim>\<open>Observe\<close> without a bitmap: \<open>L\<close> is the highest number accepted so far, \<open>S\<close>
  all the numbers ever accepted.
\<close>

type_synonym ref_filter = "nat \<times> nat list"

fun ref_observe :: "nat \<Rightarrow> ref_filter \<Rightarrow> nat \<Rightarrow> ReplayDecision \<times> ref_filter" where
  "ref_observe W (L, S) n =
     (if n = 0 then (ReplayInvalid, (L, S))
      else if n \<le> L \<and> W \<le> L - n then (ReplayStale, (L, S))
      else if n \<in> set S then (ReplayDuplicate, (L, S))
      else (ReplayFirstCopy, (max L n, n # S)))"

fun ref_run :: "nat \<Rightarrow> ref_filter \<Rightarrow> nat list \<Rightarrow> ReplayDecision list" where
  "ref_run W r [] = []"
| "ref_run W r (n # ns) = fst (ref_observe W r n) # ref_run W (snd (ref_observe W r n)) ns"

text \<open>A run of the code: the calls are serialised by the window's mutex.\<close>

fun observe_all ::
  "ReplayWindow \<Rightarrow> PacketNumber list \<Rightarrow> (ReplayDecision list \<times> ReplayWindow) option" where
  "observe_all w [] = Some ([], w)"
| "observe_all w (n # ns) =
     (case ReplayWindow_Observe w n of
        None \<Rightarrow> None
      | Some (d, w') \<Rightarrow>
          (case observe_all w' ns of None \<Rightarrow> None | Some (ds, w'') \<Rightarrow> Some (d # ds, w'')))"

definition rw_sim :: "ReplayWindow \<Rightarrow> ref_filter \<Rightarrow> bool" where
  "rw_sim w r \<longleftrightarrow> rw_shape w \<and> fst r = unat (rw_last w) \<and>
     (\<forall>m \<in> set (snd r). 0 < m \<and> m \<le> fst r) \<and>
     (rw_last w = 0 \<longrightarrow> (\<forall>p < rw_width w. \<not> pos_bit w p)) \<and>
     (\<forall>m. 0 < m \<and> m \<le> fst r \<and> fst r - m < rw_width w \<longrightarrow>
        (pos_bit w (m mod rw_width w) \<longleftrightarrow> m \<in> set (snd r)))"

lemma mod_window_eq:
  fixes m n W :: nat
  assumes "m \<le> n" and "n - m < W"
  shows "m mod W = n mod W \<longleftrightarrow> m = n"
  using assms mod_back [of "n - m" W n] mod_less_divisor [of W n] by (auto split: if_splits)

lemma setBit_in_window:
  assumes "rw_shape w" and "unat n \<le> unat (rw_last w)" and "unat (rw_last w) - unat n < rw_width w"
  shows "\<exists>w'. setBit w n = Some w' \<and> rw_shape w' \<and> rw_last w' = rw_last w \<and> rw_width w' = rw_width w \<and>
     (\<forall>m. m \<le> unat (rw_last w) \<and> unat (rw_last w) - m < rw_width w \<longrightarrow>
        (pos_bit w' (m mod rw_width w) \<longleftrightarrow> m = unat n \<or> pos_bit w (m mod rw_width w)))"
proof -
  let ?W = "rw_width w"
  have W: "0 < ?W" using assms(1) by (simp add: rw_shape_def)
  from setBit_bits [OF assms(1)] obtain w' where
    w': "setBit w n = Some w'" "bits_to w w' (\<lambda>p. pos_bit w p \<or> p = unat n mod ?W)" by blast
  have "m mod ?W = unat n mod ?W \<longleftrightarrow> m = unat n"
    if "m \<le> unat (rw_last w)" "unat (rw_last w) - m < ?W" for m
    using that assms(2,3) mod_window_eq [of m "unat n" ?W] mod_window_eq [of "unat n" m ?W]
    by (cases "m \<le> unat n") (auto simp: eq_commute)
  with w' W bits_to_shape [OF w'(2) assms(1)] show ?thesis
    by (auto simp: bits_to_def)
qed

lemma rw_shape_pos: "rw_shape w \<Longrightarrow> 0 < rw_width w"
  by (simp add: rw_shape_def)

lemma rw_simD:
  assumes "rw_sim w (L, S)"
  shows "rw_shape w" and "L = unat (rw_last w)" and "\<And>m. m \<in> set S \<Longrightarrow> 0 < m \<and> m \<le> L"
    and "rw_last w = 0 \<Longrightarrow> \<forall>p < rw_width w. \<not> pos_bit w p"
    and "\<And>m. 0 < m \<Longrightarrow> m \<le> L \<Longrightarrow> L - m < rw_width w \<Longrightarrow> pos_bit w (m mod rw_width w) \<longleftrightarrow> m \<in> set S"
    and "0 < rw_width w"
proof -
  show "0 < rw_width w" using assms by (simp add: rw_sim_def rw_shape_pos)
qed (use assms in \<open>auto simp: rw_sim_def\<close>)

lemma Observe_sim_first:
  assumes "rw_sim w (L, S)" and "n \<noteq> 0" and "rw_last w = 0"
  shows "S = []" and "\<exists>w'. ReplayWindow_Observe w n = Some (ReplayFirstCopy, w') \<and>
           rw_sim w' (unat n, [unat n]) \<and> rw_width w' = rw_width w"
proof -
  let ?W = "rw_width w" and ?N = "unat n"
  note sim = rw_simD [OF assms(1)]
  have "hd S \<notin> set S" using sim(2) sim(3) [of "hd S"] assms(3) by auto
  then show "S = []" by (metis list.set_sel(1))
  have "rw_shape (w\<lparr>rw_last := n\<rparr>)" using sim(1) by (simp add: rw_shape_def)
  from setBit_in_window [OF this, of n] sim(6) obtain w' where
    w': "setBit (w\<lparr>rw_last := n\<rparr>) n = Some w'" "rw_shape w'" "rw_last w' = n" "rw_width w' = ?W"
      "\<forall>m. m \<le> ?N \<and> ?N - m < ?W \<longrightarrow> (pos_bit w' (m mod ?W) \<longleftrightarrow> m = ?N)"
    using sim(4) [OF assms(3)] by (auto simp: pos_bit_def)
  moreover have "0 < ?N" using assms(2) by (simp add: unat_gt_0)
  ultimately show "\<exists>w'. ReplayWindow_Observe w n = Some (ReplayFirstCopy, w') \<and>
      rw_sim w' (?N, [?N]) \<and> rw_width w' = ?W"
    using assms(2,3) by (auto simp: ReplayWindow_Observe_def rw_sim_def)
qed

lemma Observe_sim_ahead:
  assumes "rw_sim w (L, S)" and "rw_last w \<noteq> 0" and "rw_last w < n"
  shows "\<exists>w'. ReplayWindow_Observe w n = Some (ReplayFirstCopy, w') \<and>
           rw_sim w' (unat n, unat n # S) \<and> rw_width w' = rw_width w"
proof -
  let ?W = "rw_width w" and ?N = "unat n"
  note sim = rw_simD [OF assms(1)]
  from advance_bits [OF sim(1) assms(3)] obtain w' where
    w': "advance w n = Some w'" "rw_shape w'" "rw_last w' = n" "rw_width w' = ?W"
      "\<forall>m. m \<le> ?N \<and> ?N - m < ?W \<longrightarrow>
         (pos_bit w' (m mod ?W) \<longleftrightarrow> m = ?N \<or> m \<le> L \<and> pos_bit w (m mod ?W))"
    using sim(2) by auto
  have LN: "L < ?N" using assms(3) sim(2) by (simp add: word_less_nat_alt)
  have n0: "n \<noteq> 0" using assms(3) by auto
  then have "rw_sim w' (?N, ?N # S)"
    using w' LN sim(3,5) by (auto simp: rw_sim_def unat_gt_0 dest: sim(3))
  then show ?thesis using n0 assms(2,3) w'(1,4) by (auto simp: ReplayWindow_Observe_def)
qed

lemma Observe_sim_behind:
  assumes "rw_sim w (L, S)" and "n \<noteq> 0" and "rw_last w \<noteq> 0" and "n \<le> rw_last w"
  shows "\<exists>w'. ReplayWindow_Observe w n = Some (fst (ref_observe (rw_width w) (L, S) (unat n)), w') \<and>
           rw_sim w' (snd (ref_observe (rw_width w) (L, S) (unat n))) \<and> rw_width w' = rw_width w"
proof -
  let ?W = "rw_width w" and ?N = "unat n"
  note sim = rw_simD [OF assms(1)]
  have NL: "?N \<le> L" using assms(4) sim(2) by (simp add: word_le_nat_alt)
  have N0: "0 < ?N" using assms(2) by (simp add: unat_gt_0)
  have st: "of_nat ?W \<le> rw_last w - n \<longleftrightarrow> ?W \<le> L - ?N"
    by (simp add: width_le_iff [OF sim(1)] unat_distance [OF assms(4)] sim(2))
  show ?thesis
  proof (cases "?W \<le> L - ?N")
    case True
    with assms st NL N0 show ?thesis by (auto simp: ReplayWindow_Observe_def not_less)
  next
    case False
    then have t: "testBit w n = Some (?N \<in> set S)"
      using sim(5) [of ?N] N0 NL by (simp add: testBit_bit [OF sim(1)])
    from setBit_in_window [OF sim(1), of n] NL False sim(2) obtain w' where
      w': "setBit w n = Some w'" "rw_shape w'" "rw_last w' = rw_last w" "rw_width w' = ?W"
        "\<forall>m. m \<le> L \<and> L - m < ?W \<longrightarrow> (pos_bit w' (m mod ?W) \<longleftrightarrow> m = ?N \<or> pos_bit w (m mod ?W))"
      by auto
    have "rw_sim w' (L, ?N # S)"
      using w' NL N0 sim(2,3,5) assms(3) by (auto simp: rw_sim_def)
    then show ?thesis
      using assms st False t NL N0 w'(1,4)
      by (auto simp: ReplayWindow_Observe_def not_less max_def)
  qed
qed

lemma Observe_sim:
  assumes "rw_sim w r"
  shows "\<exists>w'. ReplayWindow_Observe w n = Some (fst (ref_observe (rw_width w) r (unat n)), w') \<and>
           rw_sim w' (snd (ref_observe (rw_width w) r (unat n))) \<and> rw_width w' = rw_width w"
proof -
  obtain L S where r: "r = (L, S)" by (cases r)
  note sim = assms [unfolded r]
  consider (zero) "n = 0" | (first) "n \<noteq> 0" "rw_last w = 0" | (ahead) "rw_last w \<noteq> 0" "rw_last w < n"
    | (behind) "n \<noteq> 0" "rw_last w \<noteq> 0" "n \<le> rw_last w" by fastforce
  then show ?thesis
  proof cases
    case zero
    with assms show ?thesis by (simp add: ReplayWindow_Observe_def r)
  next
    case first
    then have "0 < unat n" by (simp add: unat_gt_0)
    with first Observe_sim_first [OF sim first] rw_simD(2) [OF sim] show ?thesis
      by (auto simp: r)
  next
    case ahead
    have "L < unat n" "unat n \<notin> set S"
      using ahead(2) rw_simD(2,3) [OF sim] by (auto simp: word_less_nat_alt dest: rw_simD(3) [OF sim])
    with Observe_sim_ahead [OF sim ahead] show ?thesis by (auto simp: r max_def)
  next
    case behind
    with Observe_sim_behind [OF sim behind] show ?thesis by (simp add: r)
  qed
qed

lemma observe_all_sim:
  "rw_sim w r \<Longrightarrow>
     \<exists>w'. observe_all w ns = Some (ref_run (rw_width w) r (map unat ns), w')"
proof (induction ns arbitrary: w r)
  case (Cons n ns)
  from Observe_sim [OF Cons.prems, of n] obtain w' where
    w': "ReplayWindow_Observe w n = Some (fst (ref_observe (rw_width w) r (unat n)), w')"
      "rw_sim w' (snd (ref_observe (rw_width w) r (unat n)))" "rw_width w' = rw_width w" by blast
  from Cons.IH [OF w'(2)] w' show ?case by auto
qed simp

lemma NewReplayWindow_eq:
  assumes "0 < width" and "width \<le> max_int64"
  shows "NewReplayWindow width =
    (if width + 63 \<le> max_int64
     then let nw = (width + 63) div 64 in
       Inr \<lparr>rw_last = 0, rw_words = replicate (nat nw) 0, rw_width = nat (nw * 64), rw_nw = nat nw\<rparr>
     else Inl PanicMakeslice)"
proof (cases "width + 63 \<le> max_int64")
  case True
  let ?nw = "(width + 63) div 64"
  have "wrap64 (width + 63) = width + 63" using True assms by (simp add: min_int64_def)
  moreover have "wrap64 (?nw * 64) = ?nw * 64"
    using True assms by (intro wrap64_id) (simp_all add: min_int64_def max_int64_def)
  moreover have "0 \<le> ?nw" using assms(1) by simp
  ultimately show ?thesis using True assms(1) by (simp add: NewReplayWindow_def Let_def)
next
  case False
  then have w: "wrap64 (width + 63) = width + 63 - 2 ^ 64"
    using assms(2) by (intro wrap64_over) (simp_all add: max_int64_def)
  have neg: "width + 63 - 2 ^ 64 \<le> - 64" using assms(2) by (simp add: max_int64_def)
  then have "1 \<le> \<bar>width + 63 - 2 ^ 64\<bar> div 64" by (simp add: abs_if)
  with neg have "go_div (width + 63 - 2 ^ 64) 64 < 0" by (simp add: go_div_def)
  with w False assms(1) show ?thesis by (simp add: NewReplayWindow_def Let_def)
qed

lemma NewReplayWindow_sim:
  assumes "NewReplayWindow width = Inr w" and "width \<le> max_int64"
  shows "rw_sim w (0, [])" and "int (rw_width w) = 64 * ((width + 63) div 64)"
proof -
  from assms(1) have pos: "0 < width" by (auto simp: NewReplayWindow_def split: if_splits)
  from assms(1) NewReplayWindow_eq [OF pos assms(2)] have ov: "width + 63 \<le> max_int64"
    and w: "w = \<lparr>rw_last = 0, rw_words = replicate (nat ((width + 63) div 64)) 0,
        rw_width = nat ((width + 63) div 64 * 64), rw_nw = nat ((width + 63) div 64)\<rparr>"
    by (auto simp: Let_def split: if_splits)
  have nw: "1 \<le> (width + 63) div 64" using pos by simp
  then show "int (rw_width w) = 64 * ((width + 63) div 64)" by (simp add: w)
  have "rw_shape w"
    using nw ov by (simp add: w rw_shape_def max_int64_def nat_mult_distrib)
  then show "rw_sim w (0, [])"
    using pos_div_less by (auto simp: rw_sim_def w pos_bit_def)
qed

section \<open>The window as a duplicate filter\<close>

definition rw_step :: "ReplayWindow \<Rightarrow> PacketNumber \<Rightarrow> bool \<times> ReplayWindow" where
  "rw_step w n =
     (case ReplayWindow_Observe w n of
        None \<Rightarrow> (False, w)
      | Some (d, w') \<Rightarrow> (d = ReplayFirstCopy, w'))"

definition rw_inv :: "ReplayWindow \<Rightarrow> bool" where
  "rw_inv w \<longleftrightarrow> (\<exists>r. rw_sim w r)"

definition rw_spent :: "ReplayWindow \<Rightarrow> PacketNumber \<Rightarrow> bool" where
  "rw_spent w n \<longleftrightarrow> \<not> fst (rw_step w n)"

lemma rw_step_sim:
  assumes "rw_sim w r"
  shows "fst (rw_step w n) \<longleftrightarrow> fst (ref_observe (rw_width w) r (unat n)) = ReplayFirstCopy"
    and "rw_sim (snd (rw_step w n)) (snd (ref_observe (rw_width w) r (unat n)))"
    and "rw_width (snd (rw_step w n)) = rw_width w"
  using Observe_sim [OF assms, of n] by (auto simp: rw_step_def)

lemma ref_accept_spends:
  "fst (ref_observe W r n) = ReplayFirstCopy \<Longrightarrow>
     fst (ref_observe W (snd (ref_observe W r n)) n) \<noteq> ReplayFirstCopy"
  by (cases r) (auto split: if_splits)

lemma ref_refused_mono:
  "fst (ref_observe W r k) \<noteq> ReplayFirstCopy \<Longrightarrow>
     fst (ref_observe W (snd (ref_observe W r n)) k) \<noteq> ReplayFirstCopy"
  by (cases r) (auto split: if_splits)

interpretation replay_once: once_filter rw_step "\<lambda>n. n" rw_inv rw_spent
proof
  fix w :: ReplayWindow and n k :: PacketNumber
  assume "rw_inv w"
  then obtain r where r: "rw_sim w r" by (auto simp: rw_inv_def)
  note step = rw_step_sim [OF r, of n]
  show "rw_inv (snd (rw_step w n))" using step(2) unfolding rw_inv_def by blast
  show "fst (rw_step w n) \<Longrightarrow> \<not> rw_spent w n" by (simp add: rw_spent_def)
  show "fst (rw_step w n) \<Longrightarrow> rw_spent (snd (rw_step w n)) n"
    using step rw_step_sim(1) [OF step(2)] ref_accept_spends by (auto simp: rw_spent_def)
  show "rw_spent w k \<Longrightarrow> rw_spent (snd (rw_step w n)) k"
    using step rw_step_sim(1) [OF r] rw_step_sim(1) [OF step(2)] ref_refused_mono
    by (auto simp: rw_spent_def)
qed

lemma NewReplayWindow_inv:
  "NewReplayWindow width = Inr w \<Longrightarrow> width \<le> max_int64 \<Longrightarrow> rw_inv w"
  unfolding rw_inv_def using NewReplayWindow_sim(1) by blast

lemma Observe_no_panic [panic_free]:
  "rw_inv w \<Longrightarrow> \<exists>d w'. ReplayWindow_Observe w n = Some (d, w') \<and> rw_inv w' \<and> rw_width w' = rw_width w"
  unfolding rw_inv_def using Observe_sim by blast

text \<open>What the reference filter remembers after a run.\<close>

fun ref_after :: "nat \<Rightarrow> ref_filter \<Rightarrow> nat list \<Rightarrow> ref_filter" where
  "ref_after W r [] = r"
| "ref_after W r (n # ns) = ref_after W (snd (ref_observe W r n)) ns"

lemma ref_run_append:
  "ref_run W r (ns @ ms) = ref_run W r ns @ ref_run W (ref_after W r ns) ms"
  by (induction ns arbitrary: r) auto

lemma ref_after_bound:
  "set (snd (ref_after W (L, S) ns)) \<subseteq> set S \<union> set ns \<and>
   fst (ref_after W (L, S) ns) \<in> insert L (set ns)"
proof (induction ns arbitrary: L S)
  case (Cons n ns)
  show ?case
    using Cons [of L S] Cons [of "max L n" "n # S"] by (auto simp: max_def split: if_splits)
qed simp

lemma ref_fresh_accepted:
  assumes "n \<noteq> 0" and "n \<notin> set ns" and "\<forall>m \<in> set ns. m < n + W"
  shows "fst (ref_observe W (ref_after W (0, []) ns) n) = ReplayFirstCopy"
  using ref_after_bound [of W 0 "[]" ns] assms by (cases "ref_after W (0, []) ns") auto

lemma observe_all_fresh:
  assumes "NewReplayWindow width = Inr w" and "width \<le> max_int64"
    and "n \<noteq> 0" and "n \<notin> set ns" and "\<forall>m \<in> set ns. unat m < unat n + rw_width w"
  shows "\<exists>ds w'. observe_all w (ns @ [n]) = Some (ds @ [ReplayFirstCopy], w')"
proof -
  have "unat n \<notin> set (map unat ns)" using assms(4) by (auto simp: word_unat_eq_iff [symmetric])
  with assms(3,5) have "fst (ref_observe (rw_width w) (ref_after (rw_width w) (0, []) (map unat ns)) (unat n))
      = ReplayFirstCopy"
    by (intro ref_fresh_accepted) (auto simp: unat_eq_0)
  with observe_all_sim [OF NewReplayWindow_sim(1) [OF assms(1,2)], of "ns @ [n]"] show ?thesis
    by (auto simp: ref_run_append)
qed

lemma observe_all_append:
  "observe_all w (ns @ ms) =
     (case observe_all w ns of None \<Rightarrow> None
      | Some (ds, w') \<Rightarrow> (case observe_all w' ms of None \<Rightarrow> None | Some (es, w'') \<Rightarrow> Some (ds @ es, w'')))"
  by (induction ns arbitrary: w) (auto split: option.splits)

section \<open>Properties\<close>

text \<open>
  C8. The ring bitmap implements its contract: on every sequence of packet numbers, a window
  made by \<^verbatim>\<open>NewReplayWindow\<close> never panics and returns the decisions of the reference
  filter, which remembers every number it accepted.
\<close>

theorem replay_refines_reference:
  assumes "NewReplayWindow width = Inr w" and "width \<le> max_int64"
  shows "\<exists>w'. observe_all w ns = Some (ref_run (rw_width w) (0, []) (map unat ns), w')"
  by (rule observe_all_sim) (rule NewReplayWindow_sim(1) [OF assms])

lemma NewReplayWindow_100:
  "NewReplayWindow 100 = Inr \<lparr>rw_last = 0, rw_words = [0, 0], rw_width = 128, rw_nw = 2\<rparr>"
  by (simp add: NewReplayWindow_def Let_def wrap64_def numeral_eq_Suc)

theorem replay_refines_reference_witness:
  "\<exists>w w'. NewReplayWindow 100 = Inr w \<and>
     observe_all w [5, 300, 5, 200, 200, 0] =
       Some ([ReplayFirstCopy, ReplayFirstCopy, ReplayStale, ReplayFirstCopy, ReplayDuplicate, ReplayInvalid], w')"
  using replay_refines_reference [OF NewReplayWindow_100, of "[5, 300, 5, 200, 200, 0]"] NewReplayWindow_100
  by (simp add: max_int64_def)

text \<open>
  Anti-replay: whatever packet numbers arrive, in whatever order, a window classifies no
  number as a first copy twice.
\<close>

lemma replay_never_twice:
  assumes "NewReplayWindow width = Inr w" and "width \<le> max_int64"
  shows "distinct (accepted_run rw_step w ns)"
  using replay_once.accepted_distinct [OF NewReplayWindow_inv [OF assms], of ns] by simp

text \<open>
  No packet is lost to the filter: a number that has not been seen, and that no number seen
  so far is ahead of by the width of the window or more, is classified as a first copy, in any
  order of arrival.
\<close>

theorem replay_fresh_delivered:
  assumes "NewReplayWindow width = Inr w" and "width \<le> max_int64"
    and "n \<noteq> 0" and "n \<notin> set ns" and "\<forall>m \<in> set ns. unat m < unat n + rw_width w"
  shows "\<exists>ds w'. observe_all w (ns @ [n]) = Some (ds @ [ReplayFirstCopy], w')"
  by (rule observe_all_fresh) (use assms in auto)

text \<open>
  \<^verbatim>\<open>NewReplayWindow\<close> on every Go \<^verbatim>\<open>int\<close>: a non-positive width is refused, a width within 63 of
  the largest \<^verbatim>\<open>int\<close> makes the allocation panic, and otherwise the window is empty and its width
  is the requested one rounded up to a multiple of 64, less than 64 above it.
\<close>

theorem new_replay_window_width:
  assumes "min_int64 \<le> width" and "width \<le> max_int64"
  shows "(case NewReplayWindow width of
            Inl ErrInvalidCapacity \<Rightarrow> width \<le> 0
          | Inl PanicMakeslice \<Rightarrow> max_int64 - 63 < width
          | Inr w \<Rightarrow> 0 < width \<and> width \<le> max_int64 - 63 \<and> rw_last w = 0 \<and>
              width \<le> int (ReplayWindow_Width w) \<and> int (ReplayWindow_Width w) < width + 64 \<and>
              64 dvd ReplayWindow_Width w \<and> 64 * length (rw_words w) = ReplayWindow_Width w)"
proof (cases "0 < width")
  case True
  let ?nw = "(width + 63) div 64"
  have "width \<le> 64 * ?nw \<and> 64 * ?nw < width + 64" by presburger
  moreover have "0 \<le> ?nw" using True by simp
  ultimately show ?thesis
    using True NewReplayWindow_eq [OF True assms(2)]
    by (auto simp: Let_def ReplayWindow_Width_def nat_mult_distrib)
qed (simp add: NewReplayWindow_def)

end
