(* ===== verification/Fifo_Window.thy ===== *)
theory Fifo_Window
  imports Replay
begin

text \<open>
  \<^verbatim>\<open>internal/dedup/window.go\<close>: the first-in first-out duplicate window of the probe gateway. A
  map from packet identities to records is bounded by a ring buffer that names the oldest
  live entry. The theory proves that the pair implements a bounded queue of identities.
\<close>

section \<open>The code\<close>

type_synonym PathID = string

definition PathID_Valid :: "PathID \<Rightarrow> bool" where
  "PathID_Valid p \<longleftrightarrow> p \<noteq> ''''"

datatype Decision = DecisionInvalid | DecisionFirstCopy | DecisionDuplicate

fun Decision_String :: "Decision \<Rightarrow> string" where
  "Decision_String DecisionFirstCopy = ''first-copy''"
| "Decision_String DecisionDuplicate = ''duplicate''"
| "Decision_String DecisionInvalid = ''invalid''"

record Result =
  res_Decision :: Decision
  res_ID :: PacketID
  res_Path :: PathID
  res_FirstPath :: PathID
  res_CopyCount :: int

record win_record =
  firstPath :: PathID
  copyCount :: int

record Window =
  win_capacity :: nat
  win_seen :: "PacketID \<rightharpoonup> win_record"
  win_ring :: "PacketID list"
  win_head :: nat
  win_count :: nat

definition zeroPacketID :: PacketID where
  "zeroPacketID = \<lparr>Session = zeroSession, Number = 0\<rparr>"

definition NewWindow :: "int \<Rightarrow> (dedup_error, Window) result" where
  "NewWindow capacity =
     (if capacity \<le> 0 then Inl ErrInvalidCapacity
      else Inr \<lparr>win_capacity = nat capacity, win_seen = Map.empty,
                win_ring = replicate (nat capacity) zeroPacketID, win_head = 0, win_count = 0\<rparr>)"

definition pushID :: "Window \<Rightarrow> PacketID \<Rightarrow> Window option" where
  "pushID w pid = do {
     tail \<leftarrow> go_mod (win_head w + win_count w) (win_capacity w);
     ring \<leftarrow> idx_upd (win_ring w) tail (\<lambda>_. pid);
     Some (w\<lparr>win_ring := ring, win_count := win_count w + 1\<rparr>)
   }"

definition evictIfFull :: "Window \<Rightarrow> Window option" where
  "evictIfFull w =
     (if win_count w < win_capacity w then Some w
      else do {
        oldest \<leftarrow> idx (win_ring w) (win_head w);
        head \<leftarrow> go_mod (win_head w + 1) (win_capacity w);
        Some (w\<lparr>win_seen := (win_seen w)(oldest := None), win_head := head, win_count := win_count w - 1\<rparr>)
      })"

text \<open>The body of \<^verbatim>\<open>Observe\<close> under the mutex, reached with a live window and a valid identity.\<close>

definition observe_locked :: "Window \<Rightarrow> PacketID \<Rightarrow> PathID \<Rightarrow> (Result \<times> Window) option" where
  "observe_locked w pid path =
     (case win_seen w pid of
        Some existing \<Rightarrow>
          let existing' = existing\<lparr>copyCount := wrap64 (copyCount existing + 1)\<rparr> in
          Some (\<lparr>res_Decision = DecisionDuplicate, res_ID = pid, res_Path = path,
                 res_FirstPath = firstPath existing', res_CopyCount = copyCount existing'\<rparr>,
                w\<lparr>win_seen := (win_seen w)(pid \<mapsto> existing')\<rparr>)
      | None \<Rightarrow> do {
          w1 \<leftarrow> evictIfFull w;
          let w2 = w1\<lparr>win_seen := (win_seen w1)(pid \<mapsto> \<lparr>firstPath = path, copyCount = 1\<rparr>)\<rparr>;
          w3 \<leftarrow> pushID w2 pid;
          Some (\<lparr>res_Decision = DecisionFirstCopy, res_ID = pid, res_Path = path,
                 res_FirstPath = path, res_CopyCount = 1\<rparr>, w3)
        })"

text \<open>A nil receiver is \<^term>\<open>None\<close>.\<close>

definition Window_Observe ::
  "Window option \<Rightarrow> PacketID \<Rightarrow> PathID \<Rightarrow> (Result \<times> Window option) option" where
  "Window_Observe window pid path =
     (case window of
        None \<Rightarrow> Some (\<lparr>res_Decision = DecisionInvalid, res_ID = pid, res_Path = path,
                       res_FirstPath = '''', res_CopyCount = 0\<rparr>, None)
      | Some w \<Rightarrow>
          if \<not> PacketID_Valid pid \<or> \<not> PathID_Valid path
          then Some (\<lparr>res_Decision = DecisionInvalid, res_ID = pid, res_Path = path,
                      res_FirstPath = '''', res_CopyCount = 0\<rparr>, Some w)
          else do {
            (r, w') \<leftarrow> observe_locked w pid path;
            Some (r, Some w')
          })"

definition Window_Len :: "Window option \<Rightarrow> nat" where
  "Window_Len window = (case window of None \<Rightarrow> 0 | Some w \<Rightarrow> card (dom (win_seen w)))"

definition Window_Capacity :: "Window option \<Rightarrow> nat" where
  "Window_Capacity window = (case window of None \<Rightarrow> 0 | Some w \<Rightarrow> win_capacity w)"

section \<open>The live entries of the ring\<close>

definition live :: "Window \<Rightarrow> PacketID list" where
  "live w = map (\<lambda>i. win_ring w ! ((win_head w + i) mod win_capacity w)) [0..<win_count w]"

definition win_inv :: "Window \<Rightarrow> bool" where
  "win_inv w \<longleftrightarrow> 0 < win_capacity w \<and> win_head w < win_capacity w \<and> win_count w \<le> win_capacity w \<and>
     length (win_ring w) = win_capacity w \<and> distinct (live w) \<and> set (live w) = dom (win_seen w)"

lemma win_invD:
  assumes "win_inv w"
  shows "0 < win_capacity w" "win_head w < win_capacity w" "win_count w \<le> win_capacity w"
    "length (win_ring w) = win_capacity w" "distinct (live w)" "dom (win_seen w) = set (live w)"
  using assms by (auto simp: win_inv_def)

lemma length_live [simp]: "length (live w) = win_count w"
  by (simp add: live_def)

lemma live_seen_upd [simp]: "live (w\<lparr>win_seen := m\<rparr>) = live w"
  by (simp add: live_def)

lemma evict_live:
  assumes "win_inv w" and "win_count w = win_capacity w"
  shows "evictIfFull w = Some (w\<lparr>win_seen := (win_seen w)(hd (live w) := None),
             win_head := (win_head w + 1) mod win_capacity w, win_count := win_count w - 1\<rparr>)"
    and "live (w\<lparr>win_head := (win_head w + 1) mod win_capacity w, win_count := win_count w - 1\<rparr>) = tl (live w)"
proof -
  note inv = win_invD [OF assms(1)]
  have "hd (live w) = win_ring w ! win_head w"
    using inv(1,2) assms(2) by (simp add: live_def hd_map)
  then show "evictIfFull w = Some (w\<lparr>win_seen := (win_seen w)(hd (live w) := None),
      win_head := (win_head w + 1) mod win_capacity w, win_count := win_count w - 1\<rparr>)"
    using inv(1,2,4) assms(2) by (simp add: evictIfFull_def)
  have "Suc (win_head w mod win_capacity w) = Suc (win_head w)" using inv(2) by simp
  then show "live (w\<lparr>win_head := (win_head w + 1) mod win_capacity w, win_count := win_count w - 1\<rparr>) = tl (live w)"
    using inv(1) assms(2) by (intro nth_equalityI) (auto simp: live_def nth_tl mod_simps)
qed

lemma push_live:
  assumes "0 < win_capacity w" and "win_count w < win_capacity w" and "length (win_ring w) = win_capacity w"
  shows "\<exists>w'. pushID w pid = Some w' \<and> live w' = live w @ [pid] \<and> win_seen w' = win_seen w \<and>
           win_capacity w' = win_capacity w \<and> win_head w' = win_head w \<and>
           win_count w' = win_count w + 1 \<and> length (win_ring w') = win_capacity w"
proof -
  let ?C = "win_capacity w" and ?t = "(win_head w + win_count w) mod win_capacity w"
  have ne: "(win_head w + i) mod ?C \<noteq> ?t" if "i < win_count w" for i
    using that assms(2) mod_window_eq [of "win_head w + i" "win_head w + win_count w" ?C] by simp
  have "live (w\<lparr>win_ring := (win_ring w)[?t := pid], win_count := win_count w + 1\<rparr>) = live w @ [pid]"
    using assms ne [THEN not_sym] by (auto simp: live_def)
  with assms show ?thesis by (simp add: pushID_def)
qed

section \<open>The reference queue and the refinement\<close>

text \<open>
  The promise of the window: a queue of at most \<open>C\<close> identities, oldest first, each with the
  path that delivered it first and the number of copies seen.
\<close>

type_synonym fifo = "(PacketID \<times> win_record) list"

definition bump :: "PacketID \<Rightarrow> fifo \<Rightarrow> fifo" where
  "bump pid q = map (\<lambda>(i, r). if i = pid then (i, r\<lparr>copyCount := wrap64 (copyCount r + 1)\<rparr>) else (i, r)) q"

definition fifo_observe :: "nat \<Rightarrow> fifo \<Rightarrow> PacketID \<times> PathID \<Rightarrow> Result \<times> fifo" where
  "fifo_observe C q = (\<lambda>(pid, path).
     if \<not> PacketID_Valid pid \<or> path = '''' then
       (\<lparr>res_Decision = DecisionInvalid, res_ID = pid, res_Path = path, res_FirstPath = '''', res_CopyCount = 0\<rparr>, q)
     else case map_of q pid of
       Some r \<Rightarrow>
         (\<lparr>res_Decision = DecisionDuplicate, res_ID = pid, res_Path = path, res_FirstPath = firstPath r,
           res_CopyCount = wrap64 (copyCount r + 1)\<rparr>, bump pid q)
     | None \<Rightarrow>
         (\<lparr>res_Decision = DecisionFirstCopy, res_ID = pid, res_Path = path, res_FirstPath = path,
           res_CopyCount = 1\<rparr>,
          (if length q < C then q else tl q) @ [(pid, \<lparr>firstPath = path, copyCount = 1\<rparr>)]))"

fun fifo_run :: "nat \<Rightarrow> fifo \<Rightarrow> (PacketID \<times> PathID) list \<Rightarrow> Result list" where
  "fifo_run C q [] = []"
| "fifo_run C q (i # is) = fst (fifo_observe C q i) # fifo_run C (snd (fifo_observe C q i)) is"

fun window_run :: "Window option \<Rightarrow> (PacketID \<times> PathID) list \<Rightarrow> (Result list \<times> Window option) option" where
  "window_run w [] = Some ([], w)"
| "window_run w (i # is) =
     (case Window_Observe w (fst i) (snd i) of
        None \<Rightarrow> None
      | Some (r, w') \<Rightarrow>
          (case window_run w' is of None \<Rightarrow> None | Some (rs, w'') \<Rightarrow> Some (r # rs, w'')))"

definition fifo_abs :: "Window \<Rightarrow> fifo" where
  "fifo_abs w = map (\<lambda>pid. (pid, the (win_seen w pid))) (live w)"

lemma length_fifo_abs [simp]: "length (fifo_abs w) = win_count w"
  by (simp add: fifo_abs_def)

lemma fst_fifo_abs [simp]: "map fst (fifo_abs w) = live w"
  by (simp add: fifo_abs_def comp_def)

lemma map_of_fifo_abs:
  assumes "win_inv w"
  shows "map_of (fifo_abs w) pid = win_seen w pid"
  unfolding fifo_abs_def map_of_map_restrict restrict_map_def win_invD(6) [OF assms, symmetric]
  by (cases "win_seen w pid") auto

lemma observe_locked_dup:
  assumes "win_inv w" and "win_seen w pid = Some r"
  shows "\<exists>w'. observe_locked w pid path =
            Some (\<lparr>res_Decision = DecisionDuplicate, res_ID = pid, res_Path = path, res_FirstPath = firstPath r,
                    res_CopyCount = wrap64 (copyCount r + 1)\<rparr>, w') \<and>
          win_inv w' \<and> win_capacity w' = win_capacity w \<and> fifo_abs w' = bump pid (fifo_abs w)"
proof -
  let ?w = "w\<lparr>win_seen := (win_seen w)(pid \<mapsto> r\<lparr>copyCount := wrap64 (copyCount r + 1)\<rparr>)\<rparr>"
  have "pid \<in> dom (win_seen w)" using assms(2) by auto
  then have "win_inv ?w" using assms(1) by (auto simp: win_inv_def)
  moreover have "fifo_abs ?w = bump pid (fifo_abs w)"
    using assms(2) by (auto simp: fifo_abs_def bump_def)
  ultimately show ?thesis using assms(2) by (auto simp: observe_locked_def Let_def)
qed

lemma evict_inv:
  assumes "win_inv w"
  shows "\<exists>w'. evictIfFull w = Some w' \<and> win_inv w' \<and> win_capacity w' = win_capacity w \<and>
           win_count w' < win_capacity w \<and> dom (win_seen w') \<subseteq> dom (win_seen w) \<and>
           fifo_abs w' = (if win_count w < win_capacity w then fifo_abs w else tl (fifo_abs w))"
proof (cases "win_count w < win_capacity w")
  case True
  with assms show ?thesis by (simp add: evictIfFull_def)
next
  case False
  note inv = win_invD [OF assms]
  let ?w' = "w\<lparr>win_seen := (win_seen w)(hd (live w) := None),
       win_head := (win_head w + 1) mod win_capacity w, win_count := win_count w - 1\<rparr>"
  have full: "win_count w = win_capacity w" using False inv(3) by simp
  have l: "live ?w' = tl (live w)"
    using evict_live(2) [OF assms full] by (simp add: live_def)
  obtain x xs where x: "live w = x # xs"
    using full inv(1) length_live [of w] by (cases "live w") auto
  have "dom (win_seen ?w') = set xs" "x \<notin> set xs" using inv(5,6) x by auto
  then have "win_inv ?w'" using inv full l x by (auto simp: win_inv_def)
  moreover have "fifo_abs ?w' = tl (fifo_abs w)"
    using l x \<open>x \<notin> set xs\<close> by (auto simp: fifo_abs_def)
  ultimately show ?thesis
    using evict_live(1) [OF assms full] False full inv(1) by (intro exI [of _ ?w']) auto
qed

lemma observe_locked_new:
  assumes "win_inv w" and "win_seen w pid = None"
  shows "\<exists>w'. observe_locked w pid path =
            Some (\<lparr>res_Decision = DecisionFirstCopy, res_ID = pid, res_Path = path, res_FirstPath = path,
                    res_CopyCount = 1\<rparr>, w') \<and>
          win_inv w' \<and> win_capacity w' = win_capacity w \<and>
          fifo_abs w' = (if win_count w < win_capacity w then fifo_abs w else tl (fifo_abs w)) @
            [(pid, \<lparr>firstPath = path, copyCount = 1\<rparr>)]"
proof -
  from evict_inv [OF assms(1)] obtain w1 where w1: "evictIfFull w = Some w1" "win_inv w1"
    "win_capacity w1 = win_capacity w" "win_count w1 < win_capacity w"
    "dom (win_seen w1) \<subseteq> dom (win_seen w)"
    "fifo_abs w1 = (if win_count w < win_capacity w then fifo_abs w else tl (fifo_abs w))" by blast
  note inv = win_invD [OF w1(2)]
  let ?w2 = "w1\<lparr>win_seen := (win_seen w1)(pid \<mapsto> \<lparr>firstPath = path, copyCount = 1\<rparr>)\<rparr>"
  have "pid \<notin> dom (win_seen w1)" using w1(5) assms(2) by auto
  then have new: "pid \<notin> set (live w1)" using inv(6) by simp
  from push_live [of ?w2 pid] inv w1(3,4) obtain w3 where w3: "pushID ?w2 pid = Some w3"
    "live w3 = live w1 @ [pid]" "win_seen w3 = win_seen ?w2" "win_capacity w3 = win_capacity w1"
    "win_head w3 = win_head w1" "win_count w3 = win_count w1 + 1"
    "length (win_ring w3) = win_capacity w1" by auto
  have "win_inv w3" using inv w1(3,4) w3 new by (auto simp: win_inv_def)
  moreover have "fifo_abs w3 = fifo_abs w1 @ [(pid, \<lparr>firstPath = path, copyCount = 1\<rparr>)]"
    using new by (auto simp: fifo_abs_def w3(2,3))
  ultimately show ?thesis
    using assms(2) w1(1,3,6) w3(1,4) by (simp add: observe_locked_def Let_def)
qed

lemma Window_Observe_sim:
  assumes "win_inv w"
  shows "\<exists>w'. Window_Observe (Some w) pid path =
            Some (fst (fifo_observe (win_capacity w) (fifo_abs w) (pid, path)), Some w') \<and>
          win_inv w' \<and> win_capacity w' = win_capacity w \<and>
          fifo_abs w' = snd (fifo_observe (win_capacity w) (fifo_abs w) (pid, path))"
proof -
  note m = map_of_fifo_abs [OF assms, of pid]
  consider (bad) "\<not> PacketID_Valid pid \<or> path = ''''"
    | (dup) r where "PacketID_Valid pid" "path \<noteq> ''''" "win_seen w pid = Some r"
    | (new) "PacketID_Valid pid" "path \<noteq> ''''" "win_seen w pid = None" by fastforce
  then show ?thesis
  proof cases
    case bad
    with assms show ?thesis by (simp add: Window_Observe_def fifo_observe_def PathID_Valid_def)
  next
    case (dup r)
    with m observe_locked_dup [OF assms dup(3), of path] show ?thesis
      by (auto simp: Window_Observe_def fifo_observe_def PathID_Valid_def)
  next
    case new
    with m observe_locked_new [OF assms new(3), of path] show ?thesis
      by (auto simp: Window_Observe_def fifo_observe_def PathID_Valid_def)
  qed
qed

lemma window_run_sim:
  "win_inv w \<Longrightarrow> \<exists>w'. window_run (Some w) is = Some (fifo_run (win_capacity w) (fifo_abs w) is, Some w') \<and>
     win_inv w' \<and> win_capacity w' = win_capacity w"
proof (induction "is" arbitrary: w)
  case (Cons i "is")
  obtain pid path where i: "i = (pid, path)" by (cases i)
  from Window_Observe_sim [OF Cons.prems, of pid path] obtain w1 where
    w1: "Window_Observe (Some w) pid path =
        Some (fst (fifo_observe (win_capacity w) (fifo_abs w) i), Some w1)"
      "win_inv w1" "win_capacity w1 = win_capacity w"
      "fifo_abs w1 = snd (fifo_observe (win_capacity w) (fifo_abs w) i)" unfolding i by blast
  from Cons.IH [OF w1(2)] w1 show ?case by (auto simp: i)
qed simp

lemma NewWindow_sim:
  assumes "NewWindow capacity = Inr w"
  shows "win_inv w" "fifo_abs w = []" "int (win_capacity w) = capacity" "0 < capacity"
  using assms by (auto simp: NewWindow_def win_inv_def live_def fifo_abs_def split: if_splits)

section \<open>The queue keeps the last identities\<close>

text \<open>
  The identities in the queue are the last \<open>C\<close> of those ever classified as a first copy, so
  two first copies of one identity are at least \<open>C\<close> other first copies apart.
\<close>

definition first_copies :: "Result list \<Rightarrow> PacketID list" where
  "first_copies rs = map res_ID (filter (\<lambda>r. res_Decision r = DecisionFirstCopy) rs)"

definition last_n :: "nat \<Rightarrow> 'a list \<Rightarrow> 'a list" where
  "last_n n xs = drop (length xs - n) xs"

lemma last_n_snoc:
  "0 < n \<Longrightarrow> (if length (last_n n xs) < n then last_n n xs else tl (last_n n xs)) @ [x] = last_n n (xs @ [x])"
  by (auto simp: last_n_def drop_Suc tl_drop Suc_diff_le drop_tl [symmetric])

lemma fst_bump [simp]: "map fst (bump pid q) = map fst q"
  by (simp add: bump_def comp_def split_beta)

lemma fifo_observe_ids:
  assumes "0 < C" and "map fst q = last_n C F"
  shows "map fst (snd (fifo_observe C q i)) = last_n C (F @ first_copies [fst (fifo_observe C q i)])"
    and "res_Decision (fst (fifo_observe C q i)) = DecisionFirstCopy \<Longrightarrow>
           res_ID (fst (fifo_observe C q i)) \<notin> set (last_n C F)"
proof -
  have len: "length q = length (last_n C F)" using assms(2) by (metis length_map)
  have ids: "map_of q x = None \<longleftrightarrow> x \<notin> set (last_n C F)" for x
    by (simp add: map_of_eq_None_iff assms(2) [symmetric])
  show "map fst (snd (fifo_observe C q i)) = last_n C (F @ first_copies [fst (fifo_observe C q i)])"
    using last_n_snoc [OF assms(1), of F "fst i"] len assms(2)
    by (auto simp: fifo_observe_def first_copies_def split_beta map_tl split: option.splits)
  show "res_Decision (fst (fifo_observe C q i)) = DecisionFirstCopy \<Longrightarrow>
      res_ID (fst (fifo_observe C q i)) \<notin> set (last_n C F)"
    using ids by (auto simp: fifo_observe_def split_beta split: if_splits option.splits)
qed

definition spaced :: "nat \<Rightarrow> PacketID list \<Rightarrow> bool" where
  "spaced C F \<longleftrightarrow> (\<forall>j < length F. \<forall>i < j. F ! i = F ! j \<longrightarrow> C < j - i)"

lemma spaced_snoc:
  assumes "spaced C F" and "x \<notin> set (last_n C F)"
  shows "spaced C (F @ [x])"
proof -
  have "C < length F - i" if "i < length F" "F ! i = x" for i
  proof (rule ccontr)
    assume "\<not> C < length F - i"
    then have "x = last_n C F ! (i - (length F - C))" "i - (length F - C) < length (last_n C F)"
      using that by (auto simp: last_n_def)
    with assms(2) show False by (metis nth_mem)
  qed
  with assms(1) show ?thesis by (auto simp: spaced_def nth_append less_Suc_eq)
qed

lemma fifo_run_spaced:
  "0 < C \<Longrightarrow> map fst q = last_n C F \<Longrightarrow> spaced C F \<Longrightarrow> spaced C (F @ first_copies (fifo_run C q is))"
proof (induction "is" arbitrary: q F)
  case (Cons i "is")
  let ?r = "fst (fifo_observe C q i)"
  note step = fifo_observe_ids [OF Cons.prems(1,2), of i]
  have "spaced C (F @ first_copies [?r])"
    using step(2) Cons.prems(3) spaced_snoc by (auto simp: first_copies_def)
  from Cons.IH [OF Cons.prems(1) step(1) this] show ?case
    by (auto simp: first_copies_def split: if_splits)
qed (simp add: first_copies_def)

section \<open>Properties\<close>

text \<open>
  C10. The map and the ring of \<^verbatim>\<open>Window\<close> together implement a bounded first-in first-out queue: on
  every sequence of identities and paths the window never panics, returns the results of the
  queue (decision, first path and copy count), and holds at most its capacity of identities.
\<close>

theorem window_refines_fifo:
  assumes "NewWindow capacity = Inr w"
  shows "\<exists>w'. window_run (Some w) obs = Some (fifo_run (nat capacity) [] obs, Some w') \<and>
           Window_Capacity (Some w') = nat capacity \<and> Window_Len (Some w') \<le> nat capacity"
proof -
  note new = NewWindow_sim [OF assms]
  have "win_capacity w = nat capacity" using new(3) by simp
  with window_run_sim [OF new(1), of obs] obtain w' where
    w': "window_run (Some w) obs = Some (fifo_run (nat capacity) [] obs, Some w')"
      "win_inv w'" "win_capacity w' = nat capacity" by (auto simp: new(2))
  have "Window_Len (Some w') = win_count w'"
    using distinct_card [OF win_invD(5) [OF w'(2)]] win_invD(6) [OF w'(2)] by (simp add: Window_Len_def)
  with w' win_invD(3) [OF w'(2)] show ?thesis by (auto simp: Window_Capacity_def)
qed

definition demo_id :: "PacketNumber \<Rightarrow> PacketID" where
  "demo_id n = \<lparr>Session = replicate 16 1, Number = n\<rparr>"

lemma demo_id_valid [simp]: "n \<noteq> 0 \<Longrightarrow> PacketID_Valid (demo_id n)"
  by (simp add: demo_id_def PacketID_Valid_def SessionID_IsZero_iff word_neq_0_conv)

lemma demo_id_eq [simp]: "demo_id m = demo_id n \<longleftrightarrow> m = n"
  by (simp add: demo_id_def)

theorem window_refines_fifo_witness:
  "\<exists>w rs w'. NewWindow 2 = Inr w \<and>
     window_run (Some w) [(demo_id 1, ''wifi''), (demo_id 1, ''usb''), (demo_id 2, ''usb''), (demo_id 3, ''usb''),
       (demo_id 1, ''usb'')] = Some (rs, Some w') \<and>
     map res_Decision rs = [DecisionFirstCopy, DecisionDuplicate, DecisionFirstCopy, DecisionFirstCopy,
       DecisionFirstCopy] \<and> Window_Len (Some w') \<le> 2"
proof -
  obtain w where w: "NewWindow 2 = Inr w" by (simp add: NewWindow_def)
  from window_refines_fifo [OF w, of "[(demo_id 1, ''wifi''), (demo_id 1, ''usb''), (demo_id 2, ''usb''),
      (demo_id 3, ''usb''), (demo_id 1, ''usb'')]"] w
  show ?thesis by (auto simp: fifo_observe_def bump_def)
qed

text \<open>
  Two first copies of one identity are separated by at least the capacity of other first
  copies: the window forgets an identity only by eviction, oldest first.
\<close>

theorem window_first_copies_spaced:
  assumes "NewWindow capacity = Inr w"
  shows "\<exists>rs w'. window_run (Some w) obs = Some (rs, w') \<and> spaced (nat capacity) (first_copies rs)"
proof -
  note new = NewWindow_sim [OF assms]
  have "win_capacity w = nat capacity" using new(3) by simp
  moreover have "spaced (nat capacity) (first_copies (fifo_run (nat capacity) [] obs))"
    using fifo_run_spaced [of "nat capacity" "[]" "[]" obs] new(4) by (simp add: last_n_def spaced_def)
  ultimately show ?thesis using window_run_sim [OF new(1), of obs] by (auto simp: new(2))
qed

end
