(* ===== verification/Wire.thy ===== *)
theory Wire
  imports Protocol Replay
begin

text \<open>
  The data-plane and ping datagrams of \<^verbatim>\<open>pkg/clientcore\<close> (\<^verbatim>\<open>data.go\<close>, \<^verbatim>\<open>ping.go\<close>), with
  the errors of the package.
\<close>

section \<open>Errors of the package\<close>

text \<open>
  One constructor per error value of the package, the errors it wraps from other packages,
  and the panics its callees may raise. \<open>errCrypto\<close> stands for an error value of the Go
  cryptographic library.
\<close>

datatype core_error =
    errShortData | errBadMagic | errBadVersion | errBadIdentity | errBadDirection | errOversize
  | errNotPing
  | ErrStaleHandshake
  | errShortHandshake | errHandshakeMagic | errHandshakeVer | errHandshakeType | errHandshakeField
  | errBadIdentityKey | errBadSignature | errMalformedSigLen
  | errBadPrivateKey | errBadPublicKey | errKeySize
  | errDedup dedup_error
  | errCrypto
  | panicIndex

section \<open>Data packets\<close>

definition dataVersion :: byte where "dataVersion = 1"
definition dataHeaderSize :: nat where "dataHeaderSize = 6 + SessionIDSize + 8"
definition flagDirection :: byte where "flagDirection = 0x01"
definition maxPayload :: nat where "maxPayload = 1600"

definition dirInitiator :: byte where "dirInitiator = 0"
definition dirResponder :: byte where "dirResponder = 1"

text \<open>The ASCII bytes \<^verbatim>\<open>CVD1\<close>.\<close>

definition dataMagic :: bytes where "dataMagic = [0x43, 0x56, 0x44, 0x31]"

definition frameHeader :: "PacketID \<Rightarrow> byte \<Rightarrow> bytes" where
  "frameHeader pid dir =
     dataMagic @ [dataVersion] @ [if dir = dirResponder then flagDirection else 0] @
     Session pid @ put_be64 (Number pid)"

definition parseHeader :: "bytes \<Rightarrow> (core_error, PacketID \<times> byte \<times> nat) result" where
  "parseHeader b =
     (if length b < dataHeaderSize then Inl errShortData
      else if slice b 0 4 \<noteq> dataMagic then Inl errBadMagic
      else if b ! 4 \<noteq> dataVersion then Inl errBadVersion
      else
        let dir = (if b ! 5 AND flagDirection \<noteq> 0 then dirResponder else dirInitiator);
            session = slice b 6 (6 + SessionIDSize);
            number = get_be64 (drop (6 + SessionIDSize) b);
            pid = \<lparr>Session = session, Number = number\<rparr>
        in if \<not> PacketID_Valid pid then Inl errBadIdentity
           else Inr (pid, dir, dataHeaderSize))"

definition SessionIDFromDatagram :: "bytes \<Rightarrow> (core_error, SessionID) result" where
  "SessionIDFromDatagram b = res_bind (parseHeader b) (\<lambda>(pid, _, _). Inr (Session pid))"

section \<open>Pings\<close>

definition pingSize :: nat where "pingSize = 13"
definition pingTypePing :: byte where "pingTypePing = 1"
definition pingTypePong :: byte where "pingTypePong = 2"

text \<open>The ASCII bytes \<^verbatim>\<open>CVPP\<close>.\<close>

definition pingMagic :: bytes where "pingMagic = [0x43, 0x56, 0x50, 0x50]"

definition encodePing :: "byte \<Rightarrow> u64 \<Rightarrow> bytes" where
  "encodePing typ nonce = pingMagic @ [typ] @ put_be64 nonce"

definition EncodePing :: "u64 \<Rightarrow> bytes" where "EncodePing nonce = encodePing pingTypePing nonce"
definition EncodePong :: "u64 \<Rightarrow> bytes" where "EncodePong nonce = encodePing pingTypePong nonce"

definition DecodePing :: "bytes \<Rightarrow> (core_error, bool \<times> u64) result" where
  "DecodePing b =
     (if length b \<noteq> pingSize \<or> [b ! 0, b ! 1, b ! 2, b ! 3] \<noteq> pingMagic then Inl errNotPing
      else if b ! 4 = pingTypePing then Inr (False, get_be64 (drop 5 b))
      else if b ! 4 = pingTypePong then Inr (True, get_be64 (drop 5 b))
      else Inl errNotPing)"

section \<open>Lemmas\<close>

lemmas wire_consts =
  dataVersion_def dataHeaderSize_def flagDirection_def dirInitiator_def dirResponder_def dataMagic_def
  pingSize_def pingTypePing_def pingTypePong_def pingMagic_def SessionIDSize_def

lemma length_frameHeader [simp]: "wf_session (Session pid) \<Longrightarrow> length (frameHeader pid dir) = dataHeaderSize"
  by (simp add: frameHeader_def wire_consts wf_session_def)

lemma frameHeader_inj:
  assumes "wf_session (Session p)" and "wf_session (Session q)"
    and "d \<in> {dirInitiator, dirResponder}" and "e \<in> {dirInitiator, dirResponder}"
  shows "frameHeader p d = frameHeader q e \<longleftrightarrow> p = q \<and> d = e"
  using assms by (cases p; cases q) (auto simp: frameHeader_def wire_consts wf_session_def put_be64_inj)

lemma parseHeader_frame:
  assumes "wf_session (Session pid)" and "PacketID_Valid pid" and "dir \<in> {dirInitiator, dirResponder}"
  shows "parseHeader (frameHeader pid dir @ rest) = Inr (pid, dir, dataHeaderSize)"
proof -
  have len: "length (Session pid) = 16"
    using assms(1) by (simp add: wf_session_def SessionIDSize_def)
  then show ?thesis
    using assms(2,3)
    by (cases pid) (auto simp: frameHeader_def parseHeader_def Let_def wire_consts slice_def numeral_eq_Suc)
qed

lemma parseHeader_inv:
  assumes "parseHeader b = Inr (pid, dir, off)"
  shows "wf_session (Session pid)" "PacketID_Valid pid" "off = dataHeaderSize" "dataHeaderSize \<le> length b"
    "dir = (if b ! 5 AND flagDirection \<noteq> 0 then dirResponder else dirInitiator)"
    "b = dataMagic @ [dataVersion] @ [b ! 5] @ Session pid @ put_be64 (Number pid) @ drop dataHeaderSize b"
proof -
  from assms have len: "30 \<le> length b" and magic: "slice b 0 4 = dataMagic"
    and ver: "b ! 4 = dataVersion" and p: "pid = \<lparr>Session = slice b 6 22, Number = get_be64 (drop 22 b)\<rparr>"
    and off: "off = dataHeaderSize" and v: "PacketID_Valid pid"
    and dir: "dir = (if b ! 5 AND flagDirection \<noteq> 0 then dirResponder else dirInitiator)"
    by (auto simp: parseHeader_def Let_def dataHeaderSize_def SessionIDSize_def split: if_splits)
  show "wf_session (Session pid)" using len by (simp add: p wf_session_def SessionIDSize_def)
  show "PacketID_Valid pid" "off = dataHeaderSize" "dataHeaderSize \<le> length b"
    "dir = (if b ! 5 AND flagDirection \<noteq> 0 then dirResponder else dirInitiator)"
    using v off len dir by (simp_all add: dataHeaderSize_def SessionIDSize_def)
  have "drop 22 b = put_be64 (get_be64 (drop 22 b)) @ drop 30 b"
    using len append_take_drop_id [of 8 "drop 22 b"] by (simp add: put_get_be64_take)
  then show "b = dataMagic @ [dataVersion] @ [b ! 5] @ Session pid @ put_be64 (Number pid) @ drop dataHeaderSize b"
    using len header_split [of b] magic ver by (simp add: p dataHeaderSize_def SessionIDSize_def)
qed

lemma DecodePing_encode:
  "DecodePing (encodePing typ nonce) =
     (if typ = pingTypePing then Inr (False, nonce) else if typ = pingTypePong then Inr (True, nonce)
      else Inl errNotPing)"
  by (simp add: DecodePing_def encodePing_def wire_consts numeral_eq_Suc)

lemma list5_split:
  assumes "5 \<le> length b"
  shows "b = [b ! 0, b ! 1, b ! 2, b ! 3] @ [b ! 4] @ drop 5 b"
  using assms by (intro nth_equalityI) (auto simp: nth_Cons numeral_eq_Suc split: nat.splits)

lemma DecodePing_inv:
  assumes "DecodePing b = Inr (isPong, nonce)"
  shows "b = (if isPong then EncodePong nonce else EncodePing nonce)"
proof -
  from assms have len: "length b = 13" and m: "[b ! 0, b ! 1, b ! 2, b ! 3] = pingMagic"
    and t: "b ! 4 = (if isPong then pingTypePong else pingTypePing)" and n: "nonce = get_be64 (drop 5 b)"
    by (auto simp: DecodePing_def pingSize_def pingTypePing_def pingTypePong_def split: if_splits)
  have "put_be64 nonce = drop 5 b" using len by (simp add: n put_get_be64_take)
  moreover have "b = pingMagic @ [b ! 4] @ drop 5 b" using list5_split [of b] len unfolding m by simp
  ultimately have "b = pingMagic @ [b ! 4] @ put_be64 nonce" by metis
  with t show ?thesis
    by (simp add: EncodePong_def EncodePing_def encodePing_def split: if_splits)
qed

section \<open>Properties\<close>

text \<open>
  \<^verbatim>\<open>parseHeader\<close> accepts exactly the datagrams that start with a header of a valid
  packet identity, and reads back the identity and the direction that \<^verbatim>\<open>frameHeader\<close> wrote; of
  the flags byte only the direction bit is read.
\<close>

theorem data_header_exact:
  "parseHeader b = Inr (pid, dir, off) \<longleftrightarrow>
     (\<exists>flags rest. off = dataHeaderSize \<and> wf_session (Session pid) \<and> PacketID_Valid pid \<and>
        dir = (if flags AND flagDirection \<noteq> 0 then dirResponder else dirInitiator) \<and>
        b = (frameHeader pid dir)[5 := flags] @ rest)"
proof
  assume *: "parseHeader b = Inr (pid, dir, off)"
  note inv = parseHeader_inv [OF *]
  have "b = (frameHeader pid dir)[5 := b ! 5] @ drop dataHeaderSize b"
    by (subst inv(6)) (simp add: frameHeader_def dataMagic_def numeral_eq_Suc)
  with inv(1-5) show "\<exists>flags rest. off = dataHeaderSize \<and> wf_session (Session pid) \<and> PacketID_Valid pid \<and>
      dir = (if flags AND flagDirection \<noteq> 0 then dirResponder else dirInitiator) \<and>
      b = (frameHeader pid dir)[5 := flags] @ rest" by blast
next
  assume "\<exists>flags rest. off = dataHeaderSize \<and> wf_session (Session pid) \<and> PacketID_Valid pid \<and>
      dir = (if flags AND flagDirection \<noteq> 0 then dirResponder else dirInitiator) \<and>
      b = (frameHeader pid dir)[5 := flags] @ rest"
  then show "parseHeader b = Inr (pid, dir, off)"
    by (cases pid) (auto simp: frameHeader_def parseHeader_def Let_def wire_consts wf_session_def slice_def
        numeral_eq_Suc)
qed

text \<open>
  The ping codec is exact: a datagram decodes to a ping or a pong with a nonce if and only if
  it is the encoding of that message, so the reply to a ping has the size of the ping.
\<close>

lemma ping_codec_exact:
  "DecodePing b = Inr (isPong, nonce) \<longleftrightarrow>
     b = (if isPong then EncodePong nonce else EncodePing nonce) \<and> length b = pingSize"
proof
  assume *: "DecodePing b = Inr (isPong, nonce)"
  then show "b = (if isPong then EncodePong nonce else EncodePing nonce) \<and> length b = pingSize"
    using DecodePing_inv [OF *] by (simp add: DecodePing_def split: if_splits)
next
  assume "b = (if isPong then EncodePong nonce else EncodePing nonce) \<and> length b = pingSize"
  then show "DecodePing b = Inr (isPong, nonce)"
    by (simp add: EncodePong_def EncodePing_def DecodePing_encode pingTypePing_def pingTypePong_def)
qed

end
