(* ===== verification/Crypto_Api.thy ===== *)
theory Crypto_Api
  imports Gemina_Prelude
begin

text \<open>
  The Go cryptographic library as the code calls it. The primitives are not part of the
  repository: they are the fields of a record that the definitions take as an argument. What the
  code relies on is stated as the named predicates below, each a documented property of
  the primitive as a function; nothing is assumed of an adversary.
\<close>

record crypto =
  aead_seal :: "bytes \<Rightarrow> bytes \<Rightarrow> bytes \<Rightarrow> bytes \<Rightarrow> bytes"
    \<comment> \<open>AES-256-GCM Seal: key, nonce, plaintext, additional data\<close>
  aead_open :: "bytes \<Rightarrow> bytes \<Rightarrow> bytes \<Rightarrow> bytes \<Rightarrow> bytes option"
    \<comment> \<open>AES-256-GCM Open: key, nonce, ciphertext, additional data\<close>
  x25519_pub :: "bytes \<Rightarrow> bytes"
    \<comment> \<open>the public key of a private key\<close>
  x25519_ecdh :: "bytes \<Rightarrow> bytes \<Rightarrow> bytes option"
    \<comment> \<open>private key, public key; an all-zero shared secret is an error\<close>
  hkdf_sha256 :: "bytes \<Rightarrow> bytes \<Rightarrow> bytes \<Rightarrow> nat \<Rightarrow> bytes option"
    \<comment> \<open>secret, salt, info, length\<close>
  ed25519_pub :: "bytes \<Rightarrow> bytes"
  ed25519_sign :: "bytes \<Rightarrow> bytes \<Rightarrow> bytes"
    \<comment> \<open>private key, message\<close>
  ed25519_verify :: "bytes \<Rightarrow> bytes \<Rightarrow> bytes \<Rightarrow> bool"
    \<comment> \<open>public key, message, signature\<close>
  hmac_sha256 :: "bytes \<Rightarrow> bytes \<Rightarrow> bytes"
    \<comment> \<open>key, message\<close>

definition gcmTagSize :: nat where "gcmTagSize = 16"
definition PublicKeySize :: nat where "PublicKeySize = 32"
definition PrivateKeySize :: nat where "PrivateKeySize = 64"
definition SignatureSize :: nat where "SignatureSize = 64"
definition x25519KeySize :: nat where "x25519KeySize = 32"

text \<open>\<^verbatim>\<open>Open\<close> inverts \<^verbatim>\<open>Seal\<close> under the same key, nonce and additional data.\<close>

definition aead_correct :: "crypto \<Rightarrow> bool" where
  "aead_correct C \<longleftrightarrow> (\<forall>k n p a. aead_open C k n (aead_seal C k n p a) a = Some p)"

text \<open>
  \<^verbatim>\<open>Open\<close> returns a plaintext only for the ciphertext and tag that \<^verbatim>\<open>Seal\<close> computes for it: GCM
  recomputes the tag over the additional data and the ciphertext and compares.
\<close>

definition aead_exact :: "crypto \<Rightarrow> bool" where
  "aead_exact C \<longleftrightarrow> (\<forall>k n c a p. aead_open C k n c a = Some p \<longrightarrow> c = aead_seal C k n p a)"

definition aead_overhead :: "crypto \<Rightarrow> bool" where
  "aead_overhead C \<longleftrightarrow> (\<forall>k n p a. length (aead_seal C k n p a) = length p + gcmTagSize)"

text \<open>Diffie-Hellman agreement, and key lengths.\<close>

definition ecdh_agrees :: "crypto \<Rightarrow> bool" where
  "ecdh_agrees C \<longleftrightarrow> (\<forall>a b. x25519_ecdh C a (x25519_pub C b) = x25519_ecdh C b (x25519_pub C a))"

definition x25519_pub_size :: "crypto \<Rightarrow> bool" where
  "x25519_pub_size C \<longleftrightarrow> (\<forall>a. length a = x25519KeySize \<longrightarrow> length (x25519_pub C a) = x25519KeySize)"

definition hkdf_size :: "crypto \<Rightarrow> bool" where
  "hkdf_size C \<longleftrightarrow> (\<forall>s salt info n k. hkdf_sha256 C s salt info n = Some k \<longrightarrow> length k = n)"

text \<open>A signature verifies under the public key of the private key that made it.\<close>

definition signature_correct :: "crypto \<Rightarrow> bool" where
  "signature_correct C \<longleftrightarrow> (\<forall>priv m. length priv = PrivateKeySize \<longrightarrow>
     ed25519_verify C (ed25519_pub C priv) m (ed25519_sign C priv m) \<and>
     length (ed25519_sign C priv m) = SignatureSize \<and> length (ed25519_pub C priv) = PublicKeySize)"

text \<open>
  An instance of the record by concrete functions, with which the theorems that have these
  predicates as hypotheses are applied.
\<close>

definition demo_crypto :: crypto where
  "demo_crypto = \<lparr>
     aead_seal = (\<lambda>k n p a. p @ replicate 16 (of_nat (length a))),
     aead_open = (\<lambda>k n c a.
        if 16 \<le> length c \<and> drop (length c - 16) c = replicate 16 (of_nat (length a))
        then Some (take (length c - 16) c) else None),
     x25519_pub = (\<lambda>a. a),
     x25519_ecdh = (\<lambda>a b. Some (map (\<lambda>(x, y). x + y) (zip a b))),
     hkdf_sha256 = (\<lambda>s salt info n. Some (take n (s @ replicate n 0))),
     ed25519_pub = (\<lambda>priv. take 32 priv),
     ed25519_sign = (\<lambda>priv m. take 32 priv @ replicate 32 (of_nat (length m))),
     ed25519_verify = (\<lambda>pub m sig. sig = pub @ replicate 32 (of_nat (length m))),
     hmac_sha256 = (\<lambda>k m. replicate 31 (of_nat (length k)) @ [of_nat (sum_list (map unat m))])\<rparr>"

lemma demo_crypto_laws [simp]:
  "aead_correct demo_crypto" "aead_exact demo_crypto" "aead_overhead demo_crypto"
  "ecdh_agrees demo_crypto" "x25519_pub_size demo_crypto" "hkdf_size demo_crypto"
  "signature_correct demo_crypto"
proof -
  show "aead_exact demo_crypto"
    by (auto simp: aead_exact_def demo_crypto_def split: if_splits) (metis append_take_drop_id)
  have "map (\<lambda>(x, y). x + y) (zip a b) = map (\<lambda>(x, y). x + y) (zip b (a :: bytes))" for a b
    by (subst zip_commute) (simp add: comp_def split_beta add.commute)
  then show "ecdh_agrees demo_crypto" by (simp add: ecdh_agrees_def demo_crypto_def)
  show "signature_correct demo_crypto"
    by (simp add: signature_correct_def demo_crypto_def PrivateKeySize_def PublicKeySize_def SignatureSize_def)
qed (auto simp: aead_correct_def aead_overhead_def x25519_pub_size_def hkdf_size_def demo_crypto_def
      gcmTagSize_def min_def)

end
