(* ===== verification/Handshake_Wire.thy ===== *)
theory Handshake_Wire
  imports Wire Crypto_Api
begin

text \<open>
  The handshake datagrams of \<^verbatim>\<open>pkg/clientcore/handshake_message.go\<close>, the freshness check, the
  signed transcript of \<^verbatim>\<open>handshake_auth.go\<close>, and the datagram classifier of \<^verbatim>\<open>classify.go\<close>.
\<close>

section \<open>Freshness\<close>

definition DefaultHandshakeTolerance :: duration where
  "DefaultHandshakeTolerance = 60 * nanos_per_second"

text \<open>\<^verbatim>\<open>nil\<close> is \<^term>\<open>Inr ()\<close>.\<close>

definition CheckHandshakeFresh :: "int \<Rightarrow> go_time \<Rightarrow> duration \<Rightarrow> (core_error, unit) result" where
  "CheckHandshakeFresh timestamp now tolerance =
     (let skew0 = Time_Sub now (time_Unix timestamp);
          skew = (if skew0 < 0 then dur_neg skew0 else skew0)
      in if skew > tolerance then Inl ErrStaleHandshake else Inr ())"

text \<open>
  Randomness is an argument: what \<^verbatim>\<open>rand.Read\<close> wrote into the 16 bytes of the array, \<^term>\<open>None\<close> if
  it failed.
\<close>

definition randomSessionID :: "bytes option \<Rightarrow> (core_error, SessionID) result" where
  "randomSessionID rnd =
     (case rnd of None \<Rightarrow> Inl errCrypto | Some sid \<Rightarrow> Inr (sid[0 := (sid ! 0) OR 1]))"

section \<open>Messages\<close>

definition handshakeVersion :: byte where "handshakeVersion = 1"
definition msgClientHello :: byte where "msgClientHello = 1"
definition msgServerHello :: byte where "msgServerHello = 2"
definition x25519PubSize :: nat where "x25519PubSize = 32"
definition maxTokenLen :: nat where "maxTokenLen = 4096"
definition assignedIPv4Size :: nat where "assignedIPv4Size = 4"
definition clientHelloFixed :: nat where
  "clientHelloFixed = 6 + SessionIDSize + 8 + x25519PubSize + 2"
definition serverHelloLen :: nat where
  "serverHelloLen = 6 + SessionIDSize + x25519PubSize + SignatureSize + assignedIPv4Size"

text \<open>The ASCII bytes \<^verbatim>\<open>CVH1\<close>.\<close>

definition handshakeMagic :: bytes where "handshakeMagic = [0x43, 0x56, 0x48, 0x31]"

definition putHandshakeHeader :: "byte \<Rightarrow> SessionID \<Rightarrow> bytes" where
  "putHandshakeHeader msgType sid = handshakeMagic @ [handshakeVersion] @ [msgType] @ sid"

definition parseHandshakeHeader :: "bytes \<Rightarrow> byte \<Rightarrow> (core_error, SessionID) result" where
  "parseHandshakeHeader b msgType =
     (if length b < 6 + SessionIDSize then Inl errShortHandshake
      else if slice b 0 4 \<noteq> handshakeMagic then Inl errHandshakeMagic
      else if b ! 4 \<noteq> handshakeVersion then Inl errHandshakeVer
      else if b ! 5 \<noteq> msgType then Inl errHandshakeType
      else Inr (slice b 6 (6 + SessionIDSize)))"

definition EncodeClientHello ::
  "SessionID \<Rightarrow> int \<Rightarrow> bytes \<Rightarrow> string \<Rightarrow> (core_error, bytes) result" where
  "EncodeClientHello sid timestamp ephemeralPub token =
     (if length ephemeralPub \<noteq> x25519PubSize then Inl errHandshakeField
      else if length token > maxTokenLen then Inl errHandshakeField
      else Inr (putHandshakeHeader msgClientHello sid @ put_be64 (uint64_of timestamp) @ ephemeralPub @
                put_be16 (of_nat (length token)) @ str_bytes token))"

definition DecodeClientHello ::
  "bytes \<Rightarrow> (core_error, SessionID \<times> int \<times> bytes \<times> string) result" where
  "DecodeClientHello b =
     res_bind (parseHandshakeHeader b msgClientHello) (\<lambda>sid.
       if length b < clientHelloFixed then Inl errShortHandshake
       else
         let tsStart = 6 + SessionIDSize;
             timestamp = int64_of (get_be64 (drop tsStart b));
             ephStart = tsStart + 8;
             eph = slice b ephStart (ephStart + x25519PubSize);
             tokenLen = unat (get_be16 (drop (ephStart + x25519PubSize) b))
         in if length b \<noteq> clientHelloFixed + tokenLen \<or> tokenLen > maxTokenLen then Inl errHandshakeField
            else Inr (sid, timestamp, eph, bytes_str (drop clientHelloFixed b)))"

definition EncodeServerHello ::
  "SessionID \<Rightarrow> bytes \<Rightarrow> bytes \<Rightarrow> bytes \<Rightarrow> (core_error, bytes) result" where
  "EncodeServerHello sid ephemeralPub sig assignedIPv4 =
     (if length ephemeralPub \<noteq> x25519PubSize \<or> length sig \<noteq> SignatureSize then Inl errHandshakeField
      else Inr (putHandshakeHeader msgServerHello sid @ ephemeralPub @ sig @ assignedIPv4))"

definition DecodeServerHello ::
  "bytes \<Rightarrow> (core_error, SessionID \<times> bytes \<times> bytes \<times> bytes) result" where
  "DecodeServerHello b =
     res_bind (parseHandshakeHeader b msgServerHello) (\<lambda>sid.
       if length b \<noteq> serverHelloLen then Inl errHandshakeField
       else
         let ephStart = 6 + SessionIDSize;
             eph = slice b ephStart (ephStart + x25519PubSize);
             sigStart = ephStart + x25519PubSize;
             signature = slice b sigStart (sigStart + SignatureSize);
             ip = take assignedIPv4Size (drop (sigStart + SignatureSize) b)
         in Inr (sid, eph, signature, ip))"

section \<open>The signed transcript\<close>

definition handshakeContext :: string where "handshakeContext = ''continuity-vpn handshake v1''"

definition transcript :: "bytes \<Rightarrow> SessionID \<Rightarrow> bytes" where
  "transcript ephemeralPub sid = str_bytes handshakeContext @ sid @ ephemeralPub"

text \<open>\<^verbatim>\<open>ed25519.Sign\<close> panics on a private key of the wrong size.\<close>

definition SignHandshake :: "crypto \<Rightarrow> bytes \<Rightarrow> bytes \<Rightarrow> SessionID \<Rightarrow> bytes option" where
  "SignHandshake C identityPriv ephemeralPub sid =
     (if length identityPriv \<noteq> PrivateKeySize then None
      else Some (ed25519_sign C identityPriv (transcript ephemeralPub sid)))"

definition VerifyHandshake ::
  "crypto \<Rightarrow> bytes \<Rightarrow> bytes \<Rightarrow> bytes \<Rightarrow> SessionID \<Rightarrow> (core_error, unit) result" where
  "VerifyHandshake C identityPub ephemeralPub sig sid =
     (if length identityPub \<noteq> PublicKeySize then Inl errBadIdentityKey
      else if length sig \<noteq> SignatureSize then Inl errMalformedSigLen
      else if \<not> ed25519_verify C identityPub (transcript ephemeralPub sid) sig then Inl errBadSignature
      else Inr ())"

section \<open>Classification\<close>

datatype DatagramKind = KindUnknown | KindData | KindClientHello | KindServerHello | KindPing

fun DatagramKind_String :: "DatagramKind \<Rightarrow> string" where
  "DatagramKind_String KindData = ''data''"
| "DatagramKind_String KindClientHello = ''client-hello''"
| "DatagramKind_String KindServerHello = ''server-hello''"
| "DatagramKind_String KindPing = ''ping''"
| "DatagramKind_String KindUnknown = ''unknown''"

definition ClassifyDatagram :: "bytes \<Rightarrow> DatagramKind" where
  "ClassifyDatagram b =
     (if length b < 4 then KindUnknown
      else
        let magic = [b ! 0, b ! 1, b ! 2, b ! 3] in
        if magic = dataMagic then KindData
        else if magic = pingMagic then KindPing
        else if magic = handshakeMagic then
          (if length b < 6 then KindUnknown
           else if b ! 5 = msgClientHello then KindClientHello
           else if b ! 5 = msgServerHello then KindServerHello
           else KindUnknown)
        else KindUnknown)"

section \<open>Lemmas\<close>

lemmas handshake_consts =
  handshakeVersion_def msgClientHello_def msgServerHello_def x25519PubSize_def assignedIPv4Size_def
  clientHelloFixed_def serverHelloLen_def handshakeMagic_def SessionIDSize_def SignatureSize_def

lemma length_putHandshakeHeader [simp]: "wf_session sid \<Longrightarrow> length (putHandshakeHeader t sid) = 22"
  by (simp add: putHandshakeHeader_def handshake_consts wf_session_def)

lemma parseHandshakeHeader_put:
  "wf_session sid \<Longrightarrow> parseHandshakeHeader (putHandshakeHeader t sid @ rest) t = Inr sid"
  by (simp add: parseHandshakeHeader_def putHandshakeHeader_def handshake_consts wf_session_def slice_def
      numeral_eq_Suc)

lemma parseHandshakeHeader_inv:
  assumes "parseHandshakeHeader b t = Inr sid"
  shows "wf_session sid" "b = putHandshakeHeader t sid @ drop 22 b" "22 \<le> length b"
proof -
  from assms have len: "22 \<le> length b" and m: "slice b 0 4 = handshakeMagic" "b ! 4 = handshakeVersion" "b ! 5 = t"
    and sid: "sid = slice b 6 22"
    by (auto simp: parseHandshakeHeader_def SessionIDSize_def split: if_splits)
  then show "wf_session sid" "22 \<le> length b" by (simp_all add: wf_session_def SessionIDSize_def)
  show "b = putHandshakeHeader t sid @ drop 22 b"
    unfolding putHandshakeHeader_def sid m [symmetric] using header_split [OF len] by simp
qed

lemma slice_shift: "slice (xs @ ys) (length xs + i) (length xs + j) = slice ys i j"
  by (simp add: slice_def)

lemma drop_slice_split: "i \<le> j \<Longrightarrow> drop i xs = slice xs i j @ drop j xs"
  using append_take_drop_id [of "j - i" "drop i xs"] by (simp add: slice_def drop_take)

lemma unat_token_len: "n \<le> maxTokenLen \<Longrightarrow> unat (of_nat n :: u16) = n"
  by (simp add: maxTokenLen_def unat_of_nat)

lemma DecodeClientHello_encode:
  assumes "wf_session sid" and "min_int64 \<le> ts" and "ts \<le> max_int64" and "EncodeClientHello sid ts eph tok = Inr b"
  shows "DecodeClientHello b = Inr (sid, ts, eph, tok)"
proof -
  let ?h = "putHandshakeHeader msgClientHello sid"
  from assms(4) have len: "length eph = 32" "length tok \<le> maxTokenLen"
    and b: "b = ?h @ put_be64 (uint64_of ts) @ eph @ put_be16 (of_nat (length tok)) @ str_bytes tok"
    by (auto simp: EncodeClientHello_def x25519PubSize_def split: if_splits)
  have "parseHandshakeHeader b msgClientHello = Inr sid"
    unfolding b by (rule parseHandshakeHeader_put [OF assms(1)])
  then show ?thesis
    using assms(1-3) len
    by (simp add: DecodeClientHello_def Let_def b handshake_consts slice_def unat_token_len)
qed

lemma DecodeClientHello_inv:
  assumes "DecodeClientHello b = Inr (sid, ts, eph, tok)"
  shows "wf_session sid" "min_int64 \<le> ts" "ts \<le> max_int64" "EncodeClientHello sid ts eph tok = Inr b"
proof -
  define n where "n = unat (get_be16 (drop 62 b))"
  from assms have h: "parseHandshakeHeader b msgClientHello = Inr sid" and len: "length b = 64 + n" "n \<le> maxTokenLen"
    and ts: "ts = int64_of (get_be64 (drop 22 b))" and eph: "eph = slice b 30 62"
    and tok: "tok = bytes_str (drop 64 b)"
    by (auto simp: DecodeClientHello_def Let_def handshake_consts result_iff n_def
        simp del: drop_all drop_eq_Nil drop_eq_Nil2 split: if_splits)
  note hdr = parseHandshakeHeader_inv [OF h]
  show "wf_session sid" "min_int64 \<le> ts" "ts \<le> max_int64"
    using hdr(1) int64_range by (simp_all add: ts)
  have len64: "64 \<le> length b" using len(1) by simp
  have "drop 22 b = put_be64 (uint64_of ts) @ drop 30 b"
    using len64 append_take_drop_id [of 8 "drop 22 b"] by (simp add: ts put_get_be64_take)
  moreover have "drop 30 b = eph @ drop 62 b" unfolding eph by (rule drop_slice_split) simp
  moreover have "drop 62 b = put_be16 (of_nat (length tok)) @ str_bytes tok"
  proof -
    have "length tok = length b - 64" by (simp add: tok)
    then have "length tok = n" using len(1) by linarith
    then have "put_be16 (of_nat (length tok)) = put_be16 (get_be16 (drop 62 b))" by (simp add: n_def)
    then have "put_be16 (of_nat (length tok)) = take 2 (drop 62 b)"
      using len64 put_get_be16_take [of "drop 62 b"] by simp
    moreover have "drop 62 b = take 2 (drop 62 b) @ drop 64 b"
      using append_take_drop_id [of 2 "drop 62 b"] by simp
    ultimately show ?thesis unfolding tok str_bytes_str by metis
  qed
  ultimately have b: "b = putHandshakeHeader msgClientHello sid @ put_be64 (uint64_of ts) @ eph @
      put_be16 (of_nat (length tok)) @ str_bytes tok" using hdr(2) by metis
  have "length eph = 32" using len64 by (simp add: eph)
  moreover have "length tok \<le> maxTokenLen" using len by (simp only: tok length_bytes_str length_drop)
  ultimately have "EncodeClientHello sid ts eph tok = Inr (putHandshakeHeader msgClientHello sid @
      put_be64 (uint64_of ts) @ eph @ put_be16 (of_nat (length tok)) @ str_bytes tok)"
    by (simp add: EncodeClientHello_def x25519PubSize_def)
  with b show "EncodeClientHello sid ts eph tok = Inr b" by metis
qed

lemma DecodeServerHello_encode:
  assumes "wf_session sid" and "length ip = assignedIPv4Size" and "EncodeServerHello sid eph sig ip = Inr b"
  shows "DecodeServerHello b = Inr (sid, eph, sig, ip)"
proof -
  let ?h = "putHandshakeHeader msgServerHello sid"
  from assms(3) have len: "length eph = 32" "length sig = 64" and b: "b = ?h @ eph @ sig @ ip"
    by (auto simp: EncodeServerHello_def x25519PubSize_def SignatureSize_def split: if_splits)
  have "parseHandshakeHeader b msgServerHello = Inr sid"
    unfolding b by (rule parseHandshakeHeader_put [OF assms(1)])
  then show ?thesis
    using assms(1,2) len by (simp add: DecodeServerHello_def Let_def b handshake_consts slice_def)
qed

lemma DecodeServerHello_inv:
  assumes "DecodeServerHello b = Inr (sid, eph, sig, ip)"
  shows "wf_session sid" "length ip = assignedIPv4Size" "EncodeServerHello sid eph sig ip = Inr b"
    "length eph = x25519PubSize" "length sig = SignatureSize"
proof -
  from assms have h: "parseHandshakeHeader b msgServerHello = Inr sid" and len: "length b = 122"
    and eph: "eph = slice b 22 54" and sig: "sig = slice b 54 118" and ip: "ip = drop 118 b"
    by (auto simp: DecodeServerHello_def Let_def handshake_consts result_iff split: if_splits)
  note hdr = parseHandshakeHeader_inv [OF h]
  show sizes: "wf_session sid" "length ip = assignedIPv4Size" "length eph = x25519PubSize" "length sig = SignatureSize"
    using hdr(1) len by (simp_all add: handshake_consts eph sig ip)
  have "drop 22 b = eph @ sig @ ip"
    using drop_slice_split [of 22 54 b] drop_slice_split [of 54 118 b] by (simp add: eph sig ip)
  then have "b = putHandshakeHeader msgServerHello sid @ eph @ sig @ ip" using hdr(2) by metis
  moreover have "EncodeServerHello sid eph sig ip = Inr (putHandshakeHeader msgServerHello sid @ eph @ sig @ ip)"
    using sizes by (simp add: EncodeServerHello_def)
  ultimately show "EncodeServerHello sid eph sig ip = Inr b" by metis
qed

lemma transcript_inj:
  assumes "wf_session s" and "wf_session t"
  shows "transcript e s = transcript f t \<longleftrightarrow> e = f \<and> s = t"
  using assms by (auto simp: transcript_def wf_session_def)

lemma randomSessionID_ok:
  assumes "randomSessionID (Some rnd) = Inr sid" and "length rnd = SessionIDSize"
  shows "wf_session sid" "\<not> SessionID_IsZero sid"
proof -
  obtain b bs where rnd: "rnd = b # bs" using assms(2) by (cases rnd) (auto simp: SessionIDSize_def)
  have "b OR 1 \<noteq> 0" by (simp add: or_eq_0_iff)
  then show "wf_session sid" "\<not> SessionID_IsZero sid"
    using assms by (auto simp: randomSessionID_def rnd wf_session_def)
qed

lemma magic4: "4 \<le> length b \<Longrightarrow> slice b 0 4 = [b ! 0, b ! 1, b ! 2, b ! 3]"
  by (auto simp: slice_def list_eq_iff_nth_eq nth_Cons numeral_eq_Suc split: nat.splits)

lemma classify_data: "parseHeader b = Inr x \<Longrightarrow> ClassifyDatagram b = KindData"
  by (auto simp: parseHeader_def Let_def ClassifyDatagram_def dataHeaderSize_def magic4 split: if_splits)

lemma classify_ping: "DecodePing b = Inr x \<Longrightarrow> ClassifyDatagram b = KindPing"
  by (auto simp: DecodePing_def ClassifyDatagram_def pingSize_def pingMagic_def dataMagic_def split: if_splits)

lemma classify_handshake:
  assumes "parseHandshakeHeader b t = Inr sid"
  shows "ClassifyDatagram b =
    (if t = msgClientHello then KindClientHello else if t = msgServerHello then KindServerHello else KindUnknown)"
proof -
  have "4 \<le> length b" using parseHandshakeHeader_inv(3) [OF assms] by simp
  with assms show ?thesis
    by (auto simp: parseHandshakeHeader_def ClassifyDatagram_def Let_def handshakeMagic_def dataMagic_def
        pingMagic_def SessionIDSize_def magic4 split: if_splits)
qed

lemma classify_hello: "DecodeClientHello b = Inr x \<Longrightarrow> ClassifyDatagram b = KindClientHello"
  using classify_handshake [of b msgClientHello] by (auto simp: DecodeClientHello_def result_iff)

section \<open>Properties\<close>

text \<open>
  The ClientHello codec is exact: \<^verbatim>\<open>DecodeClientHello\<close> accepts a datagram and returns a session
  id, a timestamp, a key and a token if and only if the datagram is what \<^verbatim>\<open>EncodeClientHello\<close>
  makes of them; no other bytes decode, and no trailing byte is accepted.
\<close>

theorem client_hello_exact:
  "DecodeClientHello b = Inr (sid, ts, eph, tok) \<longleftrightarrow>
     wf_session sid \<and> min_int64 \<le> ts \<and> ts \<le> max_int64 \<and> EncodeClientHello sid ts eph tok = Inr b"
  using DecodeClientHello_inv [of b sid ts eph tok] DecodeClientHello_encode [of sid ts eph tok b] by blast

text \<open>The ServerHello codec is exact in the same sense.\<close>

theorem server_hello_exact:
  "DecodeServerHello b = Inr (sid, eph, sig, ip) \<longleftrightarrow>
     wf_session sid \<and> length ip = assignedIPv4Size \<and> EncodeServerHello sid eph sig ip = Inr b"
  using DecodeServerHello_inv [of b sid eph sig ip] DecodeServerHello_encode [of sid ip eph sig b] by blast

text \<open>
  The classifier routes every well-formed datagram to the decoder that accepts it: a datagram
  that one of the four decoders accepts has the kind of that decoder, so none is accepted by two.
\<close>

lemma classify_sound:
  "(\<forall>x. parseHeader b = Inr x \<longrightarrow> ClassifyDatagram b = KindData) \<and>
   (\<forall>x. DecodePing b = Inr x \<longrightarrow> ClassifyDatagram b = KindPing) \<and>
   (\<forall>x. DecodeClientHello b = Inr x \<longrightarrow> ClassifyDatagram b = KindClientHello) \<and>
   (\<forall>x. DecodeServerHello b = Inr x \<longrightarrow> ClassifyDatagram b = KindServerHello)"
proof -
  have "ClassifyDatagram b = KindServerHello" if "DecodeServerHello b = Inr x" for x
    using that classify_handshake [of b msgServerHello]
    by (auto simp: DecodeServerHello_def result_iff msgClientHello_def msgServerHello_def)
  then show ?thesis using classify_data classify_ping classify_hello by blast
qed

text \<open>
  C27. \<^verbatim>\<open>CheckHandshakeFresh\<close> accepts a timestamp within the tolerance of the clock in either direction,
  and besides these exactly the timestamps that lie \<^verbatim>\<open>2^63\<close> nanoseconds (292 years) or more in the
  future: there the subtraction saturates at the least duration, whose negation wraps to itself.
\<close>

theorem handshake_fresh_exact:
  assumes "0 \<le> tolerance" and "tolerance < max_int64"
  shows "CheckHandshakeFresh ts now tolerance = Inr () \<longleftrightarrow>
           \<bar>now - time_Unix ts\<bar> \<le> tolerance \<or> now - time_Unix ts \<le> min_int64"
  using skew_within [OF assms, of now "time_Unix ts"] by (auto simp: CheckHandshakeFresh_def Let_def)

text \<open>At noon on 1 January 2026, a ClientHello dated in the year 2400 passes the check.\<close>

theorem handshake_fresh_exact_witness:
  "CheckHandshakeFresh 13569465600 (time_Unix 1767268800) DefaultHandshakeTolerance = Inr () \<and>
   CheckHandshakeFresh 1767268861 (time_Unix 1767268800) DefaultHandshakeTolerance \<noteq> Inr ()"
  using handshake_fresh_exact [of DefaultHandshakeTolerance 13569465600 "time_Unix 1767268800"]
    handshake_fresh_exact [of DefaultHandshakeTolerance 1767268861 "time_Unix 1767268800"]
  by (simp add: DefaultHandshakeTolerance_def time_Unix_def wrap64_def nanos_per_second_def unix_to_internal_def
      max_int64_def min_int64_def)

end
