(* ===== verification/Session_Core.thy ===== *)
theory Session_Core
  imports Handshake_Wire
begin

text \<open>
  The packet encryption of \<^verbatim>\<open>pkg/clientcore/crypto.go\<close> and the sessions of \<^verbatim>\<open>session.go\<close>. A
  session numbers, seals and frames outbound packets, and authenticates, decrypts and
  deduplicates inbound ones. An operation that changes the session returns it with the result.
\<close>

section \<open>The code\<close>

definition keySize :: nat where "keySize = 32"
definition nonceSize :: nat where "nonceSize = 12"

text \<open>A sealer is determined by its key.\<close>

type_synonym sealer = bytes

text \<open>\<^verbatim>\<open>aes.NewCipher\<close> and \<^verbatim>\<open>cipher.NewGCM\<close> accept every 32-byte key.\<close>

definition newSealer :: "bytes \<Rightarrow> (core_error, sealer) result" where
  "newSealer key = (if length key \<noteq> keySize then Inl errKeySize else Inr key)"

definition nonce :: "byte \<Rightarrow> PacketNumber \<Rightarrow> bytes" where
  "nonce dir number = [dir] @ replicate 3 0 @ put_be64 number"

definition sealer_seal :: "crypto \<Rightarrow> sealer \<Rightarrow> byte \<Rightarrow> PacketID \<Rightarrow> bytes \<Rightarrow> bytes \<Rightarrow> bytes" where
  "sealer_seal C s dir pid aad plaintext = aead_seal C s (nonce dir (Number pid)) plaintext aad"

definition sealer_open ::
  "crypto \<Rightarrow> sealer \<Rightarrow> byte \<Rightarrow> PacketID \<Rightarrow> bytes \<Rightarrow> bytes \<Rightarrow> (core_error, bytes) result" where
  "sealer_open C s dir pid aad ciphertext =
     (case aead_open C s (nonce dir (Number pid)) ciphertext aad of None \<Rightarrow> Inl errCrypto | Some p \<Rightarrow> Inr p)"

datatype Role = RoleInitiator | RoleResponder

definition sendDir :: "Role \<Rightarrow> byte" where
  "sendDir r = (if r = RoleResponder then dirResponder else dirInitiator)"

definition peerDir :: "Role \<Rightarrow> byte" where
  "peerDir r = (if r = RoleResponder then dirInitiator else dirResponder)"

record Session =
  s_id :: SessionID
  s_role :: Role
  s_sealer :: sealer
  s_assignedIPv4 :: bytes
  s_next :: PacketNumber
  s_window :: ReplayWindow

definition AssignedIPv4 :: "Session \<Rightarrow> bytes" where
  "AssignedIPv4 s = s_assignedIPv4 s"

definition NewSession :: "SessionID \<Rightarrow> bytes \<Rightarrow> Role \<Rightarrow> int \<Rightarrow> (core_error, Session) result" where
  "NewSession sid key role dedupCapacity =
     (if SessionID_IsZero sid then Inl errBadIdentity
      else res_bind (newSealer key) (\<lambda>s.
        case NewReplayWindow dedupCapacity of
          Inl e \<Rightarrow> Inl (errDedup e)
        | Inr window \<Rightarrow>
            Inr \<lparr>s_id = sid, s_role = role, s_sealer = s, s_assignedIPv4 = replicate 4 0,
                 s_next = 0, s_window = window\<rparr>))"

definition Session_Outbound ::
  "crypto \<Rightarrow> Session \<Rightarrow> bytes \<Rightarrow> (core_error, bytes) result \<times> Session" where
  "Session_Outbound C s payload =
     (if length payload > maxPayload then (Inl errOversize, s)
      else
        let s' = s\<lparr>s_next := s_next s + 1\<rparr>;
            pid = \<lparr>Session = s_id s', Number = s_next s'\<rparr>;
            dir = sendDir (s_role s');
            header = frameHeader pid dir;
            ciphertext = sealer_seal C (s_sealer s') dir pid header payload
        in (Inr (header @ ciphertext), s'))"

definition InboundClassified ::
  "crypto \<Rightarrow> Session \<Rightarrow> bytes \<Rightarrow> (core_error, bytes \<times> ReplayDecision) result \<times> Session" where
  "InboundClassified C s wire =
     (case parseHeader wire of
        Inl e \<Rightarrow> (Inl e, s)
      | Inr (pid, dir, off) \<Rightarrow>
          if dir \<noteq> peerDir (s_role s) then (Inl errBadDirection, s)
          else case sealer_open C (s_sealer s) dir pid (take off wire) (drop off wire) of
            Inl e \<Rightarrow> (Inl e, s)
          | Inr plaintext \<Rightarrow>
              (case ReplayWindow_Observe (s_window s) (Number pid) of
                 None \<Rightarrow> (Inl panicIndex, s)
               | Some (d, w) \<Rightarrow> (Inr (plaintext, d), s\<lparr>s_window := w\<rparr>)))"

definition Session_Inbound ::
  "crypto \<Rightarrow> Session \<Rightarrow> bytes \<Rightarrow> (core_error, bytes \<times> bool) result \<times> Session" where
  "Session_Inbound C s wire =
     (case InboundClassified C s wire of
        (Inl e, s') \<Rightarrow> (Inl e, s')
      | (Inr (payload, decision), s') \<Rightarrow> (Inr (payload, decision = ReplayFirstCopy), s'))"

section \<open>Invariant\<close>

definition session_inv :: "Session \<Rightarrow> bool" where
  "session_inv s \<longleftrightarrow> wf_session (s_id s) \<and> \<not> SessionID_IsZero (s_id s) \<and> length (s_sealer s) = keySize \<and>
     length (s_assignedIPv4 s) = assignedIPv4Size \<and> rw_inv (s_window s)"

lemma NewSession_Inr [result_iff]:
  "NewSession sid key role cap = Inr s \<longleftrightarrow>
     \<not> SessionID_IsZero sid \<and> length key = keySize \<and>
     (\<exists>w. NewReplayWindow cap = Inr w \<and>
        s = \<lparr>s_id = sid, s_role = role, s_sealer = key, s_assignedIPv4 = replicate 4 0, s_next = 0, s_window = w\<rparr>)"
  by (auto simp: NewSession_def newSealer_def split: sum.splits)

lemma NewSession_inv:
  assumes "NewSession sid key role cap = Inr s" and "wf_session sid" and "cap \<le> max_int64"
  shows "session_inv s"
  using assms NewReplayWindow_inv by (auto simp: result_iff session_inv_def assignedIPv4Size_def)

lemma Outbound_inv: "session_inv s \<Longrightarrow> session_inv (snd (Session_Outbound C s p))"
  by (simp add: Session_Outbound_def session_inv_def Let_def)

text \<open>Inbound either refuses the datagram and leaves the session as it was, or observes its number.\<close>

lemma InboundClassified_cases:
  assumes "session_inv s"
  obtains (refused) e where "InboundClassified C s wire = (Inl e, s)" "e \<noteq> panicIndex"
  | (observed) pid dir p d w where
      "parseHeader wire = Inr (pid, dir, dataHeaderSize)" "dir = peerDir (s_role s)"
      "aead_open C (s_sealer s) (nonce dir (Number pid)) (drop dataHeaderSize wire) (take dataHeaderSize wire) = Some p"
      "ReplayWindow_Observe (s_window s) (Number pid) = Some (d, w)" "rw_inv w" "rw_width w = rw_width (s_window s)"
      "InboundClassified C s wire = (Inr (p, d), s\<lparr>s_window := w\<rparr>)"
proof -
  have rw: "rw_inv (s_window s)" using assms by (simp add: session_inv_def)
  have ne: "parseHeader wire \<noteq> Inl panicIndex"
    by (auto simp: parseHeader_def Let_def)
  show ?thesis
  proof (cases "parseHeader wire")
    case (Inl e)
    with ne refused show ?thesis by (auto simp: InboundClassified_def)
  next
    case (Inr h)
    obtain pid dir off where h: "h = (pid, dir, off)" by (cases h)
    note off = parseHeader_inv(3) [OF Inr [unfolded h]]
    obtain d w where ob: "ReplayWindow_Observe (s_window s) (Number pid) = Some (d, w)" "rw_inv w"
      "rw_width w = rw_width (s_window s)" using Observe_no_panic [OF rw] by blast
    let ?o = "aead_open C (s_sealer s) (nonce dir (Number pid)) (drop dataHeaderSize wire) (take dataHeaderSize wire)"
    show ?thesis
    proof (cases "dir = peerDir (s_role s) \<and> ?o \<noteq> None")
      case True
      then obtain p where "?o = Some p" by auto
      with True Inr h off ob observed [of pid dir p d w] show ?thesis
        by (simp add: InboundClassified_def sealer_open_def)
    next
      case False
      with Inr h off refused show ?thesis
        by (cases "dir = peerDir (s_role s)") (simp_all add: InboundClassified_def sealer_open_def)
    qed
  qed
qed

lemma InboundClassified_inv:
  assumes "session_inv s"
  shows "session_inv (snd (InboundClassified C s wire))"
  by (rule InboundClassified_cases [OF assms, of C wire]) (use assms in \<open>auto simp: session_inv_def\<close>)

lemma InboundClassified_frame:
  "s_id (snd (InboundClassified C s wire)) = s_id s" "s_role (snd (InboundClassified C s wire)) = s_role s"
  "s_sealer (snd (InboundClassified C s wire)) = s_sealer s" "s_next (snd (InboundClassified C s wire)) = s_next s"
  by (simp_all add: InboundClassified_def split: sum.splits option.splits prod.splits)

section \<open>A session as a duplicate filter\<close>

definition wire_number :: "bytes \<Rightarrow> PacketNumber" where
  "wire_number wire = (case parseHeader wire of Inl _ \<Rightarrow> 0 | Inr (pid, _, _) \<Rightarrow> Number pid)"

text \<open>Whether \<^verbatim>\<open>Inbound\<close> hands a payload to its caller as a first copy.\<close>

definition session_step :: "crypto \<Rightarrow> Session \<Rightarrow> bytes \<Rightarrow> bool \<times> Session" where
  "session_step C s wire =
     (case Session_Inbound C s wire of (r, s') \<Rightarrow> (\<exists>p. r = Inr (p, True), s'))"

definition session_spent :: "Session \<Rightarrow> PacketNumber \<Rightarrow> bool" where
  "session_spent s n = rw_spent (s_window s) n"

lemma session_step_eq:
  "session_step C s wire =
     (\<exists>p. fst (InboundClassified C s wire) = Inr (p, ReplayFirstCopy), snd (InboundClassified C s wire))"
  by (auto simp: session_step_def Session_Inbound_def split: prod.splits sum.splits)

lemma session_step_cases:
  assumes "session_inv s"
  obtains (refused) "session_step C s wire = (False, s)"
  | (observed) w where "rw_step (s_window s) (wire_number wire) = (fst (session_step C s wire), w)"
      "snd (session_step C s wire) = s\<lparr>s_window := w\<rparr>"
proof (rule InboundClassified_cases [OF assms, of C wire])
  fix e
  assume "InboundClassified C s wire = (Inl e, s)"
  then show thesis using refused by (simp add: session_step_eq)
next
  fix pid dir p d w
  assume "parseHeader wire = Inr (pid, dir, dataHeaderSize)"
    and "ReplayWindow_Observe (s_window s) (Number pid) = Some (d, w)"
    and "InboundClassified C s wire = (Inr (p, d), s\<lparr>s_window := w\<rparr>)"
  then show thesis using observed by (simp add: session_step_eq rw_step_def wire_number_def)
qed

interpretation session_once: once_filter "session_step C" wire_number session_inv session_spent for C
proof
  fix s :: Session and wire :: bytes and k :: PacketNumber
  assume inv: "session_inv s"
  then have rw: "rw_inv (s_window s)" by (simp add: session_inv_def)
  show "session_inv (snd (session_step C s wire))"
    using InboundClassified_inv [OF inv] by (simp add: session_step_eq)
  note steps = replay_once.accept_fresh [OF rw, of "wire_number wire"]
    replay_once.accept_spends [OF rw, of "wire_number wire"] replay_once.spent_mono [OF rw, of k "wire_number wire"]
  show "fst (session_step C s wire) \<Longrightarrow> \<not> session_spent s (wire_number wire)"
    by (rule session_step_cases [OF inv, of C wire]) (use steps in \<open>auto simp: session_spent_def\<close>)
  show "fst (session_step C s wire) \<Longrightarrow> session_spent (snd (session_step C s wire)) (wire_number wire)"
    by (rule session_step_cases [OF inv, of C wire]) (use steps in \<open>auto simp: session_spent_def\<close>)
  show "session_spent s k \<Longrightarrow> session_spent (snd (session_step C s wire)) k"
    by (rule session_step_cases [OF inv, of C wire]) (use steps in \<open>auto simp: session_spent_def\<close>)
qed

section \<open>What a session sends\<close>

definition frame :: "crypto \<Rightarrow> sealer \<Rightarrow> SessionID \<Rightarrow> byte \<Rightarrow> PacketNumber \<Rightarrow> bytes \<Rightarrow> bytes" where
  "frame C key sid dir n p =
     (let h = frameHeader \<lparr>Session = sid, Number = n\<rparr> dir in h @ aead_seal C key (nonce dir n) p h)"

fun outbound_all :: "crypto \<Rightarrow> Session \<Rightarrow> bytes list \<Rightarrow> bytes list \<times> Session" where
  "outbound_all C s [] = ([], s)"
| "outbound_all C s (p # ps) =
     (case Session_Outbound C s p of
        (Inl e, s') \<Rightarrow> outbound_all C s' ps
      | (Inr d, s') \<Rightarrow> (d # fst (outbound_all C s' ps), snd (outbound_all C s' ps)))"

definition sendable :: "bytes list \<Rightarrow> bytes list" where
  "sendable ps = filter (\<lambda>p. length p \<le> maxPayload) ps"

lemma Outbound_eq:
  "Session_Outbound C s p =
     (if length p > maxPayload then (Inl errOversize, s)
      else (Inr (frame C (s_sealer s) (s_id s) (sendDir (s_role s)) (s_next s + 1) p), s\<lparr>s_next := s_next s + 1\<rparr>))"
  by (simp add: Session_Outbound_def frame_def sealer_seal_def Let_def)

lemma outbound_all_eq:
  "fst (outbound_all C s ps) =
     map (\<lambda>i. frame C (s_sealer s) (s_id s) (sendDir (s_role s)) (s_next s + 1 + of_nat i) (sendable ps ! i))
       [0..<length (sendable ps)]"
proof (induction ps arbitrary: s)
  case (Cons p ps)
  show ?case
  proof (cases "length p > maxPayload")
    case True
    with Cons show ?thesis by (simp add: Outbound_eq sendable_def)
  next
    case False
    then have "[0..<length (sendable (p # ps))] = 0 # map Suc [0..<length (sendable ps)]"
      by (simp add: sendable_def map_Suc_upt upt_conv_Cons del: upt_Suc)
    with False Cons [of "s\<lparr>s_next := s_next s + 1\<rparr>"] show ?thesis
      by (simp add: Outbound_eq sendable_def ac_simps del: upt_Suc)
  qed
qed (simp add: sendable_def)

lemma nonce_inj [simp]: "nonce d m = nonce e n \<longleftrightarrow> d = e \<and> m = n"
  by (auto simp: nonce_def put_be64_inj)

lemma length_nonce: "length (nonce d n) = nonceSize"
  by (simp add: nonce_def nonceSize_def)

lemma sendDir_cases: "sendDir r \<in> {dirInitiator, dirResponder}"
  by (simp add: sendDir_def)

lemma parseHeader_of_frame:
  assumes "wf_session sid" and "\<not> SessionID_IsZero sid" and "n \<noteq> 0" and "dir \<in> {dirInitiator, dirResponder}"
  shows "parseHeader (frame C key sid dir n p) = Inr (\<lparr>Session = sid, Number = n\<rparr>, dir, dataHeaderSize)"
  unfolding frame_def Let_def
  by (rule parseHeader_frame) (use assms in \<open>auto simp: PacketID_Valid_def word_neq_0_conv\<close>)

lemma Inbound_of_frame:
  assumes "aead_correct C" and "session_inv r" and "n \<noteq> 0" and "sid = s_id r"
  shows "InboundClassified C r (frame C (s_sealer r) sid (peerDir (s_role r)) n p) =
    (case ReplayWindow_Observe (s_window r) n of
       None \<Rightarrow> (Inl panicIndex, r) | Some (d, w) \<Rightarrow> (Inr (p, d), r\<lparr>s_window := w\<rparr>))"
proof -
  have wf: "wf_session sid" "\<not> SessionID_IsZero sid" using assms(2,4) by (auto simp: session_inv_def)
  have dir: "peerDir (s_role r) \<in> {dirInitiator, dirResponder}" by (simp add: peerDir_def)
  have "length (frameHeader \<lparr>Session = sid, Number = n\<rparr> (peerDir (s_role r))) = dataHeaderSize"
    using wf(1) by simp
  then show ?thesis
    using assms(1) parseHeader_of_frame [OF wf assms(3) dir]
    by (simp add: InboundClassified_def sealer_open_def frame_def Let_def aead_correct_def)
qed

lemma unat_number:
  assumes "Suc i < 2 ^ 64"
  shows "unat (1 + of_nat i :: u64) = Suc i"
proof -
  have "(1 + of_nat i :: u64) = of_nat (Suc i)" by simp
  then show ?thesis using assms by (simp only: unat_of_nat) simp
qed

lemma number_nonzero: "Suc i < 2 ^ 64 \<Longrightarrow> (1 + of_nat i :: u64) \<noteq> 0"
  using unat_number [of i] by (auto simp: unat_eq_0)

text \<open>Receiving a sequence of the peer's frames runs the window over their numbers.\<close>

lemma session_run_window:
  assumes "aead_correct C" and "session_inv r"
    and "\<forall>w \<in> set ws. \<exists>n p. n \<noteq> 0 \<and> w = frame C (s_sealer r) (s_id r) (peerDir (s_role r)) n p"
  shows "\<exists>ds v. observe_all (s_window r) (map wire_number ws) = Some (ds, v) \<and>
           final_state (session_step C) r ws = r\<lparr>s_window := v\<rparr>"
  using assms(2,3)
proof (induction ws arbitrary: r)
  case (Cons w ws)
  then obtain n p where w: "n \<noteq> 0" "w = frame C (s_sealer r) (s_id r) (peerDir (s_role r)) n p" by auto
  have "wf_session (s_id r)" "\<not> SessionID_IsZero (s_id r)" using Cons.prems(1) by (auto simp: session_inv_def)
  moreover have "peerDir (s_role r) \<in> {dirInitiator, dirResponder}" by (simp add: peerDir_def)
  ultimately have n: "wire_number w = n"
    using parseHeader_of_frame w by (simp add: wire_number_def)
  obtain d v where ob: "ReplayWindow_Observe (s_window r) n = Some (d, v)" "rw_inv v"
    using Observe_no_panic Cons.prems(1) by (metis session_inv_def)
  have step: "snd (session_step C r w) = r\<lparr>s_window := v\<rparr>"
    using Inbound_of_frame [OF assms(1) Cons.prems(1) w(1) refl, of p] ob(1) w(2) by (simp add: session_step_eq)
  have "session_inv (r\<lparr>s_window := v\<rparr>)" using Cons.prems(1) ob(2) by (simp add: session_inv_def)
  from Cons.IH [OF this] Cons.prems(2) n ob(1) step show ?case by fastforce
qed simp

lemma outbound_nth:
  assumes "i < length (fst (outbound_all C s ps))" and "s_next s = 0"
  shows "fst (outbound_all C s ps) ! i =
     frame C (s_sealer s) (s_id s) (sendDir (s_role s)) (1 + of_nat i) (sendable ps ! i)"
    and "i < length (sendable ps)"
  using assms by (simp_all add: outbound_all_eq)

lemma length_sendable: "length (sendable ps) \<le> length ps"
  by (simp add: sendable_def)

lemma sent_number:
  assumes "NewSession sid key role cap = Inr s" and "wf_session sid" and "length ps < 2 ^ 64"
    and "i < length (fst (outbound_all C s ps))"
  shows "parseHeader (fst (outbound_all C s ps) ! i) =
           Inr (\<lparr>Session = sid, Number = 1 + of_nat i\<rparr>, sendDir role, dataHeaderSize)"
    and "unat (1 + of_nat i :: u64) = Suc i"
proof -
  from assms(1) have s: "s_id s = sid" "s_role s = role" "s_sealer s = key" "s_next s = 0" "\<not> SessionID_IsZero sid"
    by (auto simp: result_iff)
  note nth = outbound_nth [OF assms(4) s(4)]
  have lt: "Suc i < 2 ^ 64" using nth(2) length_sendable [of ps] assms(3) by linarith
  then show "unat (1 + of_nat i :: u64) = Suc i" by (rule unat_number)
  show "parseHeader (fst (outbound_all C s ps) ! i) =
      Inr (\<lparr>Session = sid, Number = 1 + of_nat i\<rparr>, sendDir role, dataHeaderSize)"
    unfolding nth(1) s(1-3)
    by (rule parseHeader_of_frame [OF assms(2) s(5) number_nonzero [OF lt] sendDir_cases])
qed

lemma fresh_frame_delivered:
  assumes "aead_correct C" and "wf_session sid" and "NewSession sid key role cap = Inr rx" and "cap \<le> max_int64"
    and "\<forall>w \<in> set ws. \<exists>n p. n \<noteq> 0 \<and> w = frame C key sid (peerDir role) n p"
    and "n \<noteq> 0" and "\<forall>w \<in> set ws. wire_number w \<noteq> n \<and> int (unat (wire_number w)) < int (unat n) + cap"
  shows "fst (Session_Inbound C (final_state (session_step C) rx ws) (frame C key sid (peerDir role) n p)) = Inr (p, True)"
proof -
  from assms(3) have rx: "s_id rx = sid" "s_role rx = role" "s_sealer rx = key" "NewReplayWindow cap = Inr (s_window rx)"
    by (auto simp: result_iff)
  have inv: "session_inv rx" by (rule NewSession_inv [OF assms(3,2,4)])
  from session_run_window [OF assms(1) inv] assms(5) rx obtain ds v where
    run: "observe_all (s_window rx) (map wire_number ws) = Some (ds, v)"
      "final_state (session_step C) rx ws = rx\<lparr>s_window := v\<rparr>" by metis
  have cap: "cap \<le> int (rw_width (s_window rx))"
    using NewReplayWindow_sim(2) [OF rx(4) assms(4)] by linarith
  have "unat (wire_number w) < unat n + rw_width (s_window rx)" if "w \<in> set ws" for w
    using assms(7) [rule_format, OF that] cap by linarith
  with assms(7) have "\<exists>es v'. observe_all (s_window rx) (map wire_number ws @ [n]) = Some (es @ [ReplayFirstCopy], v')"
    by (intro observe_all_fresh [OF rx(4) assms(4,6)]) auto
  with run(1) obtain v' where "ReplayWindow_Observe v n = Some (ReplayFirstCopy, v')"
    by (auto simp: observe_all_append split: option.splits)
  moreover have "session_inv (rx\<lparr>s_window := v\<rparr>)" using session_once.inv_final [OF inv, of C ws] run(2) by simp
  ultimately show ?thesis
    using Inbound_of_frame [OF assms(1) _ assms(6), of "rx\<lparr>s_window := v\<rparr>" sid p] rx run(2)
    by (simp add: Session_Inbound_def)
qed



section \<open>Properties\<close>

lemma InboundClassified_sealed:
  assumes "session_inv s" and "aead_exact C" and "InboundClassified C s wire = (Inr (p, d), s')"
  shows "\<exists>pid. parseHeader wire = Inr (pid, peerDir (s_role s), dataHeaderSize) \<and>
     wire = take dataHeaderSize wire @
       aead_seal C (s_sealer s) (nonce (peerDir (s_role s)) (Number pid)) p (take dataHeaderSize wire)"
proof (rule InboundClassified_cases [OF assms(1), of C wire])
  fix pid dir q e w
  let ?h = "take dataHeaderSize wire"
  assume h: "parseHeader wire = Inr (pid, dir, dataHeaderSize)" "dir = peerDir (s_role s)"
    and o: "aead_open C (s_sealer s) (nonce dir (Number pid)) (drop dataHeaderSize wire) ?h = Some q"
    and w: "InboundClassified C s wire = (Inr (q, e), s\<lparr>s_window := w\<rparr>)"
  have "q = p" using w assms(3) by simp
  then have "drop dataHeaderSize wire = aead_seal C (s_sealer s) (nonce dir (Number pid)) p ?h"
    using assms(2) o by (simp add: aead_exact_def)
  then have "wire = ?h @ aead_seal C (s_sealer s) (nonce dir (Number pid)) p ?h"
    by (metis append_take_drop_id)
  with h show ?thesis by blast
qed (use assms(3) in simp)

definition demo_sid :: SessionID where "demo_sid = replicate 16 1"
definition demo_key :: bytes where "demo_key = replicate 32 2"

definition demo_session :: "Role \<Rightarrow> Session" where
  "demo_session role = \<lparr>s_id = demo_sid, s_role = role, s_sealer = demo_key, s_assignedIPv4 = replicate 4 0,
     s_next = 0, s_window = \<lparr>rw_last = 0, rw_words = [0, 0], rw_width = 128, rw_nw = 2\<rparr>\<rparr>"

lemma demo_session_new: "NewSession demo_sid demo_key role 100 = Inr (demo_session role)"
  by (simp add: result_iff demo_sid_def demo_key_def demo_session_def keySize_def NewReplayWindow_100
      SessionID_IsZero_iff)

lemma demo_session_fields [simp]:
  "s_id (demo_session role) = demo_sid" "s_role (demo_session role) = role" "s_sealer (demo_session role) = demo_key"
  by (simp_all add: demo_session_def)

lemma demo_sid_wf [simp]: "wf_session demo_sid" "\<not> SessionID_IsZero demo_sid"
  by (simp_all add: demo_sid_def wf_session_def SessionIDSize_def SessionID_IsZero_iff)

lemma demo_session_inv [simp]: "session_inv (demo_session role)"
  by (rule NewSession_inv [OF demo_session_new]) (simp_all add: max_int64_def)

text \<open>
  A session hands no packet number to its caller twice, whatever datagrams arrive: replayed,
  reordered, duplicated over several paths, or forged.
\<close>

theorem session_no_replay:
  assumes "NewSession sid key role cap = Inr s" and "wf_session sid" and "cap \<le> max_int64"
  shows "distinct (map wire_number (accepted_run (session_step C) s wires))"
  by (rule session_once.accepted_distinct) (rule NewSession_inv [OF assms])

text \<open>
  C7. What passes is authentic and what does not leaves no trace: a datagram that a session
  refuses leaves the session exactly as it was, so a forged identity cannot suppress a real packet,
  and one that it accepts is, byte for byte, its own header followed by the sealing of the returned
  payload under the session key, with the header as additional data and the peer's direction.
\<close>

theorem session_inbound_authentic:
  assumes "session_inv s" and "aead_exact C"
  shows "case InboundClassified C s wire of
           (Inl e, s') \<Rightarrow> s' = s \<and> e \<noteq> panicIndex
         | (Inr (p, d), s') \<Rightarrow>
             (\<exists>pid. parseHeader wire = Inr (pid, peerDir (s_role s), dataHeaderSize) \<and>
                wire = take dataHeaderSize wire @
                  aead_seal C (s_sealer s) (nonce (peerDir (s_role s)) (Number pid)) p (take dataHeaderSize wire)) \<and>
             session_inv s' \<and> s' = s\<lparr>s_window := s_window s'\<rparr>"
proof (rule InboundClassified_cases [OF assms(1), of C wire])
  fix pid dir p d w
  assume w: "rw_inv w" "InboundClassified C s wire = (Inr (p, d), s\<lparr>s_window := w\<rparr>)"
  from InboundClassified_sealed [OF assms w(2)] w assms(1) show ?thesis by (simp add: session_inv_def)
qed simp

theorem session_inbound_authentic_witness:
  "\<exists>p d s'. InboundClassified demo_crypto (demo_session RoleResponder)
      (frame demo_crypto demo_key demo_sid dirInitiator 4 [1, 2]) = (Inr (p, d), s') \<and>
    session_inv s' \<and> s' = (demo_session RoleResponder)\<lparr>s_window := s_window s'\<rparr>"
proof -
  let ?s = "demo_session RoleResponder" and ?w = "frame demo_crypto demo_key demo_sid dirInitiator 4 [1, 2]"
  obtain d v where "ReplayWindow_Observe (s_window ?s) 4 = Some (d, v)"
    using Observe_no_panic [of "s_window ?s" 4] demo_session_inv [of RoleResponder] by (auto simp: session_inv_def)
  then have "\<exists>p d s'. InboundClassified demo_crypto ?s ?w = (Inr (p, d), s')"
    using Inbound_of_frame [of demo_crypto ?s 4 demo_sid "[1, 2]"] by (simp add: peerDir_def)
  with session_inbound_authentic [of ?s demo_crypto ?w] show ?thesis by fastforce
qed

text \<open>
  C6. Exactly-once delivery, end to end: of what one endpoint sends, every packet the peer has
  not seen yet, and that it has not seen another packet ahead of by the window's capacity or more,
  is delivered as a first copy with the payload that was sent, whatever other copies arrived
  before it and in whatever order.
\<close>

theorem session_end_to_end:
  assumes "aead_correct C" and "wf_session sid"
    and "NewSession sid key role cap = Inr tx" and "NewSession sid key role' cap' = Inr rx" and "role' \<noteq> role"
    and "cap' \<le> max_int64" and "length ps < 2 ^ 64" and "sent = fst (outbound_all C tx ps)"
    and "set ws \<subseteq> set sent" and "i < length sent" and "sent ! i \<notin> set ws"
    and "\<forall>j < length sent. sent ! j \<in> set ws \<longrightarrow> int j < int i + cap'"
  shows "fst (Session_Inbound C (final_state (session_step C) rx ws) (sent ! i)) = Inr (sendable ps ! i, True)"
proof -
  from assms(3) have tx: "s_id tx = sid" "s_role tx = role" "s_sealer tx = key" "s_next tx = 0" by (auto simp: result_iff)
  have dir: "peerDir role' = sendDir role" using assms(5) by (cases role; cases role') (auto simp: peerDir_def sendDir_def)
  note num = sent_number [OF assms(3,2,7), of _ C, folded assms(8)]
  have n0: "(1 + of_nat j :: u64) \<noteq> 0" if "j < length sent" for j using num(2) [OF that] by auto
  have nth: "sent ! j = frame C key sid (peerDir role') (1 + of_nat j) (sendable ps ! j)" if "j < length sent" for j
    using outbound_nth(1) [of j C tx ps] that tx assms(8) dir by simp
  have ws: "\<exists>j < length sent. w = sent ! j" if "w \<in> set ws" for w
    using that assms(9) by (metis in_set_conv_nth subsetD)
  have "\<forall>w \<in> set ws. \<exists>n p. n \<noteq> 0 \<and> w = frame C key sid (peerDir role') n p" using ws nth n0 by metis
  moreover have "wire_number w \<noteq> 1 + of_nat i \<and> int (unat (wire_number w)) < int (Suc i) + cap'" if w: "w \<in> set ws" for w
  proof -
    from ws [OF w] obtain j where j: "j < length sent" "w = sent ! j" by blast
    then have wn: "wire_number w = 1 + of_nat j" using num(1) by (simp add: wire_number_def)
    have "j \<noteq> i" using j(2) w assms(11) by auto
    moreover have "int j < int i + cap'" using assms(12) j w by blast
    ultimately show ?thesis using num(2) [OF j(1)] num(2) [OF assms(10)] wn by auto
  qed
  ultimately show ?thesis
    unfolding nth [OF assms(10)]
    by (intro fresh_frame_delivered [OF assms(1,2,4,6)]) (use n0 [OF assms(10)] num(2) [OF assms(10)] in auto)
qed

theorem session_end_to_end_witness:
  "fst (Session_Inbound demo_crypto
      (final_state (session_step demo_crypto) (demo_session RoleResponder)
         [fst (outbound_all demo_crypto (demo_session RoleInitiator) [[1], [2], [3]]) ! 2])
      (fst (outbound_all demo_crypto (demo_session RoleInitiator) [[1], [2], [3]]) ! 1)) = Inr ([2], True)"
proof -
  let ?d = "fst (outbound_all demo_crypto (demo_session RoleInitiator) [[1], [2], [3]])"
  have len: "length ?d = 3" "sendable [[1], [2], [3]] = [[1], [2], [3]]"
    by (simp_all add: outbound_all_eq sendable_def maxPayload_def del: outbound_all.simps)
  note num = sent_number(1) [OF demo_session_new demo_sid_wf(1), of "[[1], [2], [3]]" _ demo_crypto RoleInitiator]
  have "?d ! 1 \<noteq> ?d ! 2" using num [of 1] num [of 2] len(1) by auto
  then show ?thesis
    using session_end_to_end [OF demo_crypto_laws(1) demo_sid_wf(1) demo_session_new [of RoleInitiator]
        demo_session_new [of RoleResponder], of "[[1], [2], [3]]" ?d "[?d ! 2]" 1] len
    by (simp add: max_int64_def del: outbound_all.simps)
qed



end
