(* ===== verification/Client_Handshake.thy ===== *)
theory Client_Handshake
  imports Session_Core
begin

text \<open>
  Key agreement (\<^verbatim>\<open>pkg/clientcore/handshake.go\<close>) and the client's side of the handshake
  (\<^verbatim>\<open>BeginClientHandshake\<close> and \<^verbatim>\<open>Complete\<close> of \<^verbatim>\<open>handshake_message.go\<close>). Randomness and the clock
  are arguments.
\<close>

section \<open>The code\<close>

definition hkdfInfo :: string where "hkdfInfo = ''continuity-vpn session key v1''"

text \<open>The private key is the 32 bytes drawn from the reader.\<close>

definition GenerateKeyPair :: "crypto \<Rightarrow> bytes option \<Rightarrow> (core_error, bytes \<times> bytes) result" where
  "GenerateKeyPair C rnd =
     (case rnd of None \<Rightarrow> Inl errCrypto | Some priv \<Rightarrow> Inr (priv, x25519_pub C priv))"

definition DeriveSessionKey :: "crypto \<Rightarrow> bytes \<Rightarrow> bytes \<Rightarrow> SessionID \<Rightarrow> (core_error, bytes) result" where
  "DeriveSessionKey C myPriv peerPub sid =
     (if length myPriv \<noteq> x25519KeySize then Inl errBadPrivateKey
      else if length peerPub \<noteq> x25519KeySize then Inl errBadPublicKey
      else case x25519_ecdh C myPriv peerPub of
        None \<Rightarrow> Inl errCrypto
      | Some shared \<Rightarrow>
          (case hkdf_sha256 C shared sid (str_bytes hkdfInfo) keySize of
             None \<Rightarrow> Inl errCrypto | Some key \<Rightarrow> Inr key))"

record ClientHandshake =
  hs_sessionID :: SessionID
  hs_ephemeralPriv :: bytes
  hs_gatewayIdentity :: bytes

definition BeginClientHandshake ::
  "crypto \<Rightarrow> go_time \<Rightarrow> bytes option \<Rightarrow> bytes option \<Rightarrow> bytes \<Rightarrow> string \<Rightarrow>
   (core_error, bytes \<times> ClientHandshake) result" where
  "BeginClientHandshake C now rndID rndKey gatewayIdentity token =
     (if length gatewayIdentity \<noteq> PublicKeySize then Inl errBadIdentityKey
      else res_bind (randomSessionID rndID) (\<lambda>sid.
        res_bind (GenerateKeyPair C rndKey) (\<lambda>(priv, pub).
          res_bind (EncodeClientHello sid (Time_Unix_seconds now) pub token) (\<lambda>hello.
            Inr (hello, \<lparr>hs_sessionID = sid, hs_ephemeralPriv = priv, hs_gatewayIdentity = gatewayIdentity\<rparr>)))))"

definition ClientHandshake_Complete ::
  "crypto \<Rightarrow> ClientHandshake \<Rightarrow> bytes \<Rightarrow> int \<Rightarrow> (core_error, Session) result" where
  "ClientHandshake_Complete C hs serverHello dedupCapacity =
     res_bind (DecodeServerHello serverHello) (\<lambda>(sid, gatewayEph, sig, assignedIPv4).
       if sid \<noteq> hs_sessionID hs then Inl errHandshakeField
       else res_bind (VerifyHandshake C (hs_gatewayIdentity hs) gatewayEph sig sid) (\<lambda>_.
         res_bind (DeriveSessionKey C (hs_ephemeralPriv hs) gatewayEph sid) (\<lambda>key.
           res_bind (NewSession sid key RoleInitiator dedupCapacity) (\<lambda>session.
             Inr (session\<lparr>s_assignedIPv4 := assignedIPv4\<rparr>)))))"

section \<open>Lemmas\<close>

lemma DeriveSessionKey_Inr [result_iff]:
  "DeriveSessionKey C priv pub sid = Inr key \<longleftrightarrow>
     length priv = x25519KeySize \<and> length pub = x25519KeySize \<and>
     (\<exists>shared. x25519_ecdh C priv pub = Some shared \<and>
        hkdf_sha256 C shared sid (str_bytes hkdfInfo) keySize = Some key)"
  by (auto simp: DeriveSessionKey_def split: option.splits)

lemma DeriveSessionKey_agrees:
  assumes "ecdh_agrees C" and "x25519_pub_size C" and "length a = x25519KeySize" and "length b = x25519KeySize"
  shows "DeriveSessionKey C a (x25519_pub C b) sid = DeriveSessionKey C b (x25519_pub C a) sid"
  using assms by (simp add: DeriveSessionKey_def ecdh_agrees_def x25519_pub_size_def)

lemma VerifyHandshake_Inr [result_iff]:
  "VerifyHandshake C pub eph sig sid = Inr u \<longleftrightarrow>
     length pub = PublicKeySize \<and> length sig = SignatureSize \<and> ed25519_verify C pub (transcript eph sid) sig"
  by (auto simp: VerifyHandshake_def)

lemma VerifyHandshake_Sign:
  assumes "signature_correct C" and "SignHandshake C priv eph sid = Some sig"
  shows "VerifyHandshake C (ed25519_pub C priv) eph sig sid = Inr ()" "length sig = SignatureSize"
    "length priv = PrivateKeySize"
  using assms by (auto simp: SignHandshake_def signature_correct_def result_iff split: if_splits)

lemma BeginClientHandshake_Inr:
  assumes "BeginClientHandshake C now (Some rndID) (Some rndKey) gid token = Inr (hello, hs)"
  shows "length gid = PublicKeySize" "hs_gatewayIdentity hs = gid" "hs_ephemeralPriv hs = rndKey"
    "randomSessionID (Some rndID) = Inr (hs_sessionID hs)"
    "EncodeClientHello (hs_sessionID hs) (Time_Unix_seconds now) (x25519_pub C rndKey) token = Inr hello"
  using assms by (auto simp: BeginClientHandshake_def GenerateKeyPair_def result_iff split: if_splits prod.splits)

lemma Complete_Inr:
  "ClientHandshake_Complete C hs sh cap = Inr s \<longleftrightarrow>
     (\<exists>eph sig ip key s0.
        DecodeServerHello sh = Inr (hs_sessionID hs, eph, sig, ip) \<and>
        VerifyHandshake C (hs_gatewayIdentity hs) eph sig (hs_sessionID hs) = Inr () \<and>
        DeriveSessionKey C (hs_ephemeralPriv hs) eph (hs_sessionID hs) = Inr key \<and>
        NewSession (hs_sessionID hs) key RoleInitiator cap = Inr s0 \<and> s = s0\<lparr>s_assignedIPv4 := ip\<rparr>)"
  by (auto simp: ClientHandshake_Complete_def res_bind_Inr_iff split: if_splits prod.splits)

section \<open>Properties\<close>

text \<open>
  Key agreement: the client's private key with the gateway's public key, and the gateway's
  private key with the client's public key, derive the same session key (or the same error).
\<close>

lemma session_keys_agree:
  assumes "ecdh_agrees C" and "x25519_pub_size C"
    and "GenerateKeyPair C (Some rc) = Inr (cpriv, cpub)" and "length rc = x25519KeySize"
    and "GenerateKeyPair C (Some rg) = Inr (gpriv, gpub)" and "length rg = x25519KeySize"
  shows "DeriveSessionKey C cpriv gpub sid = DeriveSessionKey C gpriv cpub sid"
  using DeriveSessionKey_agrees [OF assms(1,2,4,6)] assms(3,5) by (auto simp: GenerateKeyPair_def)

text \<open>
  C12. The client completes a handshake only with the pinned gateway: the message is for its own
  session, its ephemeral key carries a signature that verifies under the pinned identity
  over the transcript of that very key and session (a transcript determines both), the session
  key is the one derived from that ephemeral key, and the session is a fresh initiator session.
\<close>

theorem complete_authenticated:
  assumes "ClientHandshake_Complete C hs sh cap = Inr s"
  shows "\<exists>eph sig ip. DecodeServerHello sh = Inr (hs_sessionID hs, eph, sig, ip) \<and>
     length (hs_gatewayIdentity hs) = PublicKeySize \<and>
     ed25519_verify C (hs_gatewayIdentity hs) (transcript eph (hs_sessionID hs)) sig \<and>
     (\<forall>eph' sid'. wf_session sid' \<and> transcript eph' sid' = transcript eph (hs_sessionID hs) \<longrightarrow>
        eph' = eph \<and> sid' = hs_sessionID hs) \<and>
     DeriveSessionKey C (hs_ephemeralPriv hs) eph (hs_sessionID hs) = Inr (s_sealer s) \<and>
     s_id s = hs_sessionID hs \<and> s_role s = RoleInitiator \<and> s_next s = 0 \<and> AssignedIPv4 s = ip"
proof -
  from assms obtain eph sig ip key s0 where
    d: "DecodeServerHello sh = Inr (hs_sessionID hs, eph, sig, ip)"
    and v: "VerifyHandshake C (hs_gatewayIdentity hs) eph sig (hs_sessionID hs) = Inr ()"
    and k: "DeriveSessionKey C (hs_ephemeralPriv hs) eph (hs_sessionID hs) = Inr key"
    and s: "NewSession (hs_sessionID hs) key RoleInitiator cap = Inr s0" "s = s0\<lparr>s_assignedIPv4 := ip\<rparr>"
    by (auto simp: Complete_Inr)
  have "wf_session (hs_sessionID hs)" by (rule DecodeServerHello_inv(1) [OF d])
  then show ?thesis
    using d v k s transcript_inj by (fastforce simp: VerifyHandshake_Inr NewSession_Inr AssignedIPv4_def)
qed

definition demo_identity :: bytes where "demo_identity = replicate 64 9"

definition demo_handshake :: ClientHandshake where
  "demo_handshake = \<lparr>hs_sessionID = demo_sid, hs_ephemeralPriv = replicate 32 1,
     hs_gatewayIdentity = ed25519_pub demo_crypto demo_identity\<rparr>"

lemma demo_complete:
  assumes "SignHandshake demo_crypto demo_identity (replicate 32 2) demo_sid = Some sig"
    and "EncodeServerHello demo_sid (replicate 32 2) sig [10, 0, 0, 2] = Inr sh"
  shows "\<exists>s. ClientHandshake_Complete demo_crypto demo_handshake sh 100 = Inr s"
proof -
  have "DecodeServerHello sh = Inr (demo_sid, replicate 32 2, sig, [10, 0, 0, 2])"
    by (rule DecodeServerHello_encode [OF _ _ assms(2)]) (simp_all add: assignedIPv4Size_def)
  moreover have "VerifyHandshake demo_crypto (ed25519_pub demo_crypto demo_identity) (replicate 32 2) sig demo_sid = Inr ()"
    by (rule VerifyHandshake_Sign(1) [OF _ assms(1)]) simp
  moreover obtain key where "DeriveSessionKey demo_crypto (replicate 32 1) (replicate 32 2) demo_sid = Inr key"
    "length key = keySize"
    by (simp add: DeriveSessionKey_def x25519KeySize_def demo_crypto_def keySize_def)
  ultimately show ?thesis
    by (auto simp: Complete_Inr demo_handshake_def NewSession_Inr NewReplayWindow_100)
qed

theorem complete_authenticated_witness:
  "\<exists>sig sh s eph sig' ip. SignHandshake demo_crypto demo_identity (replicate 32 2) demo_sid = Some sig \<and>
     EncodeServerHello demo_sid (replicate 32 2) sig [10, 0, 0, 2] = Inr sh \<and>
     ClientHandshake_Complete demo_crypto demo_handshake sh 100 = Inr s \<and>
     DecodeServerHello sh = Inr (demo_sid, eph, sig', ip) \<and> s_role s = RoleInitiator \<and> AssignedIPv4 s = ip"
proof -
  obtain sig sh where sh: "SignHandshake demo_crypto demo_identity (replicate 32 2) demo_sid = Some sig"
    "EncodeServerHello demo_sid (replicate 32 2) sig [10, 0, 0, 2] = Inr sh"
    by (simp add: SignHandshake_def demo_identity_def PrivateKeySize_def EncodeServerHello_def x25519PubSize_def
        demo_crypto_def SignatureSize_def)
  from demo_complete [OF this] obtain s where s: "ClientHandshake_Complete demo_crypto demo_handshake sh 100 = Inr s" ..
  from complete_authenticated [OF s] sh s show ?thesis by (fastforce simp: demo_handshake_def)
qed

end
