(* ===== verification/Allocator.thy ===== *)
theory Allocator
  imports Protocol
begin

text \<open>
  The tunnel address pool of \<^verbatim>\<open>internal/exit/allocator.go\<close>, with the part of \<^verbatim>\<open>net/netip\<close> that it
  uses. The mutex serialises the operations; each is one function on the allocator state.
\<close>

lemma unat_plus_one: "(a :: 'a::len word) + 1 \<noteq> 0 \<Longrightarrow> unat (a + 1) = Suc (unat a)"
  using unatSuc [of a] by (simp add: add.commute)

section \<open>Addresses and prefixes\<close>

text \<open>
  The zero \<^verbatim>\<open>netip.Addr\<close> is \<open>NoAddr\<close>; an IPv6 address carries its zone. A prefix that
  \<^verbatim>\<open>netip.PrefixFrom\<close> rejects has length \<open>-1\<close>.
\<close>

datatype Addr = NoAddr | V4 u32 | V6 "128 word" string

record Prefix =
  pfx_addr :: Addr
  pfx_bits :: int

fun Addr_IsValid :: "Addr \<Rightarrow> bool" where
  "Addr_IsValid NoAddr = False"
| "Addr_IsValid _ = True"

fun Addr_Is4 :: "Addr \<Rightarrow> bool" where
  "Addr_Is4 (V4 _) = True"
| "Addr_Is4 _ = False"

fun Addr_Is6 :: "Addr \<Rightarrow> bool" where
  "Addr_Is6 (V6 _ _) = True"
| "Addr_Is6 _ = False"

fun Addr_Next :: "Addr \<Rightarrow> Addr" where
  "Addr_Next (V4 a) = (if a + 1 = 0 then NoAddr else V4 (a + 1))"
| "Addr_Next (V6 a z) = (if a + 1 = 0 then NoAddr else V6 (a + 1) z)"
| "Addr_Next NoAddr = NoAddr"

definition Prefix_IsValid :: "Prefix \<Rightarrow> bool" where
  "Prefix_IsValid p =
     (0 \<le> pfx_bits p \<and>
      (case pfx_addr p of NoAddr \<Rightarrow> False | V4 _ \<Rightarrow> pfx_bits p \<le> 32 | V6 _ z \<Rightarrow> pfx_bits p \<le> 128 \<and> z = ''''))"

definition Prefix_Contains :: "Prefix \<Rightarrow> Addr \<Rightarrow> bool" where
  "Prefix_Contains p ip =
     (Prefix_IsValid p \<and>
      (case (pfx_addr p, ip) of
         (V4 a, V4 b) \<Rightarrow> drop_bit (32 - nat (pfx_bits p)) (b XOR a) = 0
       | (V6 a _, V6 b z) \<Rightarrow> z = '''' \<and> drop_bit (128 - nat (pfx_bits p)) (b XOR a) = 0
       | _ \<Rightarrow> False))"

definition Prefix_Masked :: "Prefix \<Rightarrow> Prefix" where
  "Prefix_Masked p =
     (if \<not> Prefix_IsValid p then \<lparr>pfx_addr = NoAddr, pfx_bits = -1\<rparr>
      else case pfx_addr p of
        V4 a \<Rightarrow> p\<lparr>pfx_addr := V4 (a AND NOT (mask (32 - nat (pfx_bits p))))\<rparr>
      | V6 a z \<Rightarrow> p\<lparr>pfx_addr := V6 (a AND NOT (mask (128 - nat (pfx_bits p)))) z\<rparr>
      | NoAddr \<Rightarrow> p)"

section \<open>The code\<close>

datatype exit_error =
    ErrPoolExhausted | ErrInvalidPool
  | ErrReversePath | ErrNoLease | errBadInnerPacket | errDevice | ErrIPForwardDisabled

record Allocator =
  al_prefix :: Prefix
  al_forward :: "SessionID \<rightharpoonup> Addr"
  al_reverse :: "Addr \<rightharpoonup> SessionID"
  al_free :: "Addr list"

text \<open>The collecting loop of \<^verbatim>\<open>NewAllocator\<close>.\<close>

definition addr_room :: "Addr \<Rightarrow> nat" where
  "addr_room a = (case a of NoAddr \<Rightarrow> 0 | V4 x \<Rightarrow> 2 ^ 32 - unat x | V6 x _ \<Rightarrow> 2 ^ 128 - unat x)"

function collectFree :: "Prefix \<Rightarrow> Addr \<Rightarrow> Addr list \<Rightarrow> Addr list" where
  "collectFree base addr free =
     (let addr' = Addr_Next addr in
      if \<not> Prefix_Contains base addr' then free
      else if \<not> Prefix_Contains base (Addr_Next addr') then free
      else collectFree base addr' (free @ [addr']))"
  by pat_completeness auto

termination
proof (relation "measure (\<lambda>(base, addr, free). addr_room addr)")
  fix base addr free and addr'
  assume addr': "addr' = Addr_Next addr" and c: "\<not> \<not> Prefix_Contains base addr'"
  show "((base, addr', free @ [addr']), base, addr, free) \<in> measure (\<lambda>(base, addr, free). addr_room addr)"
  proof (cases addr)
    case (V4 a)
    have "unat a < 2 ^ 32" using unsigned_less [of a] by simp
    with V4 addr' c show ?thesis
      by (auto simp: addr_room_def Prefix_Contains_def unat_plus_one split: if_splits Addr.splits)
  next
    case (V6 a z)
    have "unat a < 2 ^ 128" using unsigned_less [of a] by simp
    with V6 addr' c show ?thesis
      by (auto simp: addr_room_def Prefix_Contains_def unat_plus_one split: if_splits Addr.splits)
  next
    case NoAddr
    with addr' c show ?thesis by (auto simp: Prefix_Contains_def split: Addr.splits)
  qed
qed simp

declare collectFree.simps [simp del]

definition NewAllocator :: "Prefix \<Rightarrow> (exit_error, Allocator) result" where
  "NewAllocator pool =
     (if \<not> Prefix_IsValid pool \<or> Addr_Is6 (pfx_addr pool) then Inl ErrInvalidPool
      else
        let base = Prefix_Masked pool;
            free = collectFree base (Addr_Next (pfx_addr base)) []
        in if length free = 0 then Inl ErrInvalidPool
           else Inr \<lparr>al_prefix = base, al_forward = Map.empty, al_reverse = Map.empty, al_free = free\<rparr>)"

definition Allocate :: "Allocator \<Rightarrow> SessionID \<Rightarrow> (exit_error, Addr) result \<times> Allocator" where
  "Allocate a sid =
     (case al_forward a sid of
        Some addr \<Rightarrow> (Inr addr, a)
      | None \<Rightarrow>
          if length (al_free a) = 0 then (Inl ErrPoolExhausted, a)
          else
            let addr = al_free a ! (length (al_free a) - 1) in
            (Inr addr,
             a\<lparr>al_free := take (length (al_free a) - 1) (al_free a),
               al_forward := (al_forward a)(sid \<mapsto> addr),
               al_reverse := (al_reverse a)(addr \<mapsto> sid)\<rparr>))"

definition LeaseOf :: "Allocator \<Rightarrow> SessionID \<Rightarrow> Addr option" where
  "LeaseOf a sid = al_forward a sid"

definition Lookup :: "Allocator \<Rightarrow> Addr \<Rightarrow> SessionID option" where
  "Lookup a addr = al_reverse a addr"

definition Release :: "Allocator \<Rightarrow> SessionID \<Rightarrow> Allocator" where
  "Release a sid =
     (case al_forward a sid of
        None \<Rightarrow> a
      | Some addr \<Rightarrow>
          a\<lparr>al_forward := (al_forward a)(sid := None), al_reverse := (al_reverse a)(addr := None),
            al_free := al_free a @ [addr]\<rparr>)"

section \<open>The pool\<close>

definition pool_size :: "Prefix \<Rightarrow> nat" where
  "pool_size p = 2 ^ (32 - nat (pfx_bits p))"

text \<open>The addresses that may be leased: all but the network, the first host and the broadcast.\<close>

definition usable :: "u32 \<Rightarrow> nat \<Rightarrow> Addr list" where
  "usable net sz = map (\<lambda>n. V4 (of_nat n)) [unat net + 2..<unat net + sz - 1]"

lemma masked_net:
  fixes a :: u32
  assumes "k \<le> 32"
  shows "2 ^ k dvd unat (a AND NOT (mask k))" "unat (a AND NOT (mask k)) + 2 ^ k \<le> 2 ^ 32"
    "drop_bit k (a AND NOT (mask k)) = drop_bit k a"
proof -
  let ?n = "unat (a AND NOT (mask k))"
  have "take_bit k (a AND NOT (mask k)) = 0"
    by (rule bit_word_eqI) (simp add: bit_take_bit_iff bit_and_iff bit_not_iff bit_mask_iff)
  then have "take_bit k ?n = 0" by (metis unsigned_0 unsigned_take_bit_eq)
  then show d: "2 ^ k dvd ?n" by (simp add: take_bit_eq_mod mod_eq_0_iff_dvd)
  then obtain q where q: "?n = 2 ^ k * q" by (elim dvdE)
  have p: "(2::nat) ^ 32 = 2 ^ k * 2 ^ (32 - k)" using assms by (simp flip: power_add)
  have "?n < 2 ^ 32" using unsigned_less [of "a AND NOT (mask k)"] by simp
  then have "2 ^ k * q < 2 ^ k * 2 ^ (32 - k)" using q p by simp
  then have "q + 1 \<le> 2 ^ (32 - k)" by simp
  then have "2 ^ k * (q + 1) \<le> 2 ^ k * 2 ^ (32 - k)" by (rule mult_le_mono2)
  then show "?n + 2 ^ k \<le> 2 ^ 32" using q p by (simp add: algebra_simps)
  show "drop_bit k (a AND NOT (mask k)) = drop_bit k a"
    by (rule bit_word_eqI) (auto simp: bit_drop_bit_eq bit_and_iff bit_not_iff bit_mask_iff dest: bit_imp_le_length)
qed

lemma div_eq_range: "0 < s \<Longrightarrow> s dvd n \<Longrightarrow> x div s = n div s \<longleftrightarrow> n \<le> x \<and> x < n + (s :: nat)"
proof -
  assume s: "0 < s" and "s dvd n"
  then obtain q where n: "n = s * q" by (elim dvdE)
  have "x div s = q \<longleftrightarrow> s * q \<le> x \<and> x < s * q + s"
    using s by (metis Suc_eq_plus1 div_nat_eqI div_times_less_eq_dividend dividend_less_div_times mult.commute
        mult_Suc_right add.commute)
  then show ?thesis using s by (simp add: n)
qed

lemma xor_zero_iff: "a XOR b = 0 \<longleftrightarrow> a = (b :: 'a::len word)"
  by (auto simp: bit_eq_iff bit_xor_iff)

lemma Contains_V4_iff:
  assumes "pfx_addr p = V4 net" and "0 \<le> pfx_bits p" and "pfx_bits p \<le> 32" and "pool_size p dvd unat net"
  shows "Prefix_Contains p (V4 x) \<longleftrightarrow> unat net \<le> unat x \<and> unat x < unat net + pool_size p"
proof -
  let ?k = "32 - nat (pfx_bits p)"
  have "Prefix_Contains p (V4 x) \<longleftrightarrow> drop_bit ?k x = drop_bit ?k net"
    using assms(1-3) by (simp add: Prefix_Contains_def Prefix_IsValid_def drop_bit_xor xor_zero_iff)
  also have "\<dots> \<longleftrightarrow> unat x div 2 ^ ?k = unat net div 2 ^ ?k"
    unfolding word_unat_eq_iff unat_drop_bit_eq by (simp only: drop_bit_eq_div)
  also have "\<dots> \<longleftrightarrow> unat net \<le> unat x \<and> unat x < unat net + 2 ^ ?k"
    by (rule div_eq_range) (use assms(4) in \<open>simp_all add: pool_size_def\<close>)
  finally show ?thesis by (simp add: pool_size_def)
qed

lemma collectFree_V4:
  assumes "pfx_addr p = V4 net" and "0 \<le> pfx_bits p" and "pfx_bits p \<le> 32" and "pool_size p dvd unat net"
    and "unat net + pool_size p \<le> 2 ^ 32" and "unat net \<le> Suc (unat a)"
  shows "collectFree p (V4 a) free = free @ map (\<lambda>n. V4 (of_nat n)) [Suc (unat a)..<unat net + pool_size p - 1]"
  using assms(6)
proof (induction "2 ^ 32 - unat a" arbitrary: a free rule: less_induct)
  case less
  note c = Contains_V4_iff [OF assms(1-4)]
  have no: "\<not> Prefix_Contains p NoAddr" by (simp add: Prefix_Contains_def split: Addr.splits)
  have lim: "unat x < 2 ^ 32" for x :: u32 using unsigned_less [of x] by simp
  have zero: "unat x = 2 ^ 32 - 1" if "x + 1 = 0" for x :: u32
  proof -
    have "x = - 1" using that by (simp add: eq_neg_iff_add_eq_0)
    then show ?thesis by (simp add: unsigned_minus_1_eq_mask mask_eq_exp_minus_1)
  qed
  show ?case
  proof (cases "a + 1 = 0 \<or> \<not> Prefix_Contains p (V4 (a + 1))")
    case True
    then have "unat net + pool_size p - 1 \<le> Suc (unat a)"
      using c less.prems zero [of a] assms(5) unat_plus_one [of a] by (cases "a + 1 = 0") auto
    then show ?thesis using True no by (subst collectFree.simps) auto
  next
    case False
    let ?b = "a + 1"
    have b: "unat ?b = Suc (unat a)" "Prefix_Contains p (V4 ?b)" using False unat_plus_one by auto
    show ?thesis
    proof (cases "?b + 1 = 0 \<or> \<not> Prefix_Contains p (V4 (?b + 1))")
      case True
      then have "unat net + pool_size p - 1 \<le> Suc (unat a)"
        using c b less.prems zero [of ?b] assms(5) unat_plus_one [of ?b] by (cases "?b + 1 = 0") auto
      then show ?thesis using True False no by (subst collectFree.simps) auto
    next
      case next_in: False
      then have "Suc (Suc (unat a)) < unat net + pool_size p" using c b unat_plus_one [of ?b] by auto
      then have "[Suc (unat a)..<unat net + pool_size p - 1] = Suc (unat a) # [Suc (unat ?b)..<unat net + pool_size p - 1]"
        using b(1) by (simp add: upt_conv_Cons)
      moreover have "V4 (of_nat (Suc (unat a))) = V4 ?b" by (simp flip: b(1) del: of_nat_Suc)
      moreover have "collectFree p (V4 a) free = collectFree p (V4 ?b) (free @ [V4 ?b])"
        using False next_in by (subst collectFree.simps) (auto simp: Let_def)
      moreover have "2 ^ 32 - unat ?b < 2 ^ 32 - unat a" using b(1) lim [of ?b] by simp
      ultimately show ?thesis using less.hyps [of ?b "free @ [V4 ?b]"] less.prems b(1) by simp
    qed
  qed
qed

lemma collectFree_pool:
  assumes "0 \<le> pfx_bits pool" and "pfx_bits pool \<le> 32" and "net = a AND NOT (mask (32 - nat (pfx_bits pool)))"
  shows "collectFree (pool\<lparr>pfx_addr := V4 net\<rparr>) (Addr_Next (V4 net)) [] = usable net (pool_size pool)"
proof -
  let ?k = "32 - nat (pfx_bits pool)" and ?p = "pool\<lparr>pfx_addr := V4 net\<rparr>"
  have net: "pool_size ?p dvd unat net" "unat net + pool_size ?p \<le> 2 ^ 32"
    using masked_net(1,2) [of ?k a] by (simp_all add: assms(3) pool_size_def)
  show ?thesis
  proof (cases "net + 1 = 0")
    case True
    then have "net = - 1" by (simp add: eq_neg_iff_add_eq_0)
    then have "unat net = 2 ^ 32 - 1" by (simp add: unsigned_minus_1_eq_mask mask_eq_exp_minus_1)
    then have "usable net (pool_size pool) = []" using net(2) by (simp add: usable_def pool_size_def)
    moreover have "\<not> Prefix_Contains ?p NoAddr" by (simp add: Prefix_Contains_def)
    ultimately show ?thesis using True by (subst collectFree.simps) simp
  next
    case False
    with collectFree_V4 [of ?p net "net + 1" "[]"] assms(1,2) net unat_plus_one [of net] show ?thesis
      by (simp add: usable_def pool_size_def)
  qed
qed

lemma NewAllocator_V4:
  assumes "pfx_addr pool = V4 a" and "0 \<le> pfx_bits pool" and "pfx_bits pool \<le> 32"
    and "net = a AND NOT (mask (32 - nat (pfx_bits pool)))"
  shows "NewAllocator pool =
     (if pfx_bits pool \<le> 30
      then Inr \<lparr>al_prefix = pool\<lparr>pfx_addr := V4 net\<rparr>, al_forward = Map.empty, al_reverse = Map.empty,
               al_free = usable net (pool_size pool)\<rparr>
      else Inl ErrInvalidPool)"
proof -
  let ?k = "32 - nat (pfx_bits pool)"
  have "2 ^ 2 \<le> (2::nat) ^ ?k \<longleftrightarrow> 2 \<le> ?k" by (rule power_increasing_iff) simp
  then have "pool_size pool < 4 \<longleftrightarrow> \<not> pfx_bits pool \<le> 30" using assms(2,3) by (auto simp: pool_size_def)
  then have "length (usable net (pool_size pool)) = 0 \<longleftrightarrow> \<not> pfx_bits pool \<le> 30" by (auto simp: usable_def)
  with collectFree_pool [OF assms(2-4)] assms show ?thesis
    by (simp add: NewAllocator_def Prefix_Masked_def Prefix_IsValid_def Let_def)
qed

lemma usable_distinct:
  assumes "unat net + sz \<le> 2 ^ 32"
  shows "distinct (usable net sz)"
proof -
  have "inj_on (\<lambda>n. V4 (of_nat n)) {unat net + 2..<unat net + sz - 1}"
  proof (rule inj_onI)
    fix m n
    assume "m \<in> {unat net + 2..<unat net + sz - 1}" "n \<in> {unat net + 2..<unat net + sz - 1}"
    then have "m < 2 ^ 32" "n < 2 ^ 32" using assms by auto
    moreover assume "V4 (of_nat m) = V4 (of_nat n)"
    then have "unat (of_nat m :: u32) = unat (of_nat n :: u32)" by simp
    ultimately show "m = n" by (simp add: unat_of_nat)
  qed
  then show ?thesis by (simp add: usable_def distinct_map)
qed

section \<open>The lease contract\<close>

text \<open>
  What the exit path relies on: a table of leases in which every holder has one address
  and every address one holder.
\<close>

locale lease_table =
  fixes allocate :: "'s \<Rightarrow> 'k \<Rightarrow> ('e + 'a) \<times> 's"
    and release :: "'s \<Rightarrow> 'k \<Rightarrow> 's"
    and lease_of :: "'s \<Rightarrow> 'k \<Rightarrow> 'a option"
    and lookup :: "'s \<Rightarrow> 'a \<Rightarrow> 'k option"
    and inv :: "'s \<Rightarrow> bool"
  assumes inv_allocate: "inv s \<Longrightarrow> inv (snd (allocate s k))"
    and inv_release: "inv s \<Longrightarrow> inv (release s k)"
    and lookup_iff: "inv s \<Longrightarrow> lookup s a = Some k \<longleftrightarrow> lease_of s k = Some a"
    and allocate_leases: "fst (allocate s k) = Inr a \<Longrightarrow> lease_of (snd (allocate s k)) k = Some a"
    and allocate_keeps: "k' \<noteq> k \<Longrightarrow> lease_of (snd (allocate s k)) k' = lease_of s k'"
    and allocate_again: "lease_of s k = Some a \<Longrightarrow> allocate s k = (Inr a, s)"
    and allocate_fails: "fst (allocate s k) = Inl e \<Longrightarrow> snd (allocate s k) = s"
    and release_frees: "lease_of (release s k) k = None"
    and release_keeps: "k' \<noteq> k \<Longrightarrow> lease_of (release s k) k' = lease_of s k'"
begin

lemma exclusive: "inv s \<Longrightarrow> lease_of s k = Some a \<Longrightarrow> lease_of s k' = Some a \<Longrightarrow> k = k'"
  using lookup_iff by (metis option.inject)

lemma fresh_address:
  assumes "inv s" and "lease_of s k = None" and "fst (allocate s k) = Inr a"
  shows "lookup s a = None"
proof (rule ccontr)
  assume "lookup s a \<noteq> None"
  then obtain k' where k': "lease_of s k' = Some a" using lookup_iff assms(1) by auto
  then have "k' \<noteq> k" using assms(2) by auto
  with k' have "lease_of (snd (allocate s k)) k' = Some a" using allocate_keeps by simp
  with exclusive [OF inv_allocate [OF assms(1)]] allocate_leases [OF assms(3)] \<open>k' \<noteq> k\<close> show False by blast
qed

lemma lease_stable:
  "lease_of s k = Some a \<Longrightarrow> lease_of (snd (allocate s k')) k = Some a"
  by (cases "k = k'") (simp_all add: allocate_again allocate_keeps)

lemma lease_stable_run:
  "lease_of s k = Some a \<Longrightarrow> lease_of (fold (\<lambda>k' s. snd (allocate s k')) ks s) k = Some a"
  by (induction ks arbitrary: s) (simp_all add: lease_stable)

end

definition alloc_inv :: "Allocator \<Rightarrow> bool" where
  "alloc_inv a \<longleftrightarrow> (\<forall>sid addr. al_reverse a addr = Some sid \<longleftrightarrow> al_forward a sid = Some addr) \<and>
     distinct (al_free a) \<and> set (al_free a) \<inter> ran (al_forward a) = {}"

lemma alloc_invD:
  assumes "alloc_inv a"
  shows "al_reverse a addr = Some sid \<longleftrightarrow> al_forward a sid = Some addr" "distinct (al_free a)"
    "set (al_free a) \<inter> ran (al_forward a) = {}"
  using assms by (auto simp: alloc_inv_def)

lemma Allocate_cases:
  obtains (held) addr where "al_forward a sid = Some addr" "Allocate a sid = (Inr addr, a)"
  | (exhausted) "al_forward a sid = None" "al_free a = []" "Allocate a sid = (Inl ErrPoolExhausted, a)"
  | (fresh) xs addr where "al_forward a sid = None" "al_free a = xs @ [addr]"
      "Allocate a sid = (Inr addr, a\<lparr>al_free := xs, al_forward := (al_forward a)(sid \<mapsto> addr),
         al_reverse := (al_reverse a)(addr \<mapsto> sid)\<rparr>)"
proof (cases "al_forward a sid")
  case None
  show ?thesis
  proof (cases "al_free a" rule: rev_cases)
    case Nil
    with None exhausted show ?thesis by (simp add: Allocate_def)
  next
    case (snoc xs addr)
    with None fresh show ?thesis by (simp add: Allocate_def Let_def)
  qed
qed (use held in \<open>simp add: Allocate_def\<close>)

lemma Allocate_inv:
  assumes "alloc_inv a"
  shows "alloc_inv (snd (Allocate a sid))"
proof (rule Allocate_cases [of a sid])
  fix xs addr
  assume f: "al_forward a sid = None" "al_free a = xs @ [addr]"
    and eq: "Allocate a sid = (Inr addr, a\<lparr>al_free := xs, al_forward := (al_forward a)(sid \<mapsto> addr),
         al_reverse := (al_reverse a)(addr \<mapsto> sid)\<rparr>)"
  note inv = alloc_invD [OF assms]
  have "addr \<notin> ran (al_forward a)" using inv(3) f(2) by auto
  then have "al_forward a s \<noteq> Some addr" for s by (auto simp: ran_def)
  with inv f eq show ?thesis
    by (auto simp: alloc_inv_def ran_def)
qed (use assms in simp_all)

lemma Release_inv:
  assumes "alloc_inv a"
  shows "alloc_inv (Release a sid)"
proof (cases "al_forward a sid")
  case (Some addr)
  note inv = alloc_invD [OF assms]
  have other: "al_forward a s = Some addr \<Longrightarrow> s = sid" for s using inv(1) Some by (metis option.inject)
  let ?f = "(al_forward a)(sid := None)"
  have "addr \<notin> set (al_free a)" using inv(3) Some by (auto simp: ran_def)
  moreover have "ran ?f \<subseteq> ran (al_forward a)" "addr \<notin> ran ?f" using other by (auto simp: ran_def)
  moreover have "((al_reverse a)(addr := None)) x = Some s \<longleftrightarrow> ?f s = Some x" for s x
    by (metis Some fun_upd_apply inv(1) option.distinct(1) option.inject)
  ultimately show ?thesis using inv(2,3) Some by (auto simp: alloc_inv_def Release_def)
qed (use assms in \<open>simp add: Release_def\<close>)

interpretation leases: lease_table Allocate Release LeaseOf Lookup alloc_inv
proof
  fix a sid sid' addr e
  show "alloc_inv a \<Longrightarrow> alloc_inv (snd (Allocate a sid))" by (rule Allocate_inv)
  show "alloc_inv a \<Longrightarrow> alloc_inv (Release a sid)" by (rule Release_inv)
  show "alloc_inv a \<Longrightarrow> Lookup a addr = Some sid \<longleftrightarrow> LeaseOf a sid = Some addr"
    by (simp add: Lookup_def LeaseOf_def alloc_invD(1))
  show "fst (Allocate a sid) = Inr addr \<Longrightarrow> LeaseOf (snd (Allocate a sid)) sid = Some addr"
    by (rule Allocate_cases [of a sid]) (auto simp: LeaseOf_def)
  show "sid' \<noteq> sid \<Longrightarrow> LeaseOf (snd (Allocate a sid)) sid' = LeaseOf a sid'"
    by (rule Allocate_cases [of a sid]) (auto simp: LeaseOf_def)
  show "LeaseOf a sid = Some addr \<Longrightarrow> Allocate a sid = (Inr addr, a)" by (simp add: LeaseOf_def Allocate_def)
  show "fst (Allocate a sid) = Inl e \<Longrightarrow> snd (Allocate a sid) = a"
    by (rule Allocate_cases [of a sid]) auto
  show "LeaseOf (Release a sid) sid = None" by (simp add: LeaseOf_def Release_def split: option.splits)
  show "sid' \<noteq> sid \<Longrightarrow> LeaseOf (Release a sid) sid' = LeaseOf a sid'"
    by (simp add: LeaseOf_def Release_def split: option.splits)
qed

section \<open>Runs of the allocator\<close>

inductive alloc_reach :: "Allocator \<Rightarrow> Allocator \<Rightarrow> bool" where
  init: "alloc_reach a a"
| lease: "alloc_reach a b \<Longrightarrow> alloc_reach a (snd (Allocate b sid))"
| free: "alloc_reach a b \<Longrightarrow> alloc_reach a (Release b sid)"

definition alloc_pool :: "Addr set \<Rightarrow> Allocator \<Rightarrow> bool" where
  "alloc_pool U a \<longleftrightarrow> alloc_inv a \<and> set (al_free a) \<union> ran (al_forward a) = U \<and> finite (dom (al_forward a))"

lemma alloc_pool_Allocate: "alloc_pool U a \<Longrightarrow> alloc_pool U (snd (Allocate a sid))"
proof -
  assume p: "alloc_pool U a"
  then have "alloc_inv (snd (Allocate a sid))" by (auto simp: alloc_pool_def Allocate_inv)
  with p show ?thesis
    by (rule_tac Allocate_cases [of a sid]) (auto simp: alloc_pool_def ran_map_upd)
qed

lemma alloc_pool_Release: "alloc_pool U a \<Longrightarrow> alloc_pool U (Release a sid)"
proof (cases "al_forward a sid")
  case (Some addr)
  assume p: "alloc_pool U a"
  then have inv: "alloc_inv a" by (simp add: alloc_pool_def)
  have "ran (al_forward a) = insert addr (ran ((al_forward a)(sid := None)))"
    using ran_map_upd [of "(al_forward a)(sid := None)" sid addr] Some by (simp add: map_upd_triv)
  with p Some Release_inv [OF inv, of sid] show ?thesis by (auto simp: alloc_pool_def Release_def)
qed (simp add: Release_def)

lemma alloc_reach_pool: "alloc_reach a b \<Longrightarrow> alloc_pool U a \<Longrightarrow> alloc_pool U b"
  by (induction rule: alloc_reach.induct) (simp_all add: alloc_pool_Allocate alloc_pool_Release)

lemma NewAllocator_pool:
  assumes "NewAllocator pool = Inr a"
  obtains x net where "pfx_addr pool = V4 x" "net = x AND NOT (mask (32 - nat (pfx_bits pool)))"
    "unat net + pool_size pool \<le> 2 ^ 32" "al_prefix a = pool\<lparr>pfx_addr := V4 net\<rparr>"
    "alloc_pool (set (usable net (pool_size pool))) a" "al_free a = usable net (pool_size pool)"
    "distinct (usable net (pool_size pool))" "al_forward a = Map.empty"
proof -
  from assms have v: "Prefix_IsValid pool" "\<not> Addr_Is6 (pfx_addr pool)"
    by (auto simp: NewAllocator_def split: if_splits)
  then obtain x where x: "pfx_addr pool = V4 x" "0 \<le> pfx_bits pool" "pfx_bits pool \<le> 32"
    by (auto simp: Prefix_IsValid_def split: Addr.splits)
  define net where "net = x AND NOT (mask (32 - nat (pfx_bits pool)))"
  have lim: "unat net + pool_size pool \<le> 2 ^ 32"
    using masked_net(2) [of "32 - nat (pfx_bits pool)" x] by (simp add: net_def pool_size_def)
  note d = usable_distinct [OF lim]
  from NewAllocator_V4 [OF x net_def] assms have
    a: "a = \<lparr>al_prefix = pool\<lparr>pfx_addr := V4 net\<rparr>, al_forward = Map.empty, al_reverse = Map.empty,
        al_free = usable net (pool_size pool)\<rparr>" by (auto split: if_splits)
  with d have "alloc_pool (set (usable net (pool_size pool))) a"
    by (simp add: alloc_pool_def alloc_inv_def)
  with a d lim x net_def show thesis by (intro that) auto
qed

lemma NewAllocator_inv: "NewAllocator pool = Inr a \<Longrightarrow> alloc_inv a"
  by (erule NewAllocator_pool) (simp add: alloc_pool_def)

lemma card_leases:
  assumes "alloc_pool (set U) a" and "distinct U"
  shows "length (al_free a) + card (dom (al_forward a)) = length U"
proof -
  have inv: "alloc_inv a" using assms(1) by (simp add: alloc_pool_def)
  have "inj_on (\<lambda>s. the (al_forward a s)) (dom (al_forward a))"
    by (rule inj_onI) (metis alloc_invD(1) [OF inv] domD option.inject option.sel)
  moreover have "ran (al_forward a) = (\<lambda>s. the (al_forward a s)) ` dom (al_forward a)"
    by (force simp: ran_def image_def)
  ultimately have "card (ran (al_forward a)) = card (dom (al_forward a))" by (simp add: card_image)
  moreover have "card (set (al_free a)) + card (ran (al_forward a)) = card (set U)"
    using assms(1) alloc_invD(3) [OF inv]
    by (metis List.finite_set alloc_pool_def card_Un_disjoint finite_Un)
  ultimately show ?thesis
    using alloc_invD(2) [OF inv] assms(2) by (simp add: distinct_card)
qed

section \<open>How long the collecting loop runs\<close>

text \<open>The loop again, given up after so many iterations.\<close>

fun collect_within :: "nat \<Rightarrow> Prefix \<Rightarrow> Addr \<Rightarrow> Addr list \<Rightarrow> Addr list option" where
  "collect_within 0 base addr free = None"
| "collect_within (Suc n) base addr free =
     (let addr' = Addr_Next addr in
      if \<not> Prefix_Contains base addr' then Some free
      else if \<not> Prefix_Contains base (Addr_Next addr') then Some free
      else collect_within n base addr' (free @ [addr']))"

lemma collectFree_grows: "length free \<le> length (collectFree base addr free)"
proof (induction base addr free rule: collectFree.induct)
  case (1 base addr free)
  then show ?case by (subst collectFree.simps) (auto simp: Let_def)
qed

lemma collect_within_collectFree:
  "collect_within n base addr free =
     (if length free + n \<le> length (collectFree base addr free) then None else Some (collectFree base addr free))"
proof (induction n arbitrary: addr free)
  case 0
  then show ?case by (simp add: collectFree_grows)
next
  case (Suc n)
  let ?a = "Addr_Next addr"
  show ?case
  proof (cases "Prefix_Contains base ?a \<and> Prefix_Contains base (Addr_Next ?a)")
    case True
    then have "collectFree base addr free = collectFree base ?a (free @ [?a])" by (subst collectFree.simps) (simp add: Let_def)
    with True Suc.IH [of ?a "free @ [?a]"] show ?thesis by (simp add: Let_def)
  next
    case False
    then have "collectFree base addr free = free" by (subst collectFree.simps) (auto simp: Let_def)
    with False show ?thesis by (auto simp: Let_def)
  qed
qed

section \<open>Properties\<close>

text \<open>
  The pool \<^verbatim>\<open>NewAllocator\<close> builds, for every prefix: an IPv4 prefix of at most 30 bits gives
  exactly the addresses strictly between the first host and the broadcast address of its
  network, in order; anything else is refused.
\<close>

theorem new_allocator_pool:
  "NewAllocator pool =
     (case pfx_addr pool of
        V4 a \<Rightarrow>
          if 0 \<le> pfx_bits pool \<and> pfx_bits pool \<le> 30 then
            let net = a AND NOT (mask (32 - nat (pfx_bits pool))) in
            Inr \<lparr>al_prefix = pool\<lparr>pfx_addr := V4 net\<rparr>, al_forward = Map.empty, al_reverse = Map.empty,
                 al_free = map (\<lambda>n. V4 (of_nat n)) [unat net + 2..<unat net + 2 ^ (32 - nat (pfx_bits pool)) - 1]\<rparr>
          else Inl ErrInvalidPool
      | _ \<Rightarrow> Inl ErrInvalidPool)"
proof (cases "pfx_addr pool")
  case (V4 a)
  show ?thesis
  proof (cases "0 \<le> pfx_bits pool \<and> pfx_bits pool \<le> 32")
    case True
    with NewAllocator_V4 [OF V4 _ _ refl] V4 show ?thesis by (simp add: usable_def pool_size_def Let_def)
  next
    case False
    with V4 show ?thesis by (auto simp: NewAllocator_def Prefix_IsValid_def)
  qed
qed (simp_all add: NewAllocator_def Prefix_IsValid_def)

text \<open>
  C22. Leases are exclusive: after any sequence of allocations and releases, two sessions never
  hold the same address, the reverse table is the inverse of the forward one, and every lease is a
  usable address of the pool (never the network, the gateway host or the broadcast address).
\<close>

theorem leases_exclusive:
  assumes "NewAllocator pool = Inr a" and "alloc_reach a b"
  shows "(\<forall>s t x. LeaseOf b s = Some x \<and> LeaseOf b t = Some x \<longrightarrow> s = t) \<and>
         (\<forall>s x. Lookup b x = Some s \<longleftrightarrow> LeaseOf b s = Some x) \<and>
         (\<forall>s x. LeaseOf b s = Some x \<longrightarrow> x \<in> set (al_free a))"
proof -
  obtain U where U: "alloc_pool U a" "U = set (al_free a)"
    by (rule NewAllocator_pool [OF assms(1)]) simp
  from alloc_reach_pool [OF assms(2) U(1)] have p: "alloc_pool U b" .
  then have inv: "alloc_inv b" by (simp add: alloc_pool_def)
  have "x \<in> U" if "LeaseOf b s = Some x" for s x
    using p that by (auto simp: alloc_pool_def LeaseOf_def ran_def)
  with leases.exclusive [OF inv] leases.lookup_iff [OF inv] U(2) show ?thesis by blast
qed

definition demo_pool :: Prefix where
  "demo_pool = \<lparr>pfx_addr = V4 0x0A080000, pfx_bits = 29\<rparr>"

definition demo_allocator :: Allocator where
  "demo_allocator = \<lparr>al_prefix = demo_pool, al_forward = Map.empty, al_reverse = Map.empty,
     al_free = map V4 [0x0A080002, 0x0A080003, 0x0A080004, 0x0A080005, 0x0A080006]\<rparr>"

lemma demo_allocator_new: "NewAllocator demo_pool = Inr demo_allocator"
proof -
  have "0x0A080000 AND NOT (mask 3) = (0x0A080000 :: u32)" by (simp add: mask_eq_exp_minus_1)
  moreover have "[167247874..<167247879] = [167247874, 167247875, 167247876, 167247877, 167247878]"
    by (simp add: upt_rec)
  ultimately show ?thesis
    using NewAllocator_V4 [of demo_pool "0x0A080000" "0x0A080000"]
    by (simp add: demo_pool_def demo_allocator_def usable_def pool_size_def)
qed

theorem leases_exclusive_witness:
  "NewAllocator demo_pool = Inr demo_allocator \<and>
   Lookup (snd (Allocate demo_allocator [1])) (V4 0x0A080006) = Some [1] \<and>
   V4 0x0A080006 \<in> set (al_free demo_allocator)"
proof -
  note ex = leases_exclusive [OF demo_allocator_new alloc_reach.lease [OF alloc_reach.init, of _ "[1]"]]
  have "LeaseOf (snd (Allocate demo_allocator [1])) [1] = Some (V4 0x0A080006)"
    by (simp add: Allocate_def LeaseOf_def demo_allocator_def Let_def)
  with ex demo_allocator_new show ?thesis by blast
qed

text \<open>
  \<^verbatim>\<open>Allocate\<close> is idempotent and fails only when it must: a session that holds a lease gets it
  again and nothing changes; otherwise it gets an address nobody holds, and every other lease stays,
  unless every usable address is leased, and then nothing changes.
\<close>

theorem allocate_outcome:
  assumes "NewAllocator pool = Inr a" and "alloc_reach a b"
  shows "case LeaseOf b sid of
           Some x \<Rightarrow> Allocate b sid = (Inr x, b)
         | None \<Rightarrow>
             if card (dom (al_forward b)) = length (al_free a) then Allocate b sid = (Inl ErrPoolExhausted, b)
             else \<exists>x b'. Allocate b sid = (Inr x, b') \<and> Lookup b x = None \<and> LeaseOf b' sid = Some x \<and>
                    Lookup b' x = Some sid \<and> (\<forall>t. t \<noteq> sid \<longrightarrow> LeaseOf b' t = LeaseOf b t)"
proof -
  obtain U where U: "alloc_pool (set U) a" "U = al_free a" "distinct U"
    by (rule NewAllocator_pool [OF assms(1)]) simp
  from alloc_reach_pool [OF assms(2) U(1)] have p: "alloc_pool (set U) b" .
  then have inv: "alloc_inv b" by (simp add: alloc_pool_def)
  note card = card_leases [OF p U(3)]
  show ?thesis
  proof (rule Allocate_cases [of b sid])
    fix xs x
    assume f: "al_forward b sid = None" "al_free b = xs @ [x]"
      "Allocate b sid = (Inr x, b\<lparr>al_free := xs, al_forward := (al_forward b)(sid \<mapsto> x),
         al_reverse := (al_reverse b)(x \<mapsto> sid)\<rparr>)"
    then have "Lookup b x = None" using leases.fresh_address [OF inv, of sid x] by (simp add: LeaseOf_def)
    with f card U(2) show ?thesis by (auto simp: LeaseOf_def Lookup_def)
  qed (use card U(2) in \<open>auto simp: LeaseOf_def\<close>)
qed

text \<open>
  C23. Building the pool terminates, for every IPv4 prefix including \<^verbatim>\<open>0.0.0.0/0\<close>, where the address after the last one
  is invalid: the collecting loop runs exactly two times fewer than the prefix has addresses, and once for the prefixes
  too small to have a usable address; stopped any earlier it has no result.
\<close>

theorem pool_loop_terminates:
  assumes "pfx_addr pool = V4 a" and "0 \<le> pfx_bits pool" and "pfx_bits pool \<le> 32"
  shows "collect_within n (Prefix_Masked pool) (Addr_Next (pfx_addr (Prefix_Masked pool))) [] =
     (if n < max 1 (2 ^ (32 - nat (pfx_bits pool)) - 2) then None
      else Some (collectFree (Prefix_Masked pool) (Addr_Next (pfx_addr (Prefix_Masked pool))) []))"
proof -
  let ?net = "a AND NOT (mask (32 - nat (pfx_bits pool)))"
  have m: "Prefix_Masked pool = pool\<lparr>pfx_addr := V4 ?net\<rparr>" using assms by (simp add: Prefix_Masked_def Prefix_IsValid_def)
  have "length (usable ?net (pool_size pool)) = 2 ^ (32 - nat (pfx_bits pool)) - 3" by (simp add: usable_def pool_size_def)
  moreover have "n \<le> s - 3 \<longleftrightarrow> n < max 1 (s - 2)" for s :: nat by arith
  ultimately show ?thesis
    using collectFree_pool [OF assms(2,3) refl, of a] by (simp add: collect_within_collectFree m del: One_nat_def)
qed

theorem pool_loop_terminates_witness:
  "collect_within 6 (Prefix_Masked demo_pool) (Addr_Next (pfx_addr (Prefix_Masked demo_pool))) [] =
     Some (collectFree (Prefix_Masked demo_pool) (Addr_Next (pfx_addr (Prefix_Masked demo_pool))) []) \<and>
   collect_within 5 (Prefix_Masked demo_pool) (Addr_Next (pfx_addr (Prefix_Masked demo_pool))) [] = None"
proof -
  have "pfx_addr demo_pool = V4 0x0A080000" "0 \<le> pfx_bits demo_pool" "pfx_bits demo_pool \<le> 32" "pfx_bits demo_pool = 29"
    by (simp_all add: demo_pool_def)
  with pool_loop_terminates [of demo_pool "0x0A080000"] show ?thesis by simp
qed

end
