(* ===== verification/Path_Set.thy ===== *)
theory Path_Set
  imports Allocator
begin

text \<open>
  \<^verbatim>\<open>internal/exit/pathset.go\<close>: the source endpoints recently seen for each session, to which the
  return path duplicates. The clock reading of an operation is its argument.
\<close>

section \<open>The code\<close>

datatype AddrPort = AddrPort (ap_addr: Addr) (ap_port: u16)

record pathEntry =
  pe_addr :: AddrPort
  pe_lastSeen :: go_time

record PathSet =
  ps_ttl :: duration
  ps_paths :: "SessionID \<rightharpoonup> pathEntry list"

definition defaultPathTTL :: duration where "defaultPathTTL = 30 * nanos_per_second"

definition NewPathSet :: "duration \<Rightarrow> PathSet" where
  "NewPathSet ttl = \<lparr>ps_ttl = (if ttl \<le> 0 then defaultPathTTL else ttl), ps_paths = Map.empty\<rparr>"

text \<open>Reading a Go map at a missing key gives the nil slice.\<close>

definition entries_of :: "PathSet \<Rightarrow> SessionID \<Rightarrow> pathEntry list" where
  "entries_of ps sid = (case ps_paths ps sid of None \<Rightarrow> [] | Some es \<Rightarrow> es)"

text \<open>The loop of \<^verbatim>\<open>Record\<close>: refresh the first entry with this endpoint, or append one.\<close>

fun refresh :: "pathEntry list \<Rightarrow> AddrPort \<Rightarrow> go_time \<Rightarrow> pathEntry list" where
  "refresh [] addr now = [\<lparr>pe_addr = addr, pe_lastSeen = now\<rparr>]"
| "refresh (e # es) addr now =
     (if pe_addr e = addr then e\<lparr>pe_lastSeen := now\<rparr> # es else e # refresh es addr now)"

definition PathSet_Record :: "PathSet \<Rightarrow> go_time \<Rightarrow> SessionID \<Rightarrow> AddrPort \<Rightarrow> PathSet" where
  "PathSet_Record ps now sid addr =
     ps\<lparr>ps_paths := (ps_paths ps)(sid \<mapsto> refresh (entries_of ps sid) addr now)\<rparr>"

definition PathSet_Fresh :: "PathSet \<Rightarrow> go_time \<Rightarrow> SessionID \<Rightarrow> AddrPort list \<times> PathSet" where
  "PathSet_Fresh ps now sid =
     (let entries = entries_of ps sid in
      if length entries = 0 then ([], ps)
      else
        let cutoff = Time_Add now (dur_neg (ps_ttl ps));
            live = filter (\<lambda>e. pe_lastSeen e > cutoff) entries
        in if length live = 0 then ([], ps\<lparr>ps_paths := (ps_paths ps)(sid := None)\<rparr>)
           else (map pe_addr live, ps\<lparr>ps_paths := (ps_paths ps)(sid \<mapsto> live)\<rparr>))"

section \<open>Histories\<close>

text \<open>
  An operation with its clock reading. The specification is over the history alone: an
  endpoint is fresh when it was recorded less than the TTL ago.
\<close>

datatype path_op = OpRecord SessionID AddrPort go_time | OpFresh SessionID go_time

fun op_time :: "path_op \<Rightarrow> go_time" where
  "op_time (OpRecord _ _ t) = t"
| "op_time (OpFresh _ t) = t"

fun path_op_step :: "PathSet \<Rightarrow> path_op \<Rightarrow> PathSet" where
  "path_op_step ps (OpRecord sid addr t) = PathSet_Record ps t sid addr"
| "path_op_step ps (OpFresh sid t) = snd (PathSet_Fresh ps t sid)"

definition run_paths :: "PathSet \<Rightarrow> path_op list \<Rightarrow> PathSet" where
  "run_paths ps ops = foldl path_op_step ps ops"

definition ps_inv :: "PathSet \<Rightarrow> bool" where
  "ps_inv ps \<longleftrightarrow> 0 < ps_ttl ps \<and> ps_ttl ps \<le> max_int64 \<and> (\<forall>sid. distinct (map pe_addr (entries_of ps sid)))"

text \<open>
  What the table knows of a history \<open>H\<close> up to time \<open>T\<close>: every entry is a recorded endpoint with its
  last time, and every endpoint recorded within the TTL has an entry.
\<close>

definition ps_tracks :: "PathSet \<Rightarrow> path_op list \<Rightarrow> go_time \<Rightarrow> bool" where
  "ps_tracks ps H T \<longleftrightarrow>
     (\<forall>sid. \<forall>e \<in> set (entries_of ps sid). OpRecord sid (pe_addr e) (pe_lastSeen e) \<in> set H \<and>
        (\<forall>t. OpRecord sid (pe_addr e) t \<in> set H \<longrightarrow> t \<le> pe_lastSeen e)) \<and>
     (\<forall>sid addr t. OpRecord sid addr t \<in> set H \<and> T < t + ps_ttl ps \<longrightarrow>
        addr \<in> pe_addr ` set (entries_of ps sid))"

lemma ps_tracksD:
  assumes "ps_tracks ps H T"
  shows "e \<in> set (entries_of ps sid) \<Longrightarrow> OpRecord sid (pe_addr e) (pe_lastSeen e) \<in> set H"
    and "e \<in> set (entries_of ps sid) \<Longrightarrow> OpRecord sid (pe_addr e) t \<in> set H \<Longrightarrow> t \<le> pe_lastSeen e"
    and "OpRecord sid addr t \<in> set H \<Longrightarrow> T < t + ps_ttl ps \<Longrightarrow> \<exists>e \<in> set (entries_of ps sid). pe_addr e = addr"
  using assms unfolding ps_tracks_def image_def by blast+

lemma ps_tracksI:
  assumes "\<And>sid e. e \<in> set (entries_of ps sid) \<Longrightarrow> OpRecord sid (pe_addr e) (pe_lastSeen e) \<in> set H"
    and "\<And>sid e t. e \<in> set (entries_of ps sid) \<Longrightarrow> OpRecord sid (pe_addr e) t \<in> set H \<Longrightarrow> t \<le> pe_lastSeen e"
    and "\<And>sid addr t. OpRecord sid addr t \<in> set H \<Longrightarrow> T < t + ps_ttl ps \<Longrightarrow>
           \<exists>e \<in> set (entries_of ps sid). pe_addr e = addr"
  shows "ps_tracks ps H T"
  using assms unfolding ps_tracks_def image_def by blast

lemma ps_tracks_mono: "ps_tracks ps H T \<Longrightarrow> T \<le> T' \<Longrightarrow> ps_tracks ps H T'"
  unfolding ps_tracks_def by (meson order.strict_trans1)

lemma refresh_addrs: "set (map pe_addr (refresh es addr now)) = insert addr (set (map pe_addr es))"
  by (induction es) auto

lemma refresh_distinct: "distinct (map pe_addr es) \<Longrightarrow> distinct (map pe_addr (refresh es addr now))"
proof (induction es)
  case (Cons e es)
  then show ?case using refresh_addrs [of es addr now] by auto
qed simp

lemma refresh_mem:
  assumes "distinct (map pe_addr es)"
  shows "e \<in> set (refresh es addr now) \<longleftrightarrow>
     (pe_addr e = addr \<and> pe_lastSeen e = now) \<or> (e \<in> set es \<and> pe_addr e \<noteq> addr)"
  using assms
proof (induction es)
  case Nil
  show ?case by (cases e) auto
next
  case (Cons x es)
  then show ?case by (cases e; cases x) (auto dest: imageI [of _ "set es" pe_addr])
qed

lemma entries_Record [simp]:
  "entries_of (PathSet_Record ps t sid addr) s = (if s = sid then refresh (entries_of ps sid) addr t else entries_of ps s)"
  by (simp add: PathSet_Record_def entries_of_def)

lemma entries_Fresh [simp]:
  "entries_of (snd (PathSet_Fresh ps t sid)) s =
     (if s = sid then filter (\<lambda>e. pe_lastSeen e > Time_Add t (dur_neg (ps_ttl ps))) (entries_of ps sid) else entries_of ps s)"
  by (auto simp: PathSet_Fresh_def entries_of_def Let_def filter_empty_conv split: option.splits)

lemma ttl_ops [simp]: "ps_ttl (path_op_step ps oper) = ps_ttl ps"
  by (cases oper) (simp_all add: PathSet_Record_def PathSet_Fresh_def Let_def)

lemma step_inv: "ps_inv ps \<Longrightarrow> ps_inv (path_op_step ps oper)"
  using ttl_ops [of ps oper]
  by (cases oper) (auto simp: ps_inv_def refresh_distinct distinct_map_filter)

lemma cutoff_eq: "ps_inv ps \<Longrightarrow> Time_Add t (dur_neg (ps_ttl ps)) = t - ps_ttl ps"
  by (simp add: ps_inv_def Time_Add_def dur_neg_id min_int64_def)

lemma Fresh_result: "fst (PathSet_Fresh ps t sid) =
     map pe_addr (filter (\<lambda>e. pe_lastSeen e > Time_Add t (dur_neg (ps_ttl ps))) (entries_of ps sid))"
  by (auto simp: PathSet_Fresh_def Let_def)

lemma tracks_record:
  assumes "ps_inv ps" and "ps_tracks ps H T" and "T \<le> t" and "\<forall>o' \<in> set H. op_time o' \<le> T"
  shows "ps_tracks (PathSet_Record ps t sid addr) (H @ [OpRecord sid addr t]) t"
proof -
  have d: "distinct (map pe_addr (entries_of ps sid))" using assms(1) by (simp add: ps_inv_def)
  have old: "t' \<le> t" if "OpRecord s x t' \<in> set H" for s x t'
    using assms(3,4) that by (metis op_time.simps(1) order_trans)
  note tr = ps_tracksD [OF assms(2)]
  let ?ps = "PathSet_Record ps t sid addr" and ?H = "H @ [OpRecord sid addr t]"
  have ttl: "ps_ttl ?ps = ps_ttl ps" by (simp add: PathSet_Record_def)
  have mem: "e \<in> set (entries_of ?ps s) \<longleftrightarrow> (s = sid \<and> pe_addr e = addr \<and> pe_lastSeen e = t) \<or>
      (e \<in> set (entries_of ps s) \<and> \<not> (s = sid \<and> pe_addr e = addr))" for e s
    using refresh_mem [OF d, of e addr t] by auto
  show ?thesis
  proof (rule ps_tracksI)
    fix s x t'
    assume r: "OpRecord s x t' \<in> set ?H" "t < t' + ps_ttl ?ps"
    show "\<exists>e \<in> set (entries_of ?ps s). pe_addr e = x"
    proof (cases "s = sid \<and> x = addr")
      case True
      then have "\<lparr>pe_addr = addr, pe_lastSeen = t\<rparr> \<in> set (entries_of ?ps s)"
        using refresh_mem [OF d, of "\<lparr>pe_addr = addr, pe_lastSeen = t\<rparr>" addr t] by simp
      with True show ?thesis by (metis pathEntry.select_convs(1))
    next
      case False
      with r assms(3) ttl have "\<exists>e \<in> set (entries_of ps s). pe_addr e = x" by (intro tr(3)) auto
      with False mem show ?thesis by blast
    qed
  qed (use tr(1,2) mem old in auto)
qed

lemma tracks_fresh:
  assumes "ps_inv ps" and "ps_tracks ps H T" and "T \<le> t"
  shows "ps_tracks (snd (PathSet_Fresh ps t sid)) (H @ [OpFresh sid t]) t"
proof -
  have ttl: "ps_ttl (snd (PathSet_Fresh ps t sid)) = ps_ttl ps" using ttl_ops [of ps "OpFresh sid t"] by simp
  note tr = ps_tracksD [OF assms(2)]
  show ?thesis
  proof (rule ps_tracksI)
    fix s addr t'
    assume r: "OpRecord s addr t' \<in> set (H @ [OpFresh sid t])" "t < t' + ps_ttl (snd (PathSet_Fresh ps t sid))"
    with ttl assms(3) obtain e where e: "e \<in> set (entries_of ps s)" "pe_addr e = addr"
      using tr(3) [of s addr t'] by auto
    with r have "t' \<le> pe_lastSeen e" using tr(2) by auto
    with r(2) ttl e cutoff_eq [OF assms(1), of t] show "\<exists>e \<in> set (entries_of (snd (PathSet_Fresh ps t sid)) s). pe_addr e = addr"
      by (intro bexI [of _ e]) auto
  qed (use tr(1,2) in \<open>auto split: if_splits\<close>)
qed

lemma run_tracks:
  assumes "ps_inv ps" and "\<forall>sid. entries_of ps sid = []" and "sorted (map op_time ops)"
    and "\<forall>oper \<in> set ops. op_time oper \<le> now"
  shows "ps_inv (run_paths ps ops) \<and> ps_tracks (run_paths ps ops) ops now \<and> ps_ttl (run_paths ps ops) = ps_ttl ps"
  using assms(3,4)
proof (induction ops arbitrary: now rule: rev_induct)
  case Nil
  then show ?case using assms(1,2) by (simp add: run_paths_def ps_tracks_def)
next
  case (snoc oper ops)
  let ?ps = "run_paths ps ops" and ?t = "op_time oper"
  have s: "sorted (map op_time ops)" "\<forall>o' \<in> set ops. op_time o' \<le> ?t" "?t \<le> now"
    using snoc.prems by (auto simp: sorted_append)
  from snoc.IH [OF s(1,2)] have IH: "ps_inv ?ps" "ps_tracks ?ps ops ?t" "ps_ttl ?ps = ps_ttl ps" by auto
  have "ps_tracks (path_op_step ?ps oper) (ops @ [oper]) ?t"
    by (cases oper) (use tracks_record [OF IH(1,2)] tracks_fresh [OF IH(1,2)] s(2) in auto)
  then have "ps_tracks (path_op_step ?ps oper) (ops @ [oper]) now"
    using s(3) by (rule ps_tracks_mono)
  with IH step_inv show ?case by (simp add: run_paths_def)
qed

section \<open>Properties\<close>

text \<open>
  The return set is exact: after any sequence of observations and queries with a clock that does
  not go back, \<^verbatim>\<open>Fresh\<close> lists, without repetition, exactly the endpoints recorded for the session less
  than the TTL ago; the compaction done by earlier queries never drops a live endpoint.
\<close>

theorem fresh_paths_exact:
  assumes "0 < ttl" and "ttl \<le> max_int64" and "sorted (map op_time ops)" and "\<forall>oper \<in> set ops. op_time oper \<le> now"
  shows "set (fst (PathSet_Fresh (run_paths (NewPathSet ttl) ops) now sid)) =
           {addr. \<exists>t. OpRecord sid addr t \<in> set ops \<and> now < t + ttl} \<and>
         distinct (fst (PathSet_Fresh (run_paths (NewPathSet ttl) ops) now sid))"
proof -
  have "ps_inv (NewPathSet ttl)" "\<forall>sid. entries_of (NewPathSet ttl) sid = []" "ps_ttl (NewPathSet ttl) = ttl"
    using assms(1,2) by (simp_all add: NewPathSet_def ps_inv_def entries_of_def)
  with run_tracks [OF this(1,2) assms(3,4)] have run: "ps_inv (run_paths (NewPathSet ttl) ops)"
    "ps_tracks (run_paths (NewPathSet ttl) ops) ops now" "ps_ttl (run_paths (NewPathSet ttl) ops) = ttl" by auto
  let ?ps = "run_paths (NewPathSet ttl) ops"
  have eq: "fst (PathSet_Fresh ?ps now sid) = map pe_addr (filter (\<lambda>e. pe_lastSeen e > now - ttl) (entries_of ?ps sid))"
    using Fresh_result [of ?ps now sid] cutoff_eq [OF run(1), of now] run(3) by simp
  have "addr \<in> set (fst (PathSet_Fresh ?ps now sid)) \<longleftrightarrow> (\<exists>t. OpRecord sid addr t \<in> set ops \<and> now < t + ttl)" for addr
  proof
    assume "addr \<in> set (fst (PathSet_Fresh ?ps now sid))"
    with eq obtain e where "e \<in> set (entries_of ?ps sid)" "addr = pe_addr e" "now - ttl < pe_lastSeen e" by auto
    with ps_tracksD(1) [OF run(2), of e sid] show "\<exists>t. OpRecord sid addr t \<in> set ops \<and> now < t + ttl"
      by (intro exI [of _ "pe_lastSeen e"]) auto
  next
    assume "\<exists>t. OpRecord sid addr t \<in> set ops \<and> now < t + ttl"
    then obtain t where t: "OpRecord sid addr t \<in> set ops" "now < t + ttl" by blast
    with ps_tracksD(3) [OF run(2), of sid addr t] run(3) obtain e where
      e: "e \<in> set (entries_of ?ps sid)" "pe_addr e = addr" by auto
    with t(1) ps_tracksD(2) [OF run(2), of e sid t] have "t \<le> pe_lastSeen e" by simp
    with t(2) e eq show "addr \<in> set (fst (PathSet_Fresh ?ps now sid))" by auto
  qed
  moreover have "distinct (map pe_addr (entries_of ?ps sid))" using run(1) by (simp add: ps_inv_def)
  ultimately show ?thesis using eq by (auto simp: distinct_map_filter)
qed

end
