(* ===== verification/Router.thy ===== *)
theory Router
  imports Path_Set
begin

text \<open>
  The exit path of the gateway, \<^verbatim>\<open>internal/exit/router.go\<close> and \<^verbatim>\<open>ipv4.go\<close>. The TUN device, the
  datagram sink and the metrics are interfaces: what the router does to them is the list of
  effects an operation returns, and what they answer is an argument. The framer is a function on
  a state of its own.
\<close>

section \<open>Inner packets\<close>

definition ipv4HeaderMinLen :: nat where "ipv4HeaderMinLen = 20"

text \<open>\<^verbatim>\<open>netip.AddrFrom4\<close> reads four bytes, most significant first.\<close>

definition AddrFrom4 :: "bytes \<Rightarrow> Addr" where
  "AddrFrom4 b = V4 (push_bit 24 (ucast (b ! 0)) OR push_bit 16 (ucast (b ! 1)) OR push_bit 8 (ucast (b ! 2)) OR
     ucast (b ! 3))"

definition parseIPv4 :: "bytes \<Rightarrow> (Addr \<times> Addr) option" where
  "parseIPv4 packet =
     (if length packet < ipv4HeaderMinLen then None
      else if drop_bit 4 (packet ! 0) \<noteq> 4 then None
      else
        let ihl = unat (packet ! 0 AND 0x0f) * 4 in
        if ihl < ipv4HeaderMinLen \<or> length packet < ihl then None
        else Some (AddrFrom4 (slice packet 12 16), AddrFrom4 (slice packet 16 20)))"

section \<open>The router\<close>

datatype exit_effect =
    TunWrite bytes
  | SendTo bytes AddrPort
  | Forwarded nat
  | Dropped string
  | Returned nat

record Router =
  rt_alloc :: Allocator
  rt_paths :: PathSet

definition Router_Lease :: "Router \<Rightarrow> SessionID \<Rightarrow> (exit_error, Addr) result \<times> Router" where
  "Router_Lease r sid =
     (case Allocate (rt_alloc r) sid of (res, a) \<Rightarrow> (res, r\<lparr>rt_alloc := a\<rparr>))"

definition Router_RecordPath :: "Router \<Rightarrow> go_time \<Rightarrow> SessionID \<Rightarrow> AddrPort \<Rightarrow> Router" where
  "Router_RecordPath r now sid addr = r\<lparr>rt_paths := PathSet_Record (rt_paths r) now sid addr\<rparr>"

text \<open>The last argument is whether the device accepts the write.\<close>

definition Router_Egress ::
  "Router \<Rightarrow> SessionID \<Rightarrow> bytes \<Rightarrow> bool \<Rightarrow> (exit_error, unit) result \<times> exit_effect list" where
  "Router_Egress r sid innerPacket devOk =
     (case LeaseOf (rt_alloc r) sid of
        None \<Rightarrow> (Inl ErrNoLease, [Dropped ''no-lease''])
      | Some leased \<Rightarrow>
          (case parseIPv4 innerPacket of
             None \<Rightarrow> (Inl errBadInnerPacket, [Dropped ''bad-inner-packet''])
           | Some (src, _) \<Rightarrow>
               if src \<noteq> leased then (Inl ErrReversePath, [Dropped ''reverse-path''])
               else if \<not> devOk then (Inl errDevice, [TunWrite innerPacket, Dropped ''tun-write-error''])
               else (Inr (), [TunWrite innerPacket, Forwarded (length innerPacket)])))"

text \<open>
  The loop over the fresh endpoints: a datagram to each, counted when the sink accepts it.
\<close>

fun sendAll :: "(AddrPort \<Rightarrow> bool) \<Rightarrow> bytes \<Rightarrow> AddrPort list \<Rightarrow> exit_effect list" where
  "sendAll sinkOk framed [] = []"
| "sendAll sinkOk framed (ep # eps) =
     [SendTo framed ep] @ (if sinkOk ep then [Returned (length framed)] else []) @ sendAll sinkOk framed eps"

text \<open>One iteration of \<^verbatim>\<open>ServeReturn\<close>, after a successful read. \<open>frame\<close> is the framer.\<close>

definition ServeReturn_step ::
  "('g \<Rightarrow> SessionID \<Rightarrow> bytes \<Rightarrow> ('e, bytes) result \<times> 'g) \<Rightarrow> (AddrPort \<Rightarrow> bool) \<Rightarrow> go_time \<Rightarrow>
   Router \<times> 'g \<Rightarrow> bytes \<Rightarrow> exit_effect list \<times> Router \<times> 'g" where
  "ServeReturn_step frame sinkOk now = (\<lambda>(r, g) packet.
     case parseIPv4 packet of
       None \<Rightarrow> ([Dropped ''bad-return-packet''], r, g)
     | Some (_, dst) \<Rightarrow>
         (case Lookup (rt_alloc r) dst of
            None \<Rightarrow> ([Dropped ''unknown-dst''], r, g)
          | Some sid \<Rightarrow>
              (case frame g sid packet of
                 (Inl _, g') \<Rightarrow> ([Dropped ''frame-error''], r, g')
               | (Inr framed, g') \<Rightarrow>
                   let (dsts, ps) = PathSet_Fresh (rt_paths r) now sid in
                   (sendAll sinkOk framed dsts, r\<lparr>rt_paths := ps\<rparr>, g'))))"

text \<open>
  The loop: a read gives a packet (with the clock and the sink's answers when it is handled) or an error, with
  which the loop returns, without error if the context was cancelled.
\<close>

datatype tun_read = ReadPacket bytes go_time "AddrPort \<Rightarrow> bool" | ReadError bool

fun ServeReturn ::
  "('g \<Rightarrow> SessionID \<Rightarrow> bytes \<Rightarrow> ('e, bytes) result \<times> 'g) \<Rightarrow> Router \<times> 'g \<Rightarrow> tun_read list \<Rightarrow>
   exit_effect list \<times> (exit_error, unit) result option" where
  "ServeReturn frame s [] = ([], None)"
| "ServeReturn frame s (ReadError cancelled # _) = ([], Some (if cancelled then Inr () else Inl errDevice))"
| "ServeReturn frame s (ReadPacket packet now sinkOk # rds) =
     (let (effs, s') = ServeReturn_step frame sinkOk now s packet;
          (effs', res) = ServeReturn frame s' rds
      in (effs @ effs', res))"

section \<open>Lemmas\<close>

definition sends :: "exit_effect list \<Rightarrow> (bytes \<times> AddrPort) list" where
  "sends effs = concat (map (\<lambda>e. case e of SendTo d ep \<Rightarrow> [(d, ep)] | _ \<Rightarrow> []) effs)"

lemma sends_sendAll [simp]: "sends (sendAll sinkOk framed eps) = map (\<lambda>ep. (framed, ep)) eps"
  by (induction eps) (simp_all add: sends_def)

lemma Router_Lease_alloc: "rt_alloc (snd (Router_Lease r sid)) = snd (Allocate (rt_alloc r) sid)"
  by (simp add: Router_Lease_def split: prod.splits)

lemma step_alloc: "rt_alloc (fst (snd (ServeReturn_step frame sinkOk now (r, g) packet))) = rt_alloc r"
  by (simp add: ServeReturn_step_def split: option.splits prod.splits sum.splits)

text \<open>An IPv4 packet with the given endpoints, for the examples.\<close>

definition demo_packet :: "bytes \<Rightarrow> bytes \<Rightarrow> bytes" where
  "demo_packet src dst = [0x45] @ replicate 11 0 @ src @ dst"

lemma parse_demo_packet:
  assumes "length src = 4" and "length dst = 4"
  shows "parseIPv4 (demo_packet src dst) = Some (AddrFrom4 src, AddrFrom4 dst)"
proof -
  have "drop_bit 4 (0x45 :: byte) = 4" "unat (0x45 AND 0x0f :: byte) = 5" by simp_all
  then show ?thesis
    using assms by (simp add: parseIPv4_def demo_packet_def ipv4HeaderMinLen_def slice_def Let_def)
qed

section \<open>Properties\<close>

text \<open>
  C20. Reverse-path filter: \<^verbatim>\<open>Egress\<close> writes at most the given packet to the device, and only when its
  inner source address is the one leased to the sending session, which no other session holds;
  every other packet is dropped with its reason and an error.
\<close>

theorem egress_filtered:
  assumes "alloc_inv (rt_alloc r)" and "Router_Egress r sid p devOk = (res, effs)"
  shows "(TunWrite q \<in> set effs \<longleftrightarrow>
            q = p \<and> (\<exists>src dst. parseIPv4 p = Some (src, dst) \<and> LeaseOf (rt_alloc r) sid = Some src)) \<and>
         (TunWrite q \<in> set effs \<longrightarrow>
            (\<exists>src dst. parseIPv4 p = Some (src, dst) \<and> (\<forall>t. LeaseOf (rt_alloc r) t = Some src \<longrightarrow> t = sid))) \<and>
         (res = Inr () \<longleftrightarrow> Forwarded (length p) \<in> set effs) \<and>
         (res \<noteq> Inr () \<longleftrightarrow> (\<exists>reason. Dropped reason \<in> set effs))"
  using assms(2) leases.exclusive [OF assms(1)]
  by (auto simp: Router_Egress_def split: option.splits prod.splits if_splits)

theorem egress_filtered_witness:
  "\<exists>x r. alloc_inv (rt_alloc r) \<and> LeaseOf (rt_alloc r) [1] = Some x \<and>
     snd (Router_Egress r [1] (demo_packet [10, 8, 0, 6] [1, 1, 1, 1]) True) =
       [TunWrite (demo_packet [10, 8, 0, 6] [1, 1, 1, 1]), Forwarded 20]"
proof -
  let ?a = "snd (Allocate demo_allocator [1])" and ?p = "demo_packet [10, 8, 0, 6] [1, 1, 1, 1]"
  let ?r = "\<lparr>rt_alloc = ?a, rt_paths = NewPathSet 0\<rparr>"
  have inv: "alloc_inv ?a" using Allocate_inv NewAllocator_inv [OF demo_allocator_new] by blast
  have l: "LeaseOf ?a [1] = Some (V4 0x0A080006)"
    by (simp add: Allocate_def LeaseOf_def demo_allocator_def Let_def)
  have p: "parseIPv4 ?p = Some (V4 0x0A080006, AddrFrom4 [1, 1, 1, 1])"
    using parse_demo_packet [of "[10, 8, 0, 6]" "[1, 1, 1, 1]"] by (simp add: AddrFrom4_def)
  obtain res effs where e: "Router_Egress ?r [1] ?p True = (res, effs)" by fastforce
  from egress_filtered [OF _ this, of "?p"] inv l p have "TunWrite ?p \<in> set effs" by auto
  with e l p inv show ?thesis
    by (intro exI [of _ "V4 0x0A080006"] exI [of _ ?r]) (auto simp: Router_Egress_def demo_packet_def)
qed

text \<open>
  C21. Return demultiplexing: a packet from the internet is sent only when its destination is
  leased, framed for the one session that holds the address, exactly once to each endpoint that is
  fresh for that session, and to nobody else; the lease table does not change.
\<close>

theorem return_demultiplexed:
  assumes "alloc_inv (rt_alloc r)" and "ServeReturn_step frame sinkOk now (r, g) packet = (effs, r', g')"
  shows "rt_alloc r' = rt_alloc r \<and>
    (sends effs = [] \<or>
     (\<exists>src dst sid framed. parseIPv4 packet = Some (src, dst) \<and> LeaseOf (rt_alloc r) sid = Some dst \<and>
        (\<forall>t. LeaseOf (rt_alloc r) t = Some dst \<longrightarrow> t = sid) \<and> fst (frame g sid packet) = Inr framed \<and>
        sends effs = map (\<lambda>ep. (framed, ep)) (fst (PathSet_Fresh (rt_paths r) now sid))))"
proof -
  let ?goal = "\<exists>src dst sid framed. parseIPv4 packet = Some (src, dst) \<and> LeaseOf (rt_alloc r) sid = Some dst \<and>
        (\<forall>t. LeaseOf (rt_alloc r) t = Some dst \<longrightarrow> t = sid) \<and> fst (frame g sid packet) = Inr framed \<and>
        sends effs = map (\<lambda>ep. (framed, ep)) (fst (PathSet_Fresh (rt_paths r) now sid))"
  have drop: "sends [Dropped x] = []" for x by (simp add: sends_def)
  have "sends effs = [] \<or> ?goal"
  proof (cases "\<exists>src dst sid framed. parseIPv4 packet = Some (src, dst) \<and> Lookup (rt_alloc r) dst = Some sid \<and>
      fst (frame g sid packet) = Inr framed")
    case True
    then obtain src dst sid framed where s: "parseIPv4 packet = Some (src, dst)" "Lookup (rt_alloc r) dst = Some sid"
      "fst (frame g sid packet) = Inr framed" by blast
    then have eff: "effs = sendAll sinkOk framed (fst (PathSet_Fresh (rt_paths r) now sid))"
      using assms(2) by (cases "frame g sid packet") (simp add: ServeReturn_step_def split: prod.splits)
    have se: "sends effs = map (\<lambda>ep. (framed, ep)) (fst (PathSet_Fresh (rt_paths r) now sid))"
      unfolding eff by (rule sends_sendAll)
    have l: "LeaseOf (rt_alloc r) sid = Some dst" using s(2) leases.lookup_iff [OF assms(1)] by blast
    then have "\<forall>t. LeaseOf (rt_alloc r) t = Some dst \<longrightarrow> t = sid" using leases.exclusive [OF assms(1)] by blast
    with s(1,3) l se show ?thesis by blast
  next
    case False
    with assms(2) have "\<exists>x. effs = [Dropped x]"
      by (auto simp: ServeReturn_step_def split: option.splits prod.splits sum.splits)
    with drop show ?thesis by auto
  qed
  with step_alloc [of frame sinkOk now r g packet] assms(2) show ?thesis by simp
qed

theorem return_demultiplexed_witness:
  "\<exists>r r' g' effs. alloc_inv (rt_alloc r) \<and>
     ServeReturn_step (\<lambda>g sid p. (Inr p :: (unit, bytes) result, g)) (\<lambda>_. True) 5 (r, ()) (demo_packet [1, 1, 1, 1] [10, 8, 0, 6]) =
       (effs, r', g') \<and>
     sends effs = [(demo_packet [1, 1, 1, 1] [10, 8, 0, 6], AddrPort (V4 7) 80)] \<and> rt_alloc r' = rt_alloc r"
proof -
  let ?a = "snd (Allocate demo_allocator [1])" and ?p = "demo_packet [1, 1, 1, 1] [10, 8, 0, 6]"
  let ?r = "\<lparr>rt_alloc = ?a, rt_paths = PathSet_Record (NewPathSet 10) 1 [1] (AddrPort (V4 7) 80)\<rparr>"
  let ?f = "\<lambda>(g :: unit) (sid :: SessionID) p. (Inr p :: (unit, bytes) result, g)"
  have inv: "alloc_inv (rt_alloc ?r)" using Allocate_inv NewAllocator_inv [OF demo_allocator_new] by simp
  have l: "Lookup ?a (V4 0x0A080006) = Some [1]"
    by (simp add: Allocate_def Lookup_def demo_allocator_def Let_def)
  have p: "parseIPv4 ?p = Some (AddrFrom4 [1, 1, 1, 1], V4 0x0A080006)"
    using parse_demo_packet [of "[1, 1, 1, 1]" "[10, 8, 0, 6]"] by (simp add: AddrFrom4_def)
  have fresh: "fst (PathSet_Fresh (rt_paths ?r) 5 [1]) = [AddrPort (V4 7) 80]"
    by (simp add: Fresh_result PathSet_Record_def NewPathSet_def entries_of_def Time_Add_def dur_neg_def wrap64_def)
  obtain effs r' g' where e: "ServeReturn_step ?f (\<lambda>_. True) 5 (?r, ()) ?p = (effs, r', g')" by (metis prod_cases3)
  then have "sends effs = [(?p, AddrPort (V4 7) 80)]"
    using l p fresh by (auto simp: ServeReturn_step_def sends_def split: prod.splits)
  with return_demultiplexed [OF inv e] e inv show ?thesis
    by (intro exI [of _ ?r] exI [of _ r'] exI [of _ g'] exI [of _ effs]) simp
qed

end
