(* ===== verification/Go_Strings.thy ===== *)
theory Go_Strings
  imports Gemina_Prelude "HOL-Library.Sublist"
begin

text \<open>
  The parts of \<^verbatim>\<open>strings\<close>, \<^verbatim>\<open>strconv\<close>, \<^verbatim>\<open>encoding/base64\<close> and \<^verbatim>\<open>encoding/hex\<close> that the modelled
  packages call, on strings as byte sequences, with the round trips the token format rests on.
\<close>

section \<open>Searching and splitting\<close>

fun strings_Contains :: "string \<Rightarrow> string \<Rightarrow> bool" where
  "strings_Contains [] sub = (sub = [])"
| "strings_Contains (c # cs) sub = (prefix sub (c # cs) \<or> strings_Contains cs sub)"

text \<open>\<^verbatim>\<open>strings.Cut\<close> at a one-byte separator: before, after, found.\<close>

fun strings_Cut :: "string \<Rightarrow> char \<Rightarrow> string \<times> string \<times> bool" where
  "strings_Cut [] sep = ([], [], False)"
| "strings_Cut (c # cs) sep =
     (if c = sep then ([], cs, True)
      else case strings_Cut cs sep of (b, a, ok) \<Rightarrow> (c # b, a, ok))"

text \<open>\<^verbatim>\<open>strings.Split\<close> and \<^verbatim>\<open>strings.SplitN\<close> (with a positive count) at a one-byte separator.\<close>

fun strings_Split :: "string \<Rightarrow> char \<Rightarrow> string list" where
  "strings_Split [] sep = [[]]"
| "strings_Split (c # cs) sep =
     (if c = sep then [] # strings_Split cs sep
      else case strings_Split cs sep of [] \<Rightarrow> [[c]] | f # fs \<Rightarrow> (c # f) # fs)"

fun strings_SplitN :: "string \<Rightarrow> char \<Rightarrow> nat \<Rightarrow> string list" where
  "strings_SplitN s sep 0 = []"
| "strings_SplitN s sep (Suc 0) = [s]"
| "strings_SplitN s sep (Suc (Suc n)) =
     (case strings_Cut s sep of (b, a, ok) \<Rightarrow> if ok then b # strings_SplitN a sep (Suc n) else [s])"

lemma Contains_char [simp]: "strings_Contains s [c] \<longleftrightarrow> c \<in> set s"
  by (induction s) auto

lemma Cut_found: "sep \<notin> set b \<Longrightarrow> strings_Cut (b @ sep # a) sep = (b, a, True)"
  by (induction b) auto

lemma Cut_none: "sep \<notin> set s \<Longrightarrow> strings_Cut s sep = (s, [], False)"
  by (induction s) auto

lemma Cut_inv: "strings_Cut s sep = (b, a, True) \<longleftrightarrow> s = b @ sep # a \<and> sep \<notin> set b"
proof
  assume c: "strings_Cut s sep = (b, a, True)"
  then have "sep \<in> set s" using Cut_none by fastforce
  then obtain b' a' where s: "s = b' @ sep # a'" "sep \<notin> set b'" by (meson split_list_first)
  then have "strings_Cut s sep = (b', a', True)" by (simp add: Cut_found)
  with c s show "s = b @ sep # a \<and> sep \<notin> set b" by simp
qed (simp add: Cut_found)

lemma Split_neq_Nil [simp]: "strings_Split s sep \<noteq> []"
  by (induction s) (auto split: list.splits)

lemma Split_single [simp]: "sep \<notin> set s \<Longrightarrow> strings_Split s sep = [s]"
  by (induction s) auto

lemma Split_append: "sep \<notin> set b \<Longrightarrow> strings_Split (b @ sep # a) sep = b # strings_Split a sep"
  by (induction b) auto

fun joined :: "char \<Rightarrow> string list \<Rightarrow> string" where
  "joined sep [] = []"
| "joined sep [f] = f"
| "joined sep (f # fs) = f @ sep # joined sep fs"

lemma joined_Cons: "fs \<noteq> [] \<Longrightarrow> joined sep (f # fs) = f @ sep # joined sep fs"
  by (cases fs) auto

lemma Split_joined: "joined sep (strings_Split s sep) = s \<and> (\<forall>f \<in> set (strings_Split s sep). sep \<notin> set f)"
proof (induction s)
  case (Cons c cs)
  obtain f fs where f: "strings_Split cs sep = f # fs" by (cases "strings_Split cs sep") auto
  with Cons show ?case by (cases fs) auto
qed simp

section \<open>Trimming\<close>

text \<open>
  The UTF-8 encodings of the code points that \<^verbatim>\<open>unicode.IsSpace\<close> accepts. A byte sequence that is
  none of them, valid UTF-8 or not, is not trimmed.
\<close>

definition space_strings :: "string list" where
  "space_strings =
     [[CHR 0x09], [CHR 0x0A], [CHR 0x0B], [CHR 0x0C], [CHR 0x0D], [CHR 0x20], [CHR 0xC2, CHR 0x85], [CHR 0xC2, CHR 0xA0], [CHR 0xE1, CHR 0x9A, CHR 0x80]] @
     map (\<lambda>c. [CHR 0xE2, CHR 0x80, c])
       [CHR 0x80, CHR 0x81, CHR 0x82, CHR 0x83, CHR 0x84, CHR 0x85, CHR 0x86, CHR 0x87, CHR 0x88, CHR 0x89, CHR 0x8A, CHR 0xA8, CHR 0xA9, CHR 0xAF] @
     [[CHR 0xE2, CHR 0x81, CHR 0x9F], [CHR 0xE3, CHR 0x80, CHR 0x80]]"

text \<open>Strip one list of non-empty patterns from the front as long as one matches.\<close>

function strip_front :: "string list \<Rightarrow> string \<Rightarrow> string" where
  "strip_front pats s =
     (case find (\<lambda>p. p \<noteq> [] \<and> prefix p s) pats of
        None \<Rightarrow> s
      | Some p \<Rightarrow> strip_front pats (drop (length p) s))"
  by pat_completeness auto
termination
  by (relation "measure (\<lambda>(pats, s). length s)") (auto simp: find_Some_iff prefix_def)

declare strip_front.simps [simp del]

definition strings_TrimSpace :: "string \<Rightarrow> string" where
  "strings_TrimSpace s =
     (let l = strip_front space_strings s in rev (strip_front (map rev space_strings) (rev l)))"

section \<open>Decimal integers\<close>

function nat_digits :: "nat \<Rightarrow> string" where
  "nat_digits n = (if n < 10 then [char_of (48 + n)] else nat_digits (n div 10) @ [char_of (48 + n mod 10)])"
  by pat_completeness auto
termination
  by (relation "measure id") auto

declare nat_digits.simps [simp del]

definition FormatInt :: "int \<Rightarrow> string" where
  "FormatInt i = (if i < 0 then ''-'' @ nat_digits (nat (- i)) else nat_digits (nat i))"

definition is_digit :: "char \<Rightarrow> bool" where
  "is_digit c \<longleftrightarrow> 48 \<le> (of_char c :: nat) \<and> (of_char c :: nat) \<le> 57"

definition digits_value :: "string \<Rightarrow> nat" where
  "digits_value s = foldl (\<lambda>n c. n * 10 + (of_char c - 48)) 0 s"

text \<open>
  \<^verbatim>\<open>strconv.ParseInt(s, 10, 64)\<close>: an optional sign and at least one digit, within the range; every
  error is \<^term>\<open>None\<close>.
\<close>

definition ParseInt :: "string \<Rightarrow> int option" where
  "ParseInt s =
     (let (neg, ds) = (case s of [] \<Rightarrow> (False, [])
                       | c # cs \<Rightarrow> if c = CHR ''-'' then (True, cs) else if c = CHR ''+'' then (False, cs) else (False, s));
          v = (if neg then - int (digits_value ds) else int (digits_value ds))
      in if ds = [] \<or> \<not> list_all is_digit ds \<or> v < min_int64 \<or> v > max_int64 then None else Some v)"

lemma of_char_digit: "(n :: nat) < 10 \<Longrightarrow> of_char (char_of (48 + n) :: char) = 48 + n"
  by (simp add: of_char_of)

lemma is_digit_char: "(n :: nat) < 10 \<Longrightarrow> is_digit (char_of (48 + n))"
  by (simp add: is_digit_def of_char_digit)

lemma nat_digits_ok: "nat_digits n \<noteq> [] \<and> list_all is_digit (nat_digits n) \<and> digits_value (nat_digits n) = n"
proof (induction n rule: nat_digits.induct)
  case (1 n)
  show ?case
  proof (cases "n < 10")
    case True
    then have "nat_digits n = [char_of (48 + n)]" by (subst nat_digits.simps) simp
    with True show ?thesis by (simp add: is_digit_char digits_value_def of_char_digit)
  next
    case False
    with 1 have IH: "list_all is_digit (nat_digits (n div 10))" "digits_value (nat_digits (n div 10)) = n div 10" by auto
    have eq: "nat_digits n = nat_digits (n div 10) @ [char_of (48 + n mod 10)]"
      using False by (subst nat_digits.simps) simp
    have "(of_char (char_of (48 + n mod 10) :: char) :: nat) = 48 + n mod 10" "is_digit (char_of (48 + n mod 10))"
      by (simp_all add: of_char_digit is_digit_char)
    with IH show ?thesis unfolding eq by (simp add: digits_value_def)
  qed
qed

lemma not_digit_sign: "\<not> is_digit (CHR ''-'')" "\<not> is_digit (CHR ''+'')" "\<not> is_digit (CHR ''|'')"
  by (simp_all add: is_digit_def)

lemma ParseInt_Format:
  assumes "min_int64 \<le> i" and "i \<le> max_int64"
  shows "ParseInt (FormatInt i) = Some i"
proof (cases "i < 0")
  case True
  note d = nat_digits_ok [of "nat (- i)"]
  show ?thesis using True d assms by (simp add: ParseInt_def FormatInt_def Let_def)
next
  case False
  note d = nat_digits_ok [of "nat i"]
  obtain c cs where c: "nat_digits (nat i) = c # cs" using d by (cases "nat_digits (nat i)") auto
  with d have "is_digit c" by simp
  then have "c \<noteq> CHR ''-''" "c \<noteq> CHR ''+''" using not_digit_sign by auto
  then show ?thesis using False d c assms by (simp add: ParseInt_def FormatInt_def Let_def)
qed

lemma FormatInt_no_bar: "CHR ''|'' \<notin> set (FormatInt i)"
  using nat_digits_ok [of "nat i"] nat_digits_ok [of "nat (- i)"] not_digit_sign(3)
  by (auto simp: FormatInt_def list_all_iff)

section \<open>Unpadded URL-safe base64\<close>

text \<open>\<^verbatim>\<open>base64.RawURLEncoding\<close>.\<close>

definition b64_alphabet :: string where
  "b64_alphabet = ''ABCDEFGHIJKLMNOPQRSTUVWXYZabcdefghijklmnopqrstuvwxyz0123456789-_''"

definition b64_char :: "nat \<Rightarrow> char" where
  "b64_char n = b64_alphabet ! n"

definition b64_index :: "char \<Rightarrow> nat option" where
  "b64_index c = (case find (\<lambda>i. b64_alphabet ! i = c) [0..<64] of None \<Rightarrow> None | Some i \<Rightarrow> Some i)"

fun b64_sextets :: "nat list \<Rightarrow> nat list" where
  "b64_sextets (a # b # c # rest) =
     (let v = a * 65536 + b * 256 + c in
      [v div 262144 mod 64, v div 4096 mod 64, v div 64 mod 64, v mod 64] @ b64_sextets rest)"
| "b64_sextets [a, b] = (let v = a * 65536 + b * 256 in [v div 262144 mod 64, v div 4096 mod 64, v div 64 mod 64])"
| "b64_sextets [a] = (let v = a * 65536 in [v div 262144 mod 64, v div 4096 mod 64])"
| "b64_sextets [] = []"

definition b64_EncodeToString :: "bytes \<Rightarrow> string" where
  "b64_EncodeToString src = map b64_char (b64_sextets (map unat src))"

text \<open>
  The decoder skips carriage returns and line feeds, refuses every other byte outside the alphabet and a
  last group of one sextet, and ignores the unused bits of a short last group.
\<close>

fun b64_octets :: "nat list \<Rightarrow> nat list option" where
  "b64_octets (a # b # c # d # rest) =
     (let v = a * 262144 + b * 4096 + c * 64 + d in
      case b64_octets rest of
        None \<Rightarrow> None
      | Some os \<Rightarrow> Some ([v div 65536 mod 256, v div 256 mod 256, v mod 256] @ os))"
| "b64_octets [a, b, c] =
     (let v = a * 262144 + b * 4096 + c * 64 in Some [v div 65536 mod 256, v div 256 mod 256])"
| "b64_octets [a, b] = (let v = a * 262144 + b * 4096 in Some [v div 65536 mod 256])"
| "b64_octets [a] = None"
| "b64_octets [] = Some []"

definition b64_DecodeString :: "string \<Rightarrow> bytes option" where
  "b64_DecodeString s =
     (let cs = filter (\<lambda>c. c \<noteq> CHR 0x0A \<and> c \<noteq> CHR 0x0D) s;
          is = map b64_index cs
      in if None \<in> set is then None
         else case b64_octets (map the is) of None \<Rightarrow> None | Some os \<Rightarrow> Some (map of_nat os))"

lemma b64_alphabet_length [simp]: "length b64_alphabet = 64"
  by (simp add: b64_alphabet_def)

lemma b64_alphabet_distinct: "distinct b64_alphabet"
  by (simp add: b64_alphabet_def)

lemma b64_index_char [simp]: "n < 64 \<Longrightarrow> b64_index (b64_char n) = Some n"
proof -
  assume n: "n < 64"
  have "find (\<lambda>i. b64_alphabet ! i = b64_char n) [0..<64] = Some n"
    using n b64_alphabet_distinct
    by (auto simp: find_Some_iff b64_char_def nth_eq_iff_index_eq intro!: exI [of _ n])
  then show ?thesis by (simp add: b64_index_def)
qed

lemma b64_alphabet_plain: "CHR 0x0A \<notin> set b64_alphabet" "CHR 0x0D \<notin> set b64_alphabet"
  "CHR ''.'' \<notin> set b64_alphabet" "CHR ''|'' \<notin> set b64_alphabet"
  by (simp_all add: b64_alphabet_def)

lemma b64_sextets_less: "\<forall>n \<in> set (b64_sextets bs). n < 64"
  by (induction bs rule: b64_sextets.induct) (auto simp: Let_def)

lemma base256:
  fixes a b c :: nat
  assumes "a < 256" and "b < 256" and "c < 256"
  shows "a * 65536 + b * 256 + c < 16777216" "(a * 65536 + b * 256 + c) div 65536 mod 256 = a"
    "(a * 65536 + b * 256 + c) div 256 mod 256 = b" "(a * 65536 + b * 256 + c) mod 256 = c"
proof -
  let ?v = "a * 65536 + b * 256 + c"
  have v: "?v = c + (b + a * 256) * 256" by simp
  have d: "?v div 256 = b + a * 256" "?v mod 256 = c"
    unfolding v using assms(3) by (simp_all only: div_mult_self3 mod_mult_self3 div_mult_self1 mod_mult_self1) simp_all
  have "?v div 65536 = ?v div 256 div 256" by (simp add: div_mult2_eq [symmetric])
  then have "?v div 65536 = a" unfolding d(1) using assms(2) by simp
  then show "?v div 65536 mod 256 = a" using assms(1) by simp
  show "?v div 256 mod 256 = b" unfolding d(1) using assms(2) by simp
  show "?v mod 256 = c" by (rule d(2))
  show "?v < 16777216" using assms by linarith
qed

lemma base64:
  fixes v :: nat
  assumes "v < 16777216"
  shows "(v div 262144 mod 64) * 262144 + (v div 4096 mod 64) * 4096 + (v div 64 mod 64) * 64 + v mod 64 = v"
proof -
  have e: "v div 4096 = v div 64 div 64" "v div 262144 = v div 64 div 64 div 64"
    by (simp_all add: div_mult2_eq [symmetric])
  have "v div 64 div 64 div 64 mod 64 = v div 64 div 64 div 64"
    using assms by (simp add: div_mult2_eq [symmetric])
  moreover have "v = v div 64 * 64 + v mod 64" "v div 64 = v div 64 div 64 * 64 + v div 64 mod 64"
    "v div 64 div 64 = v div 64 div 64 div 64 * 64 + v div 64 div 64 mod 64" by simp_all
  ultimately show ?thesis unfolding e by linarith
qed

lemma b64_octets_sextets: "\<forall>n \<in> set bs. n < 256 \<Longrightarrow> b64_octets (b64_sextets bs) = Some bs"
proof (induction bs rule: b64_sextets.induct)
  case (1 a b c rest)
  define v where "v = a * 65536 + b * 256 + c"
  have "a < 256" "b < 256" "c < 256" using 1 by auto
  note v = base256 [OF this, folded v_def]
  have "b64_octets (b64_sextets rest) = Some rest" using 1 by simp
  then show ?case
    by (simp only: b64_sextets.simps Let_def append.simps b64_octets.simps v_def [symmetric] base64 [OF v(1)] v
        option.case)
next
  case (2 a b)
  define v where "v = a * 65536 + b * 256 + 0"
  have "a < 256" "b < 256" "(0::nat) < 256" using 2 by auto
  note v = base256 [OF this, folded v_def]
  have "v = 64 * (a * 1024 + b * 4)" by (simp add: v_def)
  then have "v mod 64 = 0" by (simp only: mod_mult_self1_is_0)
  with base64 [OF v(1)] have "(v div 262144 mod 64) * 262144 + (v div 4096 mod 64) * 4096 + (v div 64 mod 64) * 64 = v"
    by linarith
  moreover have "a * 65536 + b * 256 = v" by (simp add: v_def)
  ultimately show ?case by (simp only: b64_sextets.simps Let_def b64_octets.simps v)
next
  case (3 a)
  define v where "v = a * 65536 + 0 * 256 + 0"
  have "a < 256" "(0::nat) < 256" using 3 by auto
  note v = base256 [OF this(1,2,2), folded v_def]
  have "v = 64 * (a * 1024)" "v div 64 = 64 * (a * 16)" by (simp_all add: v_def)
  then have "v mod 64 = 0" "v div 64 mod 64 = 0" by (simp_all only: mod_mult_self1_is_0)
  with base64 [OF v(1)] have "(v div 262144 mod 64) * 262144 + (v div 4096 mod 64) * 4096 = v" by linarith
  moreover have "a * 65536 = v" by (simp add: v_def)
  ultimately show ?case by (simp only: b64_sextets.simps Let_def b64_octets.simps v)
qed simp

lemma b64_Encode_chars: "set (b64_EncodeToString src) \<subseteq> set b64_alphabet"
  using b64_sextets_less [of "map unat src"] by (auto simp: b64_EncodeToString_def b64_char_def)

lemma b64_Decode_Encode: "b64_DecodeString (b64_EncodeToString src) = Some src"
proof -
  let ?s = "b64_sextets (map unat src)"
  have less: "\<forall>n \<in> set ?s. n < 64" by (rule b64_sextets_less)
  have plain: "filter (\<lambda>c. c \<noteq> CHR 0x0A \<and> c \<noteq> CHR 0x0D) (b64_EncodeToString src) = b64_EncodeToString src"
    using b64_Encode_chars [of src] b64_alphabet_plain by (auto simp: filter_id_conv)
  have "map b64_index (b64_EncodeToString src) = map Some ?s"
    using less by (simp add: b64_EncodeToString_def)
  moreover have "\<forall>n \<in> set (map unat src). n < 256"
    using unsigned_less [where 'b = 8 and 'a = nat] by auto
  moreover have "None \<notin> set (map Some ?s)" by auto
  ultimately show ?thesis
    using b64_octets_sextets [of "map unat src"] plain
    by (simp add: b64_DecodeString_def Let_def comp_def del: set_map)
qed

section \<open>Hexadecimal\<close>

definition hex_char :: "nat \<Rightarrow> char" where
  "hex_char n = ''0123456789abcdef'' ! n"

definition hex_EncodeToString :: "bytes \<Rightarrow> string" where
  "hex_EncodeToString src = concat (map (\<lambda>b. [hex_char (unat b div 16), hex_char (unat b mod 16)]) src)"

definition hex_value :: "char \<Rightarrow> nat option" where
  "hex_value c =
     (let n = of_char c in
      if 48 \<le> n \<and> n \<le> 57 then Some (n - 48)
      else if 97 \<le> n \<and> n \<le> 102 then Some (n - 87)
      else if 65 \<le> n \<and> n \<le> 70 then Some (n - 55)
      else None)"

fun hex_DecodeString :: "string \<Rightarrow> bytes option" where
  "hex_DecodeString [] = Some []"
| "hex_DecodeString [c] = None"
| "hex_DecodeString (c # d # rest) =
     (case (hex_value c, hex_value d, hex_DecodeString rest) of
        (Some a, Some b, Some bs) \<Rightarrow> Some (of_nat (a * 16 + b) # bs)
      | _ \<Rightarrow> None)"

lemma hex_value_char: "n < 16 \<Longrightarrow> hex_value (hex_char n) = Some n"
proof -
  assume "n < 16"
  then have "n \<in> set [0..<16]" by simp
  moreover have "list_all (\<lambda>n. hex_value (hex_char n) = Some n) [0..<16]"
    by (simp add: upt_rec hex_value_def hex_char_def Let_def)
  ultimately show ?thesis by (auto simp: list_all_iff)
qed

lemma hex_Decode_Encode: "hex_DecodeString (hex_EncodeToString src) = Some src"
proof (induction src)
  case (Cons b src)
  have "unat b < 256" using unsigned_less [of b] by simp
  then have "hex_value (hex_char (unat b div 16)) = Some (unat b div 16)"
    "hex_value (hex_char (unat b mod 16)) = Some (unat b mod 16)" by (simp_all add: hex_value_char)
  moreover have "(of_nat (unat b div 16 * 16 + unat b mod 16) :: byte) = b" by (simp only: div_mult_mod_eq) simp
  ultimately show ?case using Cons by (simp add: hex_EncodeToString_def)
qed (simp add: hex_EncodeToString_def)

end
