(* ===== verification/Entitlement.thy ===== *)
theory Entitlement
  imports Go_Strings Crypto_Api
begin

text \<open>
  Entitlement tokens and the entitlement service (\<^verbatim>\<open>internal/entitlement/token.go\<close>, \<^verbatim>\<open>service.go\<close>
  and the provider interface of \<^verbatim>\<open>provider.go\<close>). HMAC-SHA256 is a field of the cryptography record; the
  clock reading is an argument.
\<close>

section \<open>Claims and errors\<close>

type_synonym Tier = string

definition TierHosted :: Tier where "TierHosted = ''hosted''"
definition TierSelfHosted :: Tier where "TierSelfHosted = ''self-hosted''"

definition validTier :: "Tier \<Rightarrow> bool" where
  "validTier t \<longleftrightarrow> t = TierHosted"

record Claims =
  cl_Subject :: string
  cl_Tier :: Tier
  cl_Expiry :: int

text \<open>A \<^verbatim>\<open>ProviderError\<close> carries the operation and the message of the wrapped error.\<close>

datatype ent_error =
    ErrMalformedToken | ErrBadSignature | ErrExpired | ErrInvalidClaims | ErrNoKey | ErrNotConfigured
  | ProviderError string string

section \<open>Tokens\<close>

definition sign :: "crypto \<Rightarrow> string \<Rightarrow> bytes \<Rightarrow> string" where
  "sign C payload key = b64_EncodeToString (hmac_sha256 C key (str_bytes payload))"

definition Issue :: "crypto \<Rightarrow> Claims \<Rightarrow> bytes \<Rightarrow> (ent_error, string) result" where
  "Issue C c key =
     (if length key = 0 then Inl ErrNoKey
      else if cl_Subject c = '''' \<or> strings_Contains (cl_Subject c) ''|'' then Inl ErrInvalidClaims
      else if \<not> validTier (cl_Tier c) then Inl ErrInvalidClaims
      else if cl_Expiry c \<le> 0 then Inl ErrInvalidClaims
      else
        let raw = cl_Subject c @ ''|'' @ cl_Tier c @ ''|'' @ FormatInt (cl_Expiry c);
            payload = b64_EncodeToString (str_bytes raw);
            sig = sign C payload key
        in Inr (payload @ ''.'' @ sig))"

definition Verify :: "crypto \<Rightarrow> string \<Rightarrow> bytes \<Rightarrow> go_time \<Rightarrow> (ent_error, Claims) result" where
  "Verify C token key now =
     (if length key = 0 then Inl ErrNoKey
      else case strings_Cut token (CHR ''.'') of (payload, gotSig, ok) \<Rightarrow>
        if \<not> ok \<or> payload = '''' \<or> gotSig = '''' then Inl ErrMalformedToken
        else
          let wantSig = sign C payload key in
          if str_bytes gotSig \<noteq> str_bytes wantSig then Inl ErrBadSignature
          else case b64_DecodeString payload of
            None \<Rightarrow> Inl ErrMalformedToken
          | Some raw \<Rightarrow>
              let parts = strings_Split (bytes_str raw) (CHR ''|'') in
              if length parts \<noteq> 3 then Inl ErrMalformedToken
              else case ParseInt (parts ! 2) of
                None \<Rightarrow> Inl ErrMalformedToken
              | Some exp \<Rightarrow>
                  let c = \<lparr>cl_Subject = parts ! 0, cl_Tier = parts ! 1, cl_Expiry = exp\<rparr> in
                  if \<not> validTier (cl_Tier c) then Inl ErrInvalidClaims
                  else if Time_Unix_seconds now > cl_Expiry c then Inl ErrExpired
                  else Inr c)"

section \<open>The service\<close>

record CheckoutSession =
  cs_ID :: string
  cs_Subject :: string
  cs_Tier :: Tier
  cs_URL :: string

record PaymentEvent =
  ev_Subject :: string
  ev_Tier :: Tier
  ev_Paid :: bool

text \<open>What the service uses of a \<^verbatim>\<open>PaymentProvider\<close>: its \<^verbatim>\<open>VerifyWebhook\<close>, as a function.\<close>

type_synonym VerifyWebhook = "bytes \<Rightarrow> string \<Rightarrow> (ent_error, PaymentEvent) result"

definition providerErr :: "string \<Rightarrow> string \<Rightarrow> ent_error" where
  "providerErr opname err = ProviderError opname err"

datatype Mode = ModeOpen | ModeHosted

record Service =
  sv_Mode :: Mode
  sv_Key :: bytes
  sv_Provider :: "VerifyWebhook option"
  sv_TokenTTL :: duration

definition OnPaymentEvent :: "crypto \<Rightarrow> go_time \<Rightarrow> Service \<Rightarrow> bytes \<Rightarrow> string \<Rightarrow> (ent_error, string) result" where
  "OnPaymentEvent C now s payload signature =
     (case sv_Provider s of
        None \<Rightarrow> Inl ErrNotConfigured
      | Some verify \<Rightarrow>
          if length (sv_Key s) = 0 then Inl ErrNotConfigured
          else res_bind (verify payload signature) (\<lambda>ev.
            if \<not> ev_Paid ev then Inl ErrInvalidClaims
            else
              let claims = \<lparr>cl_Subject = ev_Subject ev, cl_Tier = ev_Tier ev,
                            cl_Expiry = Time_Unix_seconds (Time_Add now (sv_TokenTTL s))\<rparr>
              in Issue C claims (sv_Key s)))"

definition Admit :: "crypto \<Rightarrow> go_time \<Rightarrow> Service \<Rightarrow> string \<Rightarrow> (ent_error, Claims) result" where
  "Admit C now s token =
     (if sv_Mode s = ModeOpen then Inr \<lparr>cl_Subject = '''', cl_Tier = TierSelfHosted, cl_Expiry = 0\<rparr>
      else if length (sv_Key s) = 0 then Inl ErrNotConfigured
      else if token = '''' then Inl ErrMalformedToken
      else res_bind (Verify C token (sv_Key s) now) (\<lambda>claims.
        if cl_Tier claims \<noteq> TierHosted then Inl ErrInvalidClaims
        else Inr claims))"

section \<open>Lemmas\<close>

definition payload_of :: "Claims \<Rightarrow> string" where
  "payload_of c = b64_EncodeToString (str_bytes (cl_Subject c @ ''|'' @ cl_Tier c @ ''|'' @ FormatInt (cl_Expiry c)))"

definition issuable :: "Claims \<Rightarrow> bool" where
  "issuable c \<longleftrightarrow> cl_Subject c \<noteq> '''' \<and> CHR ''|'' \<notin> set (cl_Subject c) \<and> cl_Tier c = TierHosted \<and> 0 < cl_Expiry c"

lemma Issue_eq:
  "Issue C c key = (if key = [] then Inl ErrNoKey else if issuable c then Inr (payload_of c @ ''.'' @ sign C (payload_of c) key)
     else Inl ErrInvalidClaims)"
  by (auto simp: Issue_def Let_def payload_of_def issuable_def validTier_def)

lemma payload_of_fields:
  assumes "issuable c"
  shows "\<exists>raw. b64_DecodeString (payload_of c) = Some raw \<and>
           strings_Split (bytes_str raw) (CHR ''|'') = [cl_Subject c, cl_Tier c, FormatInt (cl_Expiry c)]"
proof -
  have "CHR ''|'' \<notin> set TierHosted" by (simp add: TierHosted_def)
  then show ?thesis
    using assms FormatInt_no_bar
    by (auto simp: payload_of_def b64_Decode_Encode issuable_def Split_append)
qed

lemma payload_of_no_dot: "CHR ''.'' \<notin> set (payload_of c)"
  unfolding payload_of_def using b64_Encode_chars b64_alphabet_plain(3) by blast

lemma payload_of_nonempty: "issuable c \<Longrightarrow> payload_of c \<noteq> []"
  using payload_of_fields [of c] by (auto simp: b64_DecodeString_def bytes_str_def)

lemma b64_Encode_nonempty: "src \<noteq> [] \<Longrightarrow> b64_EncodeToString src \<noteq> []"
  using b64_Decode_Encode [of src] by (auto simp: b64_DecodeString_def)

definition hmac_nonempty :: "crypto \<Rightarrow> bool" where
  "hmac_nonempty C \<longleftrightarrow> (\<forall>k m. hmac_sha256 C k m \<noteq> [])"

lemma demo_hmac [simp]: "hmac_nonempty demo_crypto"
  by (simp add: hmac_nonempty_def demo_crypto_def)

lemma Verify_issued:
  assumes "hmac_nonempty C" and "issuable c" and "key \<noteq> []" and "cl_Expiry c \<le> max_int64"
  shows "Verify C (payload_of c @ ''.'' @ sign C (payload_of c) key) key now =
           (if Time_Unix_seconds now > cl_Expiry c then Inl ErrExpired else Inr c)"
proof -
  obtain raw where raw: "b64_DecodeString (payload_of c) = Some raw"
    "strings_Split (bytes_str raw) (CHR ''|'') = [cl_Subject c, cl_Tier c, FormatInt (cl_Expiry c)]"
    using payload_of_fields [OF assms(2)] by blast
  have "strings_Cut (payload_of c @ CHR ''.'' # sign C (payload_of c) key) (CHR ''.'') =
      (payload_of c, sign C (payload_of c) key, True)" by (rule Cut_found) (rule payload_of_no_dot)
  moreover have "sign C (payload_of c) key \<noteq> []"
    using assms(1) by (simp add: sign_def hmac_nonempty_def b64_Encode_nonempty)
  moreover have "ParseInt (FormatInt (cl_Expiry c)) = Some (cl_Expiry c)"
    using assms(2,4) by (intro ParseInt_Format) (simp_all add: issuable_def min_int64_def)
  ultimately show ?thesis
    using raw assms(2,3) payload_of_nonempty [OF assms(2)]
    by (simp add: Verify_def Let_def issuable_def validTier_def)
qed

lemma Verify_Inr:
  assumes "Verify C token key now = Inr c"
  shows "key \<noteq> []" "cl_Tier c = TierHosted" "Time_Unix_seconds now \<le> cl_Expiry c"
    "\<exists>payload raw e. token = payload @ ''.'' @ sign C payload key \<and> b64_DecodeString payload = Some raw \<and>
       bytes_str raw = cl_Subject c @ ''|'' @ cl_Tier c @ ''|'' @ e \<and> ParseInt e = Some (cl_Expiry c)"
proof -
  obtain payload gotSig ok where cut: "strings_Cut token (CHR ''.'') = (payload, gotSig, ok)" by (metis prod_cases3)
  from assms cut obtain raw parts e where
    k: "key \<noteq> []" and ok: "ok" and sig: "gotSig = sign C payload key"
    and raw: "b64_DecodeString payload = Some raw" and parts: "strings_Split (bytes_str raw) (CHR ''|'') = parts"
      "length parts = 3" and e: "ParseInt (parts ! 2) = Some e"
    and c: "c = \<lparr>cl_Subject = parts ! 0, cl_Tier = parts ! 1, cl_Expiry = e\<rparr>" "validTier (parts ! 1)"
      "Time_Unix_seconds now \<le> e"
    by (auto simp: Verify_def Let_def split: if_splits option.splits)
  show "key \<noteq> []" "cl_Tier c = TierHosted" "Time_Unix_seconds now \<le> cl_Expiry c"
    using k c by (simp_all add: validTier_def)
  have "token = payload @ CHR ''.'' # gotSig" using cut ok Cut_inv by auto
  moreover obtain x y z where xyz: "parts = [x, y, z]" using parts(2) by (auto simp: length_Suc_conv numeral_3_eq_3)
  then have "bytes_str raw = x @ ''|'' @ y @ ''|'' @ z"
    using Split_joined [of "CHR ''|''" "bytes_str raw"] parts(1) by simp
  ultimately show "\<exists>payload raw e. token = payload @ ''.'' @ sign C payload key \<and> b64_DecodeString payload = Some raw \<and>
       bytes_str raw = cl_Subject c @ ''|'' @ cl_Tier c @ ''|'' @ e \<and> ParseInt e = Some (cl_Expiry c)"
    using sig raw e c(1) xyz by auto
qed

section \<open>The provider contract\<close>

text \<open>
  What the service relies on in a payment provider: an event it verifies is a completed
  payment for a tier that a token may carry.
\<close>

locale payment_provider =
  fixes verify :: VerifyWebhook
  assumes verified_paid: "verify payload sig = Inr ev \<Longrightarrow> ev_Paid ev"
    and verified_tier: "verify payload sig = Inr ev \<Longrightarrow> validTier (ev_Tier ev)"
begin

lemma OnPaymentEvent_eq:
  assumes "sv_Provider s = Some verify" and "sv_Key s \<noteq> []"
  shows "OnPaymentEvent C now s payload sig =
     res_bind (verify payload sig) (\<lambda>ev. Issue C \<lparr>cl_Subject = ev_Subject ev, cl_Tier = ev_Tier ev,
       cl_Expiry = Time_Unix_seconds (Time_Add now (sv_TokenTTL s))\<rparr> (sv_Key s))"
  using assms verified_paid by (cases "verify payload sig") (auto simp: OnPaymentEvent_def Let_def)

lemma minted_admitted:
  assumes "hmac_nonempty C" and "sv_Provider s = Some verify" and "OnPaymentEvent C now s payload sig = Inr tok"
    and "sv_Mode s = ModeHosted"
    and "Time_Unix_seconds later \<le> Time_Unix_seconds (Time_Add now (sv_TokenTTL s))"
  shows "\<exists>ev. verify payload sig = Inr ev \<and>
    Admit C later s tok = Inr \<lparr>cl_Subject = ev_Subject ev, cl_Tier = TierHosted,
       cl_Expiry = Time_Unix_seconds (Time_Add now (sv_TokenTTL s))\<rparr>"
proof -
  have key: "sv_Key s \<noteq> []" using assms(2,3) by (auto simp: OnPaymentEvent_def)
  with assms(2,3) obtain ev where ev: "verify payload sig = Inr ev"
    "Issue C \<lparr>cl_Subject = ev_Subject ev, cl_Tier = ev_Tier ev,
       cl_Expiry = Time_Unix_seconds (Time_Add now (sv_TokenTTL s))\<rparr> (sv_Key s) = Inr tok"
    by (auto simp: OnPaymentEvent_eq result_iff)
  let ?c = "\<lparr>cl_Subject = ev_Subject ev, cl_Tier = ev_Tier ev,
       cl_Expiry = Time_Unix_seconds (Time_Add now (sv_TokenTTL s))\<rparr>"
  have "ev_Tier ev = TierHosted" using verified_tier [OF ev(1)] by (simp add: validTier_def)
  moreover have i: "issuable ?c" and tok: "tok = payload_of ?c @ ''.'' @ sign C (payload_of ?c) (sv_Key s)"
    using ev(2) key by (auto simp: Issue_eq split: if_splits)
  moreover have "cl_Expiry ?c \<le> max_int64" using wrap64_range by (simp add: Time_Unix_seconds_def)
  ultimately show ?thesis
    using Verify_issued [OF assms(1) i key, of later] assms(4,5) key ev(1)
    by (auto simp: Admit_def)
qed

end

section \<open>Properties\<close>

text \<open>
  C28. Token round trip: a token issued for some claims verifies under the same key and returns exactly
  those claims, up to and including the second of its expiry, and is refused as expired after it.
\<close>

theorem token_roundtrip:
  assumes "hmac_nonempty C" and "Issue C c key = Inr token" and "cl_Expiry c \<le> max_int64"
  shows "Verify C token key now =
           (if Time_Unix_seconds now > cl_Expiry c then Inl ErrExpired else Inr c)"
  using assms(2) Verify_issued [OF assms(1) _ _ assms(3), of key now] by (auto simp: Issue_eq split: if_splits)

definition demo_claims :: Claims where
  "demo_claims = \<lparr>cl_Subject = ''acct_42'', cl_Tier = ''hosted'', cl_Expiry = 1800000000\<rparr>"

lemma demo_claims_issuable: "issuable demo_claims"
  by (simp add: issuable_def demo_claims_def TierHosted_def)

theorem token_roundtrip_witness:
  "\<exists>token. Issue demo_crypto demo_claims [1, 2] = Inr token \<and>
     Verify demo_crypto token [1, 2] (time_Unix 1800000000) = Inr demo_claims \<and>
     Verify demo_crypto token [1, 2] (time_Unix 1800000001) = Inl ErrExpired"
proof -
  obtain token where t: "Issue demo_crypto demo_claims [1, 2] = Inr token"
    using demo_claims_issuable by (simp add: Issue_eq)
  have "Time_Unix_seconds (time_Unix 1800000000) = 1800000000" "Time_Unix_seconds (time_Unix 1800000001) = 1800000001"
    by (simp_all add: Time_Unix_seconds_def time_Unix_def wrap64_def nanos_per_second_def unix_to_internal_def)
  with token_roundtrip [OF demo_hmac t, of "time_Unix 1800000000"]
    token_roundtrip [OF demo_hmac t, of "time_Unix 1800000001"] t
  show ?thesis by (simp add: demo_claims_def max_int64_def)
qed

text \<open>
  C29. \<^verbatim>\<open>Verify\<close> accepts only signed tokens: an accepted token is a payload, a dot and the signature of
  that payload under the key; the claims returned are the three fields of the payload, the tier is the
  hosted one and the token has not expired.
\<close>

theorem verify_sound:
  assumes "Verify C token key now = Inr c"
  shows "key \<noteq> [] \<and> cl_Tier c = TierHosted \<and> Time_Unix_seconds now \<le> cl_Expiry c \<and>
    (\<exists>payload raw e. token = payload @ ''.'' @ sign C payload key \<and> b64_DecodeString payload = Some raw \<and>
       bytes_str raw = cl_Subject c @ ''|'' @ cl_Tier c @ ''|'' @ e \<and> ParseInt e = Some (cl_Expiry c))"
  using Verify_Inr [OF assms] by simp

theorem verify_sound_witness:
  "\<exists>token payload. Verify demo_crypto token [1, 2] 0 = Inr demo_claims \<and>
     token = payload @ ''.'' @ sign demo_crypto payload [1, 2]"
proof -
  let ?t = "payload_of demo_claims @ ''.'' @ sign demo_crypto (payload_of demo_claims) [1, 2]"
  have "Verify demo_crypto ?t [1, 2] 0 = Inr demo_claims"
    using Verify_issued [OF demo_hmac demo_claims_issuable, of "[1, 2]" 0]
    by (simp add: demo_claims_def max_int64_def Time_Unix_seconds_def wrap64_def unix_to_internal_def)
  with verify_sound [OF this] show ?thesis by blast
qed

text \<open>
  The gate: an open service admits everyone, whatever the token, with self-hosted claims; a hosted
  service with a key admits exactly the tokens that verify now, and one without a key admits nobody.
\<close>

theorem admit_gate:
  "Admit C now s token = Inr c \<longleftrightarrow>
     (case sv_Mode s of
        ModeOpen \<Rightarrow> c = \<lparr>cl_Subject = '''', cl_Tier = TierSelfHosted, cl_Expiry = 0\<rparr>
      | ModeHosted \<Rightarrow> sv_Key s \<noteq> [] \<and> Verify C token (sv_Key s) now = Inr c)"
proof -
  have "token \<noteq> []" if "Verify C token (sv_Key s) now = Inr c"
    using Verify_Inr(4) [OF that] by auto
  moreover have "cl_Tier c = TierHosted" if "Verify C token (sv_Key s) now = Inr c"
    using Verify_Inr(2) [OF that] .
  ultimately show ?thesis by (cases "sv_Mode s") (auto simp: Admit_def result_iff)
qed

end
