(* ===== verification/Providers.thy ===== *)
theory Providers
  imports Entitlement "HOL-Library.List_Lexorder" "HOL-Library.Char_ord"
begin

text \<open>
  The two payment providers of \<^verbatim>\<open>internal/entitlement\<close>: the in-memory one (\<^verbatim>\<open>testing.go\<close>) and
  Stripe (\<^verbatim>\<open>stripe.go\<close>). Stripe's API and the JSON decoder are arguments. The message of an error is
  its format string without the formatted argument.
\<close>

section \<open>The in-memory provider\<close>

record FakeProvider =
  fk_secret :: bytes
  fk_sessions :: "string \<rightharpoonup> CheckoutSession"

definition NewFakeProvider :: "string \<Rightarrow> FakeProvider" where
  "NewFakeProvider secret = \<lparr>fk_secret = str_bytes secret, fk_sessions = Map.empty\<rparr>"

definition digest :: "crypto \<Rightarrow> bytes \<Rightarrow> string \<Rightarrow> bytes" where
  "digest C key msg = hmac_sha256 C key (str_bytes msg)"

definition Fake_CreateCheckout ::
  "crypto \<Rightarrow> FakeProvider \<Rightarrow> string \<Rightarrow> Tier \<Rightarrow> (ent_error, CheckoutSession) result \<times> FakeProvider" where
  "Fake_CreateCheckout C p subject tier =
     (if subject = '''' then (Inl (providerErr ''checkout'' ''empty subject''), p)
      else if \<not> validTier tier then (Inl (providerErr ''checkout'' ''unknown tier''), p)
      else
        let sid = ''cs_'' @ take 24 (hex_EncodeToString (digest C (fk_secret p) (subject @ ''|'' @ tier)));
            sess = \<lparr>cs_ID = sid, cs_Subject = subject, cs_Tier = tier, cs_URL = ''https://checkout.example.test/'' @ sid\<rparr>
        in (Inr sess, p\<lparr>fk_sessions := (fk_sessions p)(sid \<mapsto> sess)\<rparr>))"

definition SignedWebhook :: "crypto \<Rightarrow> FakeProvider \<Rightarrow> string \<Rightarrow> bytes \<times> string" where
  "SignedWebhook C p sessionID =
     (case fk_sessions p sessionID of
        None \<Rightarrow>
          let payload = str_bytes (''unknown:'' @ sessionID)
          in (payload, hex_EncodeToString (digest C (fk_secret p) (bytes_str payload)))
      | Some sess \<Rightarrow>
          let payload = str_bytes (''paid|'' @ cs_Subject sess @ ''|'' @ cs_Tier sess)
          in (payload, hex_EncodeToString (digest C (fk_secret p) (bytes_str payload))))"

definition Fake_VerifyWebhook :: "crypto \<Rightarrow> FakeProvider \<Rightarrow> VerifyWebhook" where
  "Fake_VerifyWebhook C p payload signature =
     (let want = digest C (fk_secret p) (bytes_str payload) in
      case hex_DecodeString signature of
        None \<Rightarrow> Inl (providerErr ''webhook'' ''malformed signature'')
      | Some got \<Rightarrow>
          if got \<noteq> want then Inl (providerErr ''webhook'' ''signature mismatch'')
          else
            let fields = strings_SplitN (bytes_str payload) (CHR ''|'') 3 in
            if length fields \<noteq> 3 \<or> fields ! 0 \<noteq> ''paid'' then Inl (providerErr ''webhook'' ''unrecognised event'')
            else
              let tier = fields ! 2 in
              if \<not> validTier tier then Inl (providerErr ''webhook'' ''unknown tier'')
              else Inr \<lparr>ev_Subject = fields ! 1, ev_Tier = tier, ev_Paid = True\<rparr>)"

section \<open>Stripe\<close>

definition defaultStripeBaseURL :: string where "defaultStripeBaseURL = ''https://api.stripe.com''"
definition defaultWebhookTolerance :: duration where "defaultWebhookTolerance = 5 * 60 * nanos_per_second"

record StripeProvider =
  st_apiKey :: string
  st_whSecret :: bytes
  st_baseURL :: string
  st_tolerance :: duration

type_synonym StripeOption = "StripeProvider \<Rightarrow> StripeProvider"

definition WithBaseURL :: "string \<Rightarrow> StripeOption" where
  "WithBaseURL base p =
     (if base \<noteq> '''' then p\<lparr>st_baseURL := rev (dropWhile (\<lambda>c. c = CHR ''/'') (rev base))\<rparr> else p)"

definition WithWebhookTolerance :: "duration \<Rightarrow> StripeOption" where
  "WithWebhookTolerance d p = (if d > 0 then p\<lparr>st_tolerance := d\<rparr> else p)"

definition NewStripeProvider :: "string \<Rightarrow> string \<Rightarrow> StripeOption list \<Rightarrow> StripeProvider" where
  "NewStripeProvider apiKey webhookSecret opts =
     foldl (\<lambda>p opt. opt p)
       \<lparr>st_apiKey = apiKey, st_whSecret = str_bytes webhookSecret, st_baseURL = defaultStripeBaseURL,
        st_tolerance = defaultWebhookTolerance\<rparr> opts"

definition checkoutMode :: "Tier \<Rightarrow> string" where
  "checkoutMode tier = (if tier = TierHosted then ''subscription'' else ''payment'')"

text \<open>\<^verbatim>\<open>url.QueryEscape\<close> and \<^verbatim>\<open>url.Values.Encode\<close>, which sorts by key.\<close>

definition url_unreserved :: "char \<Rightarrow> bool" where
  "url_unreserved c \<longleftrightarrow>
     c \<in> set ''ABCDEFGHIJKLMNOPQRSTUVWXYZabcdefghijklmnopqrstuvwxyz0123456789-_.~''"

definition url_QueryEscape :: "string \<Rightarrow> string" where
  "url_QueryEscape s = concat (map (\<lambda>c.
     if url_unreserved c then [c]
     else if c = CHR '' '' then ''+''
     else [CHR 0x25, ''0123456789ABCDEF'' ! (of_char c div 16), ''0123456789ABCDEF'' ! (of_char c mod 16)]) s)"

definition url_Values_Encode :: "(string \<times> string) list \<Rightarrow> string" where
  "url_Values_Encode form =
     joined (CHR ''&'') (map (\<lambda>(k, v). url_QueryEscape k @ ''='' @ url_QueryEscape v) (sort_key fst form))"

record http_request =
  rq_URL :: string
  rq_Authorization :: string
  rq_ContentType :: string
  rq_Body :: string

text \<open>
  \<open>http_do\<close> sends the request: an error of the client or of reading the body, or the status and the body.
  \<open>json_checkout\<close> decodes the \<^verbatim>\<open>id\<close> and \<^verbatim>\<open>url\<close> fields.
\<close>

definition Stripe_CreateCheckout ::
  "(http_request \<Rightarrow> (string, int \<times> bytes) result) \<Rightarrow> (bytes \<Rightarrow> (string \<times> string) option) \<Rightarrow>
   StripeProvider \<Rightarrow> string \<Rightarrow> Tier \<Rightarrow> (ent_error, CheckoutSession) result" where
  "Stripe_CreateCheckout http_do json_checkout p subject tier =
     (if subject = '''' then Inl (providerErr ''checkout'' ''empty subject'')
      else if \<not> validTier tier then Inl (providerErr ''checkout'' ''unknown tier'')
      else
        let form = [(''mode'', checkoutMode tier), (''client_reference_id'', subject),
                    (''metadata[subject]'', subject), (''metadata[tier]'', tier)];
            req = \<lparr>rq_URL = st_baseURL p @ ''/v1/checkout/sessions'', rq_Authorization = ''Bearer '' @ st_apiKey p,
                   rq_ContentType = ''application/x-www-form-urlencoded'', rq_Body = url_Values_Encode form\<rparr>
        in case http_do req of
          Inl err \<Rightarrow> Inl (providerErr ''checkout'' err)
        | Inr (status, body0) \<Rightarrow>
            let body = take (2 ^ 20) body0 in
            if status < 200 \<or> status \<ge> 300 then Inl (providerErr ''checkout'' ''stripe responded'')
            else case json_checkout body of
              None \<Rightarrow> Inl (providerErr ''checkout'' ''decode response'')
            | Some (cid, url) \<Rightarrow>
                if cid = '''' then Inl (providerErr ''checkout'' ''stripe response missing session id'')
                else Inr \<lparr>cs_ID = cid, cs_Subject = subject, cs_Tier = tier, cs_URL = url\<rparr>)"

record stripeEvent =
  se_Type :: string
  se_ClientReferenceID :: string
  se_Subject :: string
  se_Tier :: string

text \<open>The loop of \<^verbatim>\<open>parseStripeSignature\<close>: the timestamp (if one was read) and the signatures so far.\<close>

fun parseStripeParts :: "string list \<Rightarrow> int option \<Rightarrow> string list \<Rightarrow> (string, int option \<times> string list) result" where
  "parseStripeParts [] ts v1s = Inr (ts, v1s)"
| "parseStripeParts (part # parts) ts v1s =
     (case strings_Cut (strings_TrimSpace part) (CHR ''='') of (k, v, ok) \<Rightarrow>
        if \<not> ok then parseStripeParts parts ts v1s
        else if k = ''t'' then
          (case ParseInt v of
             None \<Rightarrow> Inl ''malformed timestamp''
           | Some t \<Rightarrow> parseStripeParts parts (Some t) v1s)
        else if k = ''v1'' then
          (if v \<noteq> '''' then parseStripeParts parts ts (v1s @ [v]) else parseStripeParts parts ts v1s)
        else parseStripeParts parts ts v1s)"

definition parseStripeSignature :: "string \<Rightarrow> (string, int \<times> string list) result" where
  "parseStripeSignature header =
     (if header = '''' then Inl ''empty signature header''
      else res_bind (parseStripeParts (strings_Split header (CHR '','')) None []) (\<lambda>(ts, v1s).
        case ts of
          None \<Rightarrow> Inl ''missing timestamp''
        | Some t \<Rightarrow> if length v1s = 0 then Inl ''missing v1 signature'' else Inr (t, v1s)))"

definition anyHexEqual :: "string list \<Rightarrow> bytes \<Rightarrow> bool" where
  "anyHexEqual candidates want =
     foldl (\<lambda>matched c. case hex_DecodeString c of
              None \<Rightarrow> matched
            | Some got \<Rightarrow> if got = want then True else matched) False candidates"

definition Stripe_VerifyWebhook ::
  "crypto \<Rightarrow> (bytes \<Rightarrow> stripeEvent option) \<Rightarrow> go_time \<Rightarrow> StripeProvider \<Rightarrow> VerifyWebhook" where
  "Stripe_VerifyWebhook C json_event now p payload signature =
     (case parseStripeSignature signature of
        Inl err \<Rightarrow> Inl (providerErr ''webhook'' err)
      | Inr (ts, sigs) \<Rightarrow>
          let skew0 = Time_Sub now (time_Unix ts);
              skew = (if skew0 < 0 then dur_neg skew0 else skew0)
          in if skew > st_tolerance p then Inl (providerErr ''webhook'' ''timestamp outside tolerance'')
          else
            let want = hmac_sha256 C (st_whSecret p) (str_bytes (FormatInt ts @ ''.'') @ payload) in
            if \<not> anyHexEqual sigs want then Inl (providerErr ''webhook'' ''signature mismatch'')
            else case json_event payload of
              None \<Rightarrow> Inl (providerErr ''webhook'' ''decode event'')
            | Some ev \<Rightarrow>
                if se_Type ev \<noteq> ''checkout.session.completed'' then Inl (providerErr ''webhook'' ''unhandled event type'')
                else
                  let subject = (if se_ClientReferenceID ev = '''' then se_Subject ev else se_ClientReferenceID ev) in
                  if subject = '''' then Inl (providerErr ''webhook'' ''event missing subject'')
                  else
                    let tier = se_Tier ev in
                    if \<not> validTier tier then Inl (providerErr ''webhook'' ''unknown tier'')
                    else Inr \<lparr>ev_Subject = subject, ev_Tier = tier, ev_Paid = True\<rparr>)"

section \<open>Both providers meet the contract\<close>

interpretation fake: payment_provider "Fake_VerifyWebhook C p" for C p
  by unfold_locales
    (auto simp: Fake_VerifyWebhook_def Let_def split: option.splits if_splits)

interpretation stripe: payment_provider "Stripe_VerifyWebhook C json_event now p" for C json_event now p
  by unfold_locales
    (auto simp: Stripe_VerifyWebhook_def Let_def split: option.splits if_splits sum.splits)

section \<open>Lemmas\<close>

lemma anyHexEqual_iff: "anyHexEqual cs want \<longleftrightarrow> (\<exists>c \<in> set cs. hex_DecodeString c = Some want)"
proof -
  have "foldl (\<lambda>matched c. case hex_DecodeString c of None \<Rightarrow> matched | Some got \<Rightarrow> if got = want then True else matched) b cs
      \<longleftrightarrow> b \<or> (\<exists>c \<in> set cs. hex_DecodeString c = Some want)" for b
    by (induction cs arbitrary: b) (auto split: option.splits)
  then show ?thesis by (simp add: anyHexEqual_def)
qed

text \<open>The first and the last bytes of the encodings of spaces.\<close>

definition space_firsts :: string where
  "space_firsts = map hd space_strings"

definition space_lasts :: string where
  "space_lasts = map last space_strings"

lemma strip_front_id:
  assumes "\<forall>p \<in> set pats. p \<noteq> [] \<longrightarrow> hd p \<noteq> c"
  shows "strip_front pats (c # cs) = c # cs"
proof -
  have "find (\<lambda>p. p \<noteq> [] \<and> prefix p (c # cs)) pats = None"
    using assms by (auto simp: find_None_iff prefix_Cons)
  then show ?thesis by (subst strip_front.simps) simp
qed

lemma TrimSpace_ends:
  assumes "s = c # xs" and "s = ys @ [d]" and "c \<notin> set space_firsts" and "d \<notin> set space_lasts"
  shows "strings_TrimSpace s = s"
proof -
  have "strip_front space_strings s = s"
    using assms(1,3) by (auto simp: space_firsts_def intro!: strip_front_id)
  moreover have "strip_front (map rev space_strings) (rev s) = rev s"
    using assms(4) unfolding assms(2) rev_append
    by (auto simp: space_lasts_def hd_rev intro!: strip_front_id)
  ultimately show ?thesis by (simp add: strings_TrimSpace_def Let_def)
qed

lemma space_firsts_plain: "CHR ''t'' \<notin> set space_firsts" "CHR ''v'' \<notin> set space_firsts"
  by (simp_all add: space_firsts_def space_strings_def)

definition hex_digits :: string where "hex_digits = ''0123456789abcdef''"

lemma hex_not_space: "c \<in> set hex_digits \<Longrightarrow> c \<notin> set space_lasts \<and> c \<noteq> CHR '','' \<and> c \<noteq> CHR ''=''"
  by (auto simp: hex_digits_def space_lasts_def space_strings_def)

lemma digit_hex: "is_digit c \<Longrightarrow> c \<in> set hex_digits"
proof -
  assume d: "is_digit c"
  have "list_all (\<lambda>n. char_of n \<in> set hex_digits) [48..<58]" 
    by (simp add: upt_rec hex_digits_def char_of_eq_iff [THEN iffD2] char_of_def bit_iff_odd)
  moreover have "(of_char c :: nat) \<in> set [48..<58]"
    using d unfolding is_digit_def set_upt atLeastLessThan_iff by linarith
  ultimately have "char_of (of_char c :: nat) \<in> set hex_digits" by (simp only: list_all_iff)
  then show ?thesis by simp
qed

lemma hex_Encode_chars: "set (hex_EncodeToString src) \<subseteq> set hex_digits"
proof
  fix c
  assume "c \<in> set (hex_EncodeToString src)"
  then obtain b where "c = hex_char (unat b div 16) \<or> c = hex_char (unat (b :: byte) mod 16)"
    by (auto simp: hex_EncodeToString_def)
  moreover have "unat b div 16 < 16" using unsigned_less [of b, where 'a = nat] by simp
  moreover have "unat b mod 16 < 16" by simp
  moreover have "hex_char n \<in> set hex_digits" if "n < 16" for n
    unfolding hex_char_def hex_digits_def by (rule nth_mem) (use that in simp)
  ultimately show "c \<in> set hex_digits" by metis
qed

lemma FormatInt_ends:
  "\<exists>ys d. FormatInt i = ys @ [d] \<and> d \<in> set hex_digits" "CHR '','' \<notin> set (FormatInt i)" "CHR ''='' \<notin> set (FormatInt i)"
proof -
  have d: "nat_digits n \<noteq> []" "\<forall>c \<in> set (nat_digits n). is_digit c" for n
    using nat_digits_ok [of n] by (auto simp: list_all_iff)
  have nd: "CHR '','' \<notin> set (nat_digits n)" "CHR ''='' \<notin> set (nat_digits n)" for n
    using d(2) [of n] digit_hex hex_not_space by metis+
  have "\<exists>ys e. nat_digits n = ys @ [e] \<and> e \<in> set hex_digits" for n
    using d [of n] digit_hex by (metis append_butlast_last_id last_in_set)
  then show "\<exists>ys d. FormatInt i = ys @ [d] \<and> d \<in> set hex_digits"
    by (metis FormatInt_def append.assoc)
  show "CHR '','' \<notin> set (FormatInt i)" "CHR ''='' \<notin> set (FormatInt i)"
    using nd by (auto simp: FormatInt_def)
qed

lemma parse_stripe_header:
  assumes "min_int64 \<le> ts" and "ts \<le> max_int64" and "sig = hex_EncodeToString src" and "sig \<noteq> []"
  shows "parseStripeSignature (''t='' @ FormatInt ts @ '',v1='' @ sig) = Inr (ts, [sig])"
proof -
  obtain ys d where ts: "FormatInt ts = ys @ [d]" "d \<in> set hex_digits" using FormatInt_ends(1) by blast
  have sig: "set sig \<subseteq> set hex_digits" using hex_Encode_chars assms(3) by simp
  have "strings_Split (''t='' @ FormatInt ts @ '',v1='' @ sig) (CHR '','') = [''t='' @ FormatInt ts, ''v1='' @ sig]"
  proof -
    have "CHR '','' \<notin> set (''t='' @ FormatInt ts)" "CHR '','' \<notin> set (''v1='' @ sig)"
      using FormatInt_ends(2) sig hex_not_space by auto
    then show ?thesis
      using Split_append [of "CHR '',''" "''t='' @ FormatInt ts" "''v1='' @ sig"]
        Split_single [of "CHR '',''" "''v1='' @ sig"] by (simp only: append_assoc) simp
  qed
  moreover have "strings_TrimSpace (''t='' @ FormatInt ts) = ''t='' @ FormatInt ts"
    by (rule TrimSpace_ends [of _ "CHR ''t''" "''='' @ FormatInt ts" "''t='' @ ys" d]) (use ts space_firsts_plain hex_not_space in auto)
  moreover have "strings_TrimSpace (''v1='' @ sig) = ''v1='' @ sig"
  proof (rule TrimSpace_ends [of _ "CHR ''v''" "''1='' @ sig" "''v1='' @ butlast sig" "last sig"])
    have "last sig \<in> set hex_digits" using sig assms(4) by (meson last_in_set subsetD)
    then show "last sig \<notin> set space_lasts" using hex_not_space by blast
  qed (use assms(4) space_firsts_plain in auto)
  moreover have "strings_Cut (''t='' @ FormatInt ts) (CHR ''='') = (''t'', FormatInt ts, True)"
    "strings_Cut (''v1='' @ sig) (CHR ''='') = (''v1'', sig, True)" by simp_all
  ultimately show ?thesis
    using ParseInt_Format [OF assms(1,2)] assms(4) by (simp add: parseStripeSignature_def)
qed

lemma Stripe_Inr:
  "Stripe_VerifyWebhook C json_event now p payload signature = Inr ev \<longleftrightarrow>
     (\<exists>ts sigs e. parseStripeSignature signature = Inr (ts, sigs) \<and>
        (if Time_Sub now (time_Unix ts) < 0 then dur_neg (Time_Sub now (time_Unix ts)) else Time_Sub now (time_Unix ts))
          \<le> st_tolerance p \<and>
        anyHexEqual sigs (hmac_sha256 C (st_whSecret p) (str_bytes (FormatInt ts @ ''.'') @ payload)) \<and>
        json_event payload = Some e \<and> se_Type e = ''checkout.session.completed'' \<and> validTier (se_Tier e) \<and>
        ev = \<lparr>ev_Subject = (if se_ClientReferenceID e = '''' then se_Subject e else se_ClientReferenceID e),
              ev_Tier = se_Tier e, ev_Paid = True\<rparr> \<and> ev_Subject ev \<noteq> '''')"
proof (cases "parseStripeSignature signature")
  case (Inl err)
  then show ?thesis by (simp add: Stripe_VerifyWebhook_def)
next
  case (Inr h)
  obtain ts sigs where h: "parseStripeSignature signature = Inr (ts, sigs)" using Inr by (cases h) simp
  define d where "d = Time_Sub now (time_Unix ts)"
  define want where "want = hmac_sha256 C (st_whSecret p) (str_bytes (FormatInt ts @ ''.'') @ payload)"
  show ?thesis
    by (cases "json_event payload")
      (simp_all add: Stripe_VerifyWebhook_def Let_def h not_less flip: d_def want_def, auto)
qed

section \<open>Properties\<close>

text \<open>
  C30. An accepted Stripe webhook is authentic: its header names a timestamp within the tolerance (or so
  far in the future that the skew wraps) and one of its \<^verbatim>\<open>v1\<close> signatures is the HMAC, under the
  webhook secret, of that timestamp, a dot and the raw payload; the event is a completed checkout for the
  hosted tier with a non-empty subject.
\<close>

theorem stripe_webhook_authentic:
  assumes "Stripe_VerifyWebhook C json_event now p payload signature = Inr ev"
    and "0 \<le> st_tolerance p" and "st_tolerance p < max_int64"
  shows "\<exists>ts sigs c. parseStripeSignature signature = Inr (ts, sigs) \<and> c \<in> set sigs \<and>
      hex_DecodeString c = Some (hmac_sha256 C (st_whSecret p) (str_bytes (FormatInt ts @ ''.'') @ payload)) \<and>
      (\<bar>now - time_Unix ts\<bar> \<le> st_tolerance p \<or> now - time_Unix ts \<le> min_int64) \<and>
      (\<exists>e. json_event payload = Some e \<and> se_Type e = ''checkout.session.completed'') \<and>
      ev_Tier ev = TierHosted \<and> ev_Paid ev \<and> ev_Subject ev \<noteq> ''''"
proof -
  from assms(1) [unfolded Stripe_Inr] obtain ts sigs e where
    h: "parseStripeSignature signature = Inr (ts, sigs)" and
    skew: "(if Time_Sub now (time_Unix ts) < 0 then dur_neg (Time_Sub now (time_Unix ts)) else Time_Sub now (time_Unix ts))
          \<le> st_tolerance p" and
    sg: "anyHexEqual sigs (hmac_sha256 C (st_whSecret p) (str_bytes (FormatInt ts @ ''.'') @ payload))" and
    e: "json_event payload = Some e" "se_Type e = ''checkout.session.completed''" "validTier (se_Tier e)"
      "ev = \<lparr>ev_Subject = (if se_ClientReferenceID e = '''' then se_Subject e else se_ClientReferenceID e),
             ev_Tier = se_Tier e, ev_Paid = True\<rparr>" "ev_Subject ev \<noteq> ''''"
    by blast
  have t: "\<bar>now - time_Unix ts\<bar> \<le> st_tolerance p \<or> now - time_Unix ts \<le> min_int64"
    using skew skew_within [OF assms(2,3)] by blast
  have v: "ev_Tier ev = TierHosted" "ev_Paid ev" using e(3,4) by (simp_all add: validTier_def)
  obtain c where "c \<in> set sigs"
    "hex_DecodeString c = Some (hmac_sha256 C (st_whSecret p) (str_bytes (FormatInt ts @ ''.'') @ payload))"
    using sg [unfolded anyHexEqual_iff] by blast
  with h t v e(1,2,5) show ?thesis by blast
qed

definition demo_stripe :: StripeProvider where
  "demo_stripe = NewStripeProvider ''sk'' ''whsec'' [WithBaseURL ''http://x/'']"

definition demo_completed :: stripeEvent where
  "demo_completed = \<lparr>se_Type = ''checkout.session.completed'', se_ClientReferenceID = ''acct_42'', se_Subject = '''',
     se_Tier = ''hosted''\<rparr>"

definition demo_event :: "bytes \<Rightarrow> stripeEvent option" where
  "demo_event b = (if b = str_bytes ''{}'' then
     Some demo_completed else None)"

definition stripe_header :: "crypto \<Rightarrow> StripeProvider \<Rightarrow> int \<Rightarrow> bytes \<Rightarrow> string" where
  "stripe_header C p ts payload =
     ''t='' @ FormatInt ts @ '',v1='' @
     hex_EncodeToString (hmac_sha256 C (st_whSecret p) (str_bytes (FormatInt ts @ ''.'') @ payload))"

lemma demo_stripe_fields [simp]: "st_tolerance demo_stripe = defaultWebhookTolerance" "st_whSecret demo_stripe = str_bytes ''whsec''"
  by (simp_all add: demo_stripe_def NewStripeProvider_def WithBaseURL_def)

lemma hex_Encode_nonempty: "src \<noteq> [] \<Longrightarrow> hex_EncodeToString src \<noteq> []"
  by (cases src) (simp_all add: hex_EncodeToString_def)

lemma stripe_header_parses:
  assumes "hmac_nonempty C" and "min_int64 \<le> ts" and "ts \<le> max_int64"
  shows "parseStripeSignature (stripe_header C p ts payload) =
    Inr (ts, [hex_EncodeToString (hmac_sha256 C (st_whSecret p) (str_bytes (FormatInt ts @ ''.'') @ payload))])"
  unfolding stripe_header_def
  by (rule parse_stripe_header [OF assms(2,3) refl])
    (use assms(1) in \<open>simp add: hex_Encode_nonempty hmac_nonempty_def\<close>)

text \<open>
  What Stripe sends is accepted: the header is parsed back into its timestamp and signature, and the outcome
  is that of the checks on the event alone.
\<close>

lemma Stripe_signed:
  assumes "hmac_nonempty C" and "min_int64 \<le> ts" and "ts \<le> max_int64"
    and "0 \<le> st_tolerance p" and "st_tolerance p < max_int64" and "\<bar>now - time_Unix ts\<bar> \<le> st_tolerance p"
  shows "Stripe_VerifyWebhook C json_event now p payload (stripe_header C p ts payload) = Inr ev \<longleftrightarrow>
     (\<exists>e. json_event payload = Some e \<and> se_Type e = ''checkout.session.completed'' \<and> validTier (se_Tier e) \<and>
        ev = \<lparr>ev_Subject = (if se_ClientReferenceID e = '''' then se_Subject e else se_ClientReferenceID e),
              ev_Tier = se_Tier e, ev_Paid = True\<rparr> \<and> ev_Subject ev \<noteq> '''')"
proof -
  define want where "want = hmac_sha256 C (st_whSecret p) (str_bytes (FormatInt ts @ ''.'') @ payload)"
  have "(if Time_Sub now (time_Unix ts) < 0 then dur_neg (Time_Sub now (time_Unix ts)) else Time_Sub now (time_Unix ts))
          \<le> st_tolerance p" using skew_within [OF assms(4,5)] assms(6) by blast
  moreover have "anyHexEqual [hex_EncodeToString want] want" by (simp add: anyHexEqual_iff hex_Decode_Encode)
  moreover note stripe_header_parses [OF assms(1-3), of p payload, folded want_def]
  ultimately show ?thesis by (simp add: Stripe_Inr flip: want_def)
qed

lemma demo_stripe_signed:
  "Stripe_VerifyWebhook demo_crypto demo_event (time_Unix 1800000100) demo_stripe (str_bytes ''{}'')
     (stripe_header demo_crypto demo_stripe 1800000000 (str_bytes ''{}'')) =
     Inr \<lparr>ev_Subject = ''acct_42'', ev_Tier = ''hosted'', ev_Paid = True\<rparr>"
  by (subst Stripe_signed)
    (simp_all add: demo_event_def demo_completed_def validTier_def TierHosted_def time_Unix_def wrap64_def nanos_per_second_def unix_to_internal_def
      defaultWebhookTolerance_def min_int64_def max_int64_def)

theorem stripe_webhook_authentic_witness:
  "\<exists>ts sigs c. parseStripeSignature (stripe_header demo_crypto demo_stripe 1800000000 (str_bytes ''{}'')) = Inr (ts, sigs) \<and>
     c \<in> set sigs \<and>
     hex_DecodeString c = Some (hmac_sha256 demo_crypto (str_bytes ''whsec'') (str_bytes (FormatInt ts @ ''.'') @ str_bytes ''{}''))"
  using stripe_webhook_authentic [OF demo_stripe_signed]
  by (simp add: defaultWebhookTolerance_def nanos_per_second_def max_int64_def) blast

text \<open>
  From payment to admission: when Stripe signs a completed checkout for the hosted tier with a fresh
  timestamp, and the account has a name a token can carry, a hosted service mints a token, and the gate
  admits that token as that account until it expires.
\<close>

theorem paid_webhook_admitted:
  assumes "hmac_nonempty C" and "min_int64 \<le> ts" and "ts \<le> max_int64"
    and "0 \<le> st_tolerance p" and "st_tolerance p < max_int64" and "\<bar>now - time_Unix ts\<bar> \<le> st_tolerance p"
    and "json_event payload = Some e" and "se_Type e = ''checkout.session.completed''" and "se_Tier e = TierHosted"
    and "se_ClientReferenceID e \<noteq> ''''" and "CHR ''|'' \<notin> set (se_ClientReferenceID e)"
    and "sv_Mode s = ModeHosted" and "sv_Key s \<noteq> []"
    and "sv_Provider s = Some (Stripe_VerifyWebhook C json_event now p)"
    and "0 < Time_Unix_seconds (Time_Add now (sv_TokenTTL s))"
  shows "\<exists>tok. OnPaymentEvent C now s payload (stripe_header C p ts payload) = Inr tok \<and>
    (\<forall>later. Admit C later s tok =
       (if Time_Unix_seconds later > Time_Unix_seconds (Time_Add now (sv_TokenTTL s)) then Inl ErrExpired
        else Inr \<lparr>cl_Subject = se_ClientReferenceID e, cl_Tier = TierHosted,
                  cl_Expiry = Time_Unix_seconds (Time_Add now (sv_TokenTTL s))\<rparr>))"
proof -
  let ?c = "\<lparr>cl_Subject = se_ClientReferenceID e, cl_Tier = TierHosted,
             cl_Expiry = Time_Unix_seconds (Time_Add now (sv_TokenTTL s))\<rparr>"
  have ev: "Stripe_VerifyWebhook C json_event now p payload (stripe_header C p ts payload) =
      Inr \<lparr>ev_Subject = se_ClientReferenceID e, ev_Tier = TierHosted, ev_Paid = True\<rparr>"
    using assms(7-10) by (simp add: Stripe_signed [OF assms(1-6)] validTier_def)
  have i: "issuable ?c" using assms by (simp add: issuable_def)
  have "OnPaymentEvent C now s payload (stripe_header C p ts payload) =
      Inr (payload_of ?c @ ''.'' @ sign C (payload_of ?c) (sv_Key s))"
    using stripe.OnPaymentEvent_eq [OF assms(14,13)] ev i assms(13) by (simp add: Issue_eq)
  moreover have "cl_Expiry ?c \<le> max_int64" using wrap64_range by (simp add: Time_Unix_seconds_def)
  then have "Admit C later s (payload_of ?c @ ''.'' @ sign C (payload_of ?c) (sv_Key s)) =
      (if Time_Unix_seconds later > cl_Expiry ?c then Inl ErrExpired else Inr ?c)" for later
    using Verify_issued [OF assms(1) i assms(13)] assms(12,13) by (simp add: Admit_def)
  ultimately show ?thesis by auto
qed

definition demo_service :: Service where
  "demo_service = \<lparr>sv_Mode = ModeHosted, sv_Key = [1, 2],
     sv_Provider = Some (Stripe_VerifyWebhook demo_crypto demo_event (time_Unix 1800000100) demo_stripe),
     sv_TokenTTL = 3600 * nanos_per_second\<rparr>"

lemma demo_service_fields [simp]: "sv_Mode demo_service = ModeHosted" "sv_Key demo_service = [1, 2]"
  "sv_Provider demo_service = Some (Stripe_VerifyWebhook demo_crypto demo_event (time_Unix 1800000100) demo_stripe)"
  by (simp_all add: demo_service_def)

text \<open>
  C31. An account whose name contains a bar can pay but is never admitted: Stripe's checkout session is
  created for it, and the webhook of the completed payment verifies, but no token is issued, since the
  token's fields are separated by bars.
\<close>

theorem bar_subject_paid_never_minted:
  assumes "CHR ''|'' \<in> set subject"
    and "\<And>req. http_do req = Inr (200, body)" and "json_checkout (take (2 ^ 20) body) = Some (cid, url)" and "cid \<noteq> ''''"
    and "sv_Key s \<noteq> []" and "sv_Provider s = Some (Stripe_VerifyWebhook C json_event now p)"
    and "Stripe_VerifyWebhook C json_event now p payload signature = Inr ev" and "ev_Subject ev = subject"
  shows "Stripe_CreateCheckout http_do json_checkout p subject TierHosted =
           Inr \<lparr>cs_ID = cid, cs_Subject = subject, cs_Tier = TierHosted, cs_URL = url\<rparr> \<and>
         OnPaymentEvent C now s payload signature = Inl ErrInvalidClaims"
proof
  show "Stripe_CreateCheckout http_do json_checkout p subject TierHosted =
           Inr \<lparr>cs_ID = cid, cs_Subject = subject, cs_Tier = TierHosted, cs_URL = url\<rparr>"
    using assms(1-4) by (auto simp: Stripe_CreateCheckout_def Let_def validTier_def)
  show "OnPaymentEvent C now s payload signature = Inl ErrInvalidClaims"
    using stripe.OnPaymentEvent_eq [OF assms(6,5)] assms(1,5,7,8) by (simp add: Issue_eq issuable_def)
qed

definition bar_event :: "bytes \<Rightarrow> stripeEvent option" where
  "bar_event b = Some \<lparr>se_Type = ''checkout.session.completed'', se_ClientReferenceID = ''a|b'', se_Subject = '''',
                       se_Tier = ''hosted''\<rparr>"

theorem bar_subject_paid_never_minted_witness:
  "Stripe_CreateCheckout (\<lambda>req. Inr (200, [])) (\<lambda>b. Some (''cs_1'', ''u'')) demo_stripe ''a|b'' TierHosted =
     Inr \<lparr>cs_ID = ''cs_1'', cs_Subject = ''a|b'', cs_Tier = TierHosted, cs_URL = ''u''\<rparr> \<and>
   OnPaymentEvent demo_crypto (time_Unix 1800000100)
     (demo_service\<lparr>sv_Provider := Some (Stripe_VerifyWebhook demo_crypto bar_event (time_Unix 1800000100) demo_stripe)\<rparr>)
     [] (stripe_header demo_crypto demo_stripe 1800000000 []) = Inl ErrInvalidClaims"
proof (rule bar_subject_paid_never_minted)
  show "Stripe_VerifyWebhook demo_crypto bar_event (time_Unix 1800000100) demo_stripe []
     (stripe_header demo_crypto demo_stripe 1800000000 []) =
     Inr \<lparr>ev_Subject = ''a|b'', ev_Tier = ''hosted'', ev_Paid = True\<rparr>"
    by (subst Stripe_signed)
      (simp_all add: bar_event_def validTier_def TierHosted_def time_Unix_def wrap64_def nanos_per_second_def
        unix_to_internal_def defaultWebhookTolerance_def min_int64_def max_int64_def)
qed (simp_all add: demo_service_def)

end
