(* ===== verification/Admission.thy ===== *)
theory Admission
  imports Entitlement Client_Handshake Router
begin

text \<open>
  Session admission, \<^verbatim>\<open>internal/gateway/admission.go\<close>: the store of admitted session keys and the
  gateway's side of the handshake. The store is shared with the data plane and therefore an
  explicit argument and result. The leaser is the exit router's \<^verbatim>\<open>Lease\<close>, a function on a state of
  its own. Clock readings and randomness are arguments.
\<close>

section \<open>The code\<close>

datatype lease_error = LeaseError exit_error | ErrLeaseInvalid

text \<open>\<open>panicSign\<close> is the panic of \<^verbatim>\<open>ed25519.Sign\<close> on a private key of the wrong length.\<close>

datatype gw_error =
    CoreError core_error
  | EntError ent_error
  | ErrSessionReused
  | ErrLeaseFailed lease_error
  | ErrUnknownSession
  | panicSign

record SessionStore =
  st_keys :: "SessionID \<rightharpoonup> bytes"

definition NewSessionStore :: SessionStore where
  "NewSessionStore = \<lparr>st_keys = Map.empty\<rparr>"

definition SessionKey :: "SessionStore \<Rightarrow> SessionID \<Rightarrow> bytes option" where
  "SessionKey s sid = st_keys s sid"

definition register :: "SessionStore \<Rightarrow> SessionID \<Rightarrow> bytes \<Rightarrow> bool \<times> SessionStore" where
  "register s sid key =
     (if st_keys s sid \<noteq> None then (False, s)
      else (True, s\<lparr>st_keys := (st_keys s)(sid \<mapsto> key)\<rparr>))"

definition SessionStore_Forget :: "SessionStore \<Rightarrow> SessionID \<Rightarrow> SessionStore" where
  "SessionStore_Forget s sid = s\<lparr>st_keys := (st_keys s)(sid := None)\<rparr>"

definition store_len :: "SessionStore \<Rightarrow> nat" where
  "store_len s = card (dom (st_keys s))"

text \<open>A leaser is \<^verbatim>\<open>nil\<close> (\<^term>\<open>None\<close>) or a function that may change the state it leases from.\<close>

type_synonym 'r leaser = "('r \<Rightarrow> SessionID \<Rightarrow> (exit_error, Addr) result \<times> 'r) option"

record 'r Admitter =
  ad_service :: Service
  ad_tolerance :: duration
  ad_leaser :: "'r leaser"

definition NewAdmitter :: "Service \<Rightarrow> 'r Admitter" where
  "NewAdmitter service = \<lparr>ad_service = service, ad_tolerance = DefaultHandshakeTolerance, ad_leaser = None\<rparr>"

definition SetLeaser :: "'r Admitter \<Rightarrow> ('r \<Rightarrow> SessionID \<Rightarrow> (exit_error, Addr) result \<times> 'r) \<Rightarrow> 'r Admitter" where
  "SetLeaser a leaser = a\<lparr>ad_leaser := Some leaser\<rparr>"

definition Admitter_Admit ::
  "crypto \<Rightarrow> go_time \<Rightarrow> 'r Admitter \<Rightarrow> SessionStore \<Rightarrow> string \<Rightarrow> SessionID \<Rightarrow> bytes \<Rightarrow>
   (gw_error, Claims) result \<times> SessionStore" where
  "Admitter_Admit C now a store token sid key =
     (case Admit C now (ad_service a) token of
        Inl err \<Rightarrow> (Inl (EntError err), store)
      | Inr claims \<Rightarrow>
          (case register store sid key of
             (False, store') \<Rightarrow> (Inl ErrSessionReused, store')
           | (True, store') \<Rightarrow> (Inr claims, store')))"

text \<open>\<^verbatim>\<open>netip.Addr.As4\<close>: the four bytes, most significant first. Only called on an IPv4 address.\<close>

definition Is4 :: "Addr \<Rightarrow> bool" where
  "Is4 a \<longleftrightarrow> (case a of V4 _ \<Rightarrow> True | _ \<Rightarrow> False)"

definition As4 :: "Addr \<Rightarrow> bytes" where
  "As4 a = (case a of
     V4 w \<Rightarrow> [ucast (drop_bit 24 w), ucast (drop_bit 16 w), ucast (drop_bit 8 w), ucast w]
   | _ \<Rightarrow> replicate 4 0)"

text \<open>
  The end of \<^verbatim>\<open>Handshake\<close>, from the lease on: \<open>leaseIP\<close> is the \<^verbatim>\<open>if a.leaser != nil\<close> block, and
  \<open>answer\<close> signs and encodes the ServerHello.
\<close>

definition leaseIP :: "'r Admitter \<Rightarrow> 'r \<Rightarrow> SessionID \<Rightarrow> (lease_error, bytes \<times> Addr) result \<times> 'r" where
  "leaseIP a r sid =
     (case ad_leaser a of
        None \<Rightarrow> (Inr (replicate 4 0, NoAddr), r)
      | Some leaser \<Rightarrow>
          (case leaser r sid of
             (Inl e, r') \<Rightarrow> (Inl (LeaseError e), r')
           | (Inr addr, r') \<Rightarrow>
               if \<not> Is4 addr then (Inl ErrLeaseInvalid, r')
               else (Inr (As4 addr, addr), r')))"

definition answer ::
  "crypto \<Rightarrow> bytes \<Rightarrow> bytes \<Rightarrow> SessionID \<Rightarrow> bytes \<Rightarrow> SessionStore \<Rightarrow> (gw_error, bytes) result \<times> SessionStore" where
  "answer C identityPriv gatewayEphPub sid assignedIPv4 store =
     (case SignHandshake C identityPriv gatewayEphPub sid of
        None \<Rightarrow> (Inl panicSign, store)
      | Some sig \<Rightarrow>
          (case EncodeServerHello sid gatewayEphPub sig assignedIPv4 of
             Inl err \<Rightarrow> (Inl (CoreError err), SessionStore_Forget store sid)
           | Inr serverHello \<Rightarrow> (Inr serverHello, store)))"

text \<open>
  \<open>nowHello\<close> and \<open>nowToken\<close> are the readings of the admitter's clock and of the service's clock,
  \<open>rnd\<close> the randomness of the gateway's ephemeral key.
\<close>

definition Admitter_Handshake ::
  "crypto \<Rightarrow> go_time \<Rightarrow> go_time \<Rightarrow> bytes option \<Rightarrow> 'r Admitter \<Rightarrow> SessionStore \<Rightarrow> 'r \<Rightarrow> bytes \<Rightarrow> bytes \<Rightarrow>
   (gw_error, bytes \<times> Claims \<times> SessionID \<times> Addr) result \<times> SessionStore \<times> 'r" where
  "Admitter_Handshake C nowHello nowToken rnd a store r clientHello identityPriv =
     (case DecodeClientHello clientHello of
        Inl err \<Rightarrow> (Inl (CoreError err), store, r)
      | Inr (sid, timestamp, clientEph, token) \<Rightarrow>
     (case CheckHandshakeFresh timestamp nowHello (ad_tolerance a) of
        Inl err \<Rightarrow> (Inl (CoreError err), store, r)
      | Inr _ \<Rightarrow>
     (case GenerateKeyPair C rnd of
        Inl err \<Rightarrow> (Inl (CoreError err), store, r)
      | Inr (gatewayEphPriv, gatewayEphPub) \<Rightarrow>
     (case DeriveSessionKey C gatewayEphPriv clientEph sid of
        Inl err \<Rightarrow> (Inl (CoreError err), store, r)
      | Inr key \<Rightarrow>
     (case Admitter_Admit C nowToken a store token sid key of
        (Inl err, store1) \<Rightarrow> (Inl err, store1, r)
      | (Inr claims, store1) \<Rightarrow>
     (case leaseIP a r sid of
        (Inl leaseErr, r') \<Rightarrow> (Inl (ErrLeaseFailed leaseErr), SessionStore_Forget store1 sid, r')
      | (Inr (assignedIPv4, tunnelIP), r') \<Rightarrow>
     (case answer C identityPriv gatewayEphPub sid assignedIPv4 store1 of
        (Inl err, store2) \<Rightarrow> (Inl err, store2, r')
      | (Inr serverHello, store2) \<Rightarrow> (Inr (serverHello, claims, sid, tunnelIP), store2, r'))))))))"

section \<open>Lemmas\<close>

lemma register_True [simp]:
  "register s sid key = (True, s') \<longleftrightarrow> st_keys s sid = None \<and> s' = s\<lparr>st_keys := (st_keys s)(sid \<mapsto> key)\<rparr>"
  by (auto simp: register_def)

lemma Admitter_Admit_Inr:
  "Admitter_Admit C now a store token sid key = (Inr claims, store') \<longleftrightarrow>
     Admit C now (ad_service a) token = Inr claims \<and> register store sid key = (True, store')"
  by (auto simp: Admitter_Admit_def register_def split: sum.splits)

lemma Admitter_Admit_Inl: "Admitter_Admit C now a store token sid key = (Inl e, store') \<Longrightarrow> store' = store"
  by (auto simp: Admitter_Admit_def register_def split: sum.splits prod.splits if_splits)

lemma Forget_register:
  "st_keys s sid = None \<Longrightarrow> SessionStore_Forget (s\<lparr>st_keys := (st_keys s)(sid \<mapsto> key)\<rparr>) sid = s"
  by (simp add: SessionStore_Forget_def fun_upd_idem)

text \<open>Everything a handshake passed through when it is answered.\<close>

lemma Handshake_Inr:
  assumes "Admitter_Handshake C nh nt rnd a store r hello priv = (Inr (sh, claims, sid, ip), store', r')"
  obtains ts ceph token gpriv key assigned sig where
    "DecodeClientHello hello = Inr (sid, ts, ceph, token)"
    "CheckHandshakeFresh ts nh (ad_tolerance a) = Inr ()"
    "rnd = Some gpriv" "DeriveSessionKey C gpriv ceph sid = Inr key"
    "Admit C nt (ad_service a) token = Inr claims"
    "st_keys store sid = None" "store' = store\<lparr>st_keys := (st_keys store)(sid \<mapsto> key)\<rparr>"
    "leaseIP a r sid = (Inr (assigned, ip), r')"
    "SignHandshake C priv (x25519_pub C gpriv) sid = Some sig"
    "EncodeServerHello sid (x25519_pub C gpriv) sig assigned = Inr sh"
proof -
  from assms obtain ts ceph token gpriv gpub key store1 assigned where
    *: "DecodeClientHello hello = Inr (sid, ts, ceph, token)"
    "CheckHandshakeFresh ts nh (ad_tolerance a) = Inr ()"
    "GenerateKeyPair C rnd = Inr (gpriv, gpub)" "DeriveSessionKey C gpriv ceph sid = Inr key"
    "Admitter_Admit C nt a store token sid key = (Inr claims, store1)"
    "leaseIP a r sid = (Inr (assigned, ip), r')" "answer C priv gpub sid assigned store1 = (Inr sh, store')"
    by (auto simp: Admitter_Handshake_def split: sum.splits prod.splits)
  from *(3) have g: "rnd = Some gpriv" "gpub = x25519_pub C gpriv" by (auto simp: GenerateKeyPair_def split: option.splits)
  from *(7) obtain sig where sig: "SignHandshake C priv gpub sid = Some sig" "EncodeServerHello sid gpub sig assigned = Inr sh"
    "store' = store1" by (auto simp: answer_def split: option.splits sum.splits)
  show ?thesis
    using that [OF *(1,2) g(1) *(4)] *(5,6) sig g(2) unfolding Admitter_Admit_Inr by simp
qed

lemma answer_Inl:
  assumes "answer C priv gpub sid ip store = (Inl e, store')" and "e \<noteq> panicSign"
  shows "store' = SessionStore_Forget store sid"
proof (cases "SignHandshake C priv gpub sid")
  case (Some sig)
  with assms show ?thesis by (cases "EncodeServerHello sid gpub sig ip") (auto simp: answer_def)
qed (use assms in \<open>simp add: answer_def\<close>)

text \<open>A refused handshake leaves the store as it was, unless signing panicked.\<close>

lemma Handshake_Inl:
  assumes "Admitter_Handshake C nh nt rnd a store r hello priv = (Inl e, store', r')" and "e \<noteq> panicSign"
  shows "store' = store"
proof (cases "store' = store")
  case False
  with assms obtain sid token key claims store1 assigned where
    adm: "Admitter_Admit C nt a store token sid key = (Inr claims, store1)"
    and fin: "store' = SessionStore_Forget store1 sid \<or>
      (\<exists>gpub assigned. answer C priv gpub sid assigned store1 = (Inl e, store'))"
    by (auto simp: Admitter_Handshake_def dest: Admitter_Admit_Inl split: sum.splits prod.splits) blast
  from fin assms(2) have "store' = SessionStore_Forget store1 sid"
    using answer_Inl by blast
  with adm show ?thesis unfolding Admitter_Admit_Inr by (auto simp: Forget_register)
qed

text \<open>
  Whatever its outcome, a handshake leaves the store as it was or adds the key of one free session, after
  the hello was decoded and found fresh, the key derived and the token admitted.
\<close>

definition admissible :: "crypto \<Rightarrow> go_time \<Rightarrow> go_time \<Rightarrow> bytes option \<Rightarrow> duration \<Rightarrow> Service \<Rightarrow> bytes \<Rightarrow> SessionID \<Rightarrow> bytes \<Rightarrow> bool" where
  "admissible C nh nt rnd tol svc hello sid key \<longleftrightarrow>
     (\<exists>ts ceph token gpriv claims. DecodeClientHello hello = Inr (sid, ts, ceph, token) \<and>
        CheckHandshakeFresh ts nh tol = Inr () \<and> rnd = Some gpriv \<and> DeriveSessionKey C gpriv ceph sid = Inr key \<and>
        Admit C nt svc token = Inr claims)"

lemma Handshake_store:
  assumes "Admitter_Handshake C nh nt rnd a store r hello priv = (res, store', r')" and "store' \<noteq> store"
  obtains sid key where "admissible C nh nt rnd (ad_tolerance a) (ad_service a) hello sid key"
    "wf_session sid" "st_keys store sid = None" "store' = store\<lparr>st_keys := (st_keys store)(sid \<mapsto> key)\<rparr>"
proof -
  have "\<exists>sid key. admissible C nh nt rnd (ad_tolerance a) (ad_service a) hello sid key \<and>
      st_keys store sid = None \<and> store' = store\<lparr>st_keys := (st_keys store)(sid \<mapsto> key)\<rparr>"
  proof (cases res)
    case (Inl e)
    have e: "e = panicSign" using Handshake_Inl [OF assms(1) [unfolded Inl]] assms(2) by blast
    with assms Inl obtain sid ts ceph token gpriv gpub key claims store1 assigned where
      d: "DecodeClientHello hello = Inr (sid, ts, ceph, token)" "CheckHandshakeFresh ts nh (ad_tolerance a) = Inr ()"
        "GenerateKeyPair C rnd = Inr (gpriv, gpub)" "DeriveSessionKey C gpriv ceph sid = Inr key"
      and adm: "Admitter_Admit C nt a store token sid key = (Inr claims, store1)"
      and ans: "answer C priv gpub sid assigned store1 = (Inl panicSign, store')"
      by (auto simp: Admitter_Handshake_def Admitter_Admit_def split: sum.splits prod.splits bool.splits)
    have "rnd = Some gpriv" using d(3) by (auto simp: GenerateKeyPair_def split: option.splits)
    moreover have "store' = store1" using ans by (auto simp: answer_def split: option.splits sum.splits)
    ultimately show ?thesis using d adm unfolding Admitter_Admit_Inr admissible_def by auto
  next
    case (Inr x)
    obtain sh claims sid ip where x: "x = (sh, claims, sid, ip)" by (metis prod_cases4)
    show ?thesis
      by (rule Handshake_Inr [OF assms(1) [unfolded Inr x]]) (auto simp: admissible_def)
  qed
  then show ?thesis using that DecodeClientHello_inv(1) by (auto simp: admissible_def)
qed

section \<open>Properties\<close>

text \<open>
  C11. The handshake fails closed: with a gateway identity of the right size, a refused handshake leaves the store
  of admitted sessions exactly as it was, whichever step refused it; an answered one adds exactly one key, of a
  session that had none, after the hello was fresh and its token admitted.
\<close>

theorem handshake_fail_closed:
  assumes "length priv = PrivateKeySize"
    and "Admitter_Handshake C nh nt rnd a store r hello priv = (res, store', r')"
  shows "case res of
      Inl e \<Rightarrow> store' = store
    | Inr (sh, claims, sid, ip) \<Rightarrow> (\<exists>key. admissible C nh nt rnd (ad_tolerance a) (ad_service a) hello sid key \<and>
        st_keys store sid = None \<and> store' = store\<lparr>st_keys := (st_keys store)(sid \<mapsto> key)\<rparr>)"
proof (cases res)
  case (Inl e)
  have "e \<noteq> panicSign" using assms(2) [unfolded Inl] assms(1)
    by (auto simp: Admitter_Handshake_def Admitter_Admit_def answer_def SignHandshake_def split: sum.splits prod.splits bool.splits)
  with Handshake_Inl assms(2) Inl show ?thesis by auto
next
  case (Inr x)
  obtain sh claims sid ip where x: "x = (sh, claims, sid, ip)" by (metis prod_cases4)
  show ?thesis
    by (rule Handshake_Inr [OF assms(2) [unfolded Inr x]]) (auto simp: Inr x admissible_def)
qed

text \<open>The example: an empty datagram, and a leaser that has no address left.\<close>

theorem handshake_fail_closed_witness:
  "\<exists>e r'. Admitter_Handshake demo_crypto 0 0 None (NewAdmitter \<lparr>sv_Mode = ModeOpen, sv_Key = [], sv_Provider = None, sv_TokenTTL = 0\<rparr>)
     NewSessionStore () [] demo_identity = (Inl e, NewSessionStore, r')"
proof -
  let ?a = "NewAdmitter \<lparr>sv_Mode = ModeOpen, sv_Key = [], sv_Provider = None, sv_TokenTTL = 0\<rparr> :: unit Admitter"
  have d: "DecodeClientHello [] = Inl errShortHandshake" by (simp add: DecodeClientHello_def parseHandshakeHeader_def handshake_consts)
  then obtain e store' r' where h: "Admitter_Handshake demo_crypto 0 0 None ?a NewSessionStore () [] demo_identity = (Inl e, store', r')"
    by (simp add: Admitter_Handshake_def)
  from handshake_fail_closed [OF _ h] have "store' = NewSessionStore" by (simp add: demo_identity_def PrivateKeySize_def)
  with h show ?thesis by auto
qed

end
