(* ===== verification/Data_Plane.thy ===== *)
theory Data_Plane
  imports Admission
begin

text \<open>
  The gateway's data plane, \<^verbatim>\<open>internal/gateway/dataplane.go\<close>: one responder session per admitted
  client, created at its first datagram. The key resolver is an argument; in the gateway it is
  the session store.
\<close>

section \<open>The code\<close>

type_synonym KeyResolver = "SessionID \<Rightarrow> bytes option"

record DataPlane =
  dp_capacity :: int
  dp_sessions :: "SessionID \<rightharpoonup> Session"

definition NewDataPlane :: "int \<Rightarrow> DataPlane" where
  "NewDataPlane dedupCapacity = \<lparr>dp_capacity = dedupCapacity, dp_sessions = Map.empty\<rparr>"

definition sessionFor :: "KeyResolver \<Rightarrow> DataPlane \<Rightarrow> SessionID \<Rightarrow> (gw_error, Session) result \<times> DataPlane" where
  "sessionFor resolver d sid =
     (case dp_sessions d sid of
        Some s \<Rightarrow> (Inr s, d)
      | None \<Rightarrow>
          (case resolver sid of
             None \<Rightarrow> (Inl ErrUnknownSession, d)
           | Some key \<Rightarrow>
               (case NewSession sid key RoleResponder (dp_capacity d) of
                  Inl err \<Rightarrow> (Inl (CoreError err), d)
                | Inr s \<Rightarrow> (Inr s, d\<lparr>dp_sessions := (dp_sessions d)(sid \<mapsto> s)\<rparr>))))"

text \<open>The session is shared by pointer: an operation on it is written back into the table.\<close>

definition on_session ::
  "(Session \<Rightarrow> (core_error, 'a) result \<times> Session) \<Rightarrow> DataPlane \<Rightarrow> SessionID \<Rightarrow> Session \<Rightarrow>
   (gw_error, 'a) result \<times> DataPlane" where
  "on_session f d sid s =
     (case f s of (r, s') \<Rightarrow>
        ((case r of Inl e \<Rightarrow> Inl (CoreError e) | Inr x \<Rightarrow> Inr x), d\<lparr>dp_sessions := (dp_sessions d)(sid \<mapsto> s')\<rparr>))"

definition Handle :: "crypto \<Rightarrow> KeyResolver \<Rightarrow> DataPlane \<Rightarrow> bytes \<Rightarrow> (gw_error, bytes \<times> bool) result \<times> DataPlane" where
  "Handle C resolver d datagram =
     (case SessionIDFromDatagram datagram of
        Inl err \<Rightarrow> (Inl (CoreError err), d)
      | Inr sid \<Rightarrow>
          (case sessionFor resolver d sid of
             (Inl err, d') \<Rightarrow> (Inl err, d')
           | (Inr session, d') \<Rightarrow> on_session (\<lambda>s. Session_Inbound C s datagram) d' sid session))"

definition HandleClassified ::
  "crypto \<Rightarrow> KeyResolver \<Rightarrow> DataPlane \<Rightarrow> bytes \<Rightarrow> (gw_error, bytes \<times> ReplayDecision) result \<times> DataPlane" where
  "HandleClassified C resolver d datagram =
     (case SessionIDFromDatagram datagram of
        Inl err \<Rightarrow> (Inl (CoreError err), d)
      | Inr sid \<Rightarrow>
          (case sessionFor resolver d sid of
             (Inl err, d') \<Rightarrow> (Inl err, d')
           | (Inr session, d') \<Rightarrow> on_session (\<lambda>s. InboundClassified C s datagram) d' sid session))"

definition DataPlane_FrameReturn ::
  "crypto \<Rightarrow> KeyResolver \<Rightarrow> DataPlane \<Rightarrow> SessionID \<Rightarrow> bytes \<Rightarrow> (gw_error, bytes) result \<times> DataPlane" where
  "DataPlane_FrameReturn C resolver d sid payload =
     (case sessionFor resolver d sid of
        (Inl err, d') \<Rightarrow> (Inl err, d')
      | (Inr session, d') \<Rightarrow> on_session (\<lambda>s. Session_Outbound C s payload) d' sid session)"

text \<open>\<^verbatim>\<open>Forget\<close> with the session store as the resolver, whose keys it can forget.\<close>

definition DataPlane_Forget :: "DataPlane \<Rightarrow> SessionStore \<Rightarrow> SessionID \<Rightarrow> DataPlane \<times> SessionStore" where
  "DataPlane_Forget d store sid =
     (d\<lparr>dp_sessions := (dp_sessions d)(sid := None)\<rparr>, SessionStore_Forget store sid)"

section \<open>The eager data plane\<close>

text \<open>
  The specification has a session for every key from the start. \<open>dp_view\<close> is the table a lazy data plane
  stands for: a session not yet created is the one its key will give.
\<close>

definition dp_view :: "KeyResolver \<Rightarrow> DataPlane \<Rightarrow> SessionID \<rightharpoonup> Session" where
  "dp_view resolver d sid =
     (case dp_sessions d sid of
        Some s \<Rightarrow> Some s
      | None \<Rightarrow>
          (case resolver sid of
             None \<Rightarrow> None
           | Some key \<Rightarrow>
               (case NewSession sid key RoleResponder (dp_capacity d) of Inl _ \<Rightarrow> None | Inr s \<Rightarrow> Some s)))"

definition dp_inv :: "KeyResolver \<Rightarrow> DataPlane \<Rightarrow> bool" where
  "dp_inv resolver d \<longleftrightarrow> dp_capacity d \<le> max_int64 \<and> (\<forall>sid k. resolver sid = Some k \<longrightarrow> wf_session sid) \<and>
     (\<forall>sid s. dp_sessions d sid = Some s \<longrightarrow>
        session_inv s \<and> s_id s = sid \<and> s_role s = RoleResponder \<and> resolver sid = Some (s_sealer s))"

lemma dp_view_upd: "dp_view resolver (d\<lparr>dp_sessions := (dp_sessions d)(sid \<mapsto> s)\<rparr>) = (dp_view resolver d)(sid \<mapsto> s)"
proof
  fix k
  show "dp_view resolver (d\<lparr>dp_sessions := (dp_sessions d)(sid \<mapsto> s)\<rparr>) k = ((dp_view resolver d)(sid \<mapsto> s)) k"
    by (cases "dp_sessions d k"; cases "resolver k") (simp_all add: dp_view_def)
qed

lemma sessionFor_view:
  assumes "sessionFor resolver d sid = (r, d')"
  shows "dp_view resolver d' = dp_view resolver d" "dp_capacity d' = dp_capacity d"
    "\<And>s. r = Inr s \<Longrightarrow> dp_view resolver d sid = Some s \<and> dp_sessions d' sid = Some s"
    "\<And>e. r = Inl e \<Longrightarrow> dp_view resolver d sid = None \<and> d' = d"
    "\<And>k. k \<noteq> sid \<Longrightarrow> dp_sessions d' k = dp_sessions d k"
proof -
  consider (same) "d' = d" | (new) s where "dp_view resolver d sid = Some s" "d' = d\<lparr>dp_sessions := (dp_sessions d)(sid \<mapsto> s)\<rparr>"
    using assms by (auto simp: sessionFor_def dp_view_def split: option.splits sum.splits)
  then show "dp_view resolver d' = dp_view resolver d" "dp_capacity d' = dp_capacity d"
    "\<And>k. k \<noteq> sid \<Longrightarrow> dp_sessions d' k = dp_sessions d k"
    by (cases; simp add: dp_view_upd fun_upd_idem)+
qed (use assms in \<open>auto simp: sessionFor_def dp_view_def split: option.splits sum.splits\<close>)

lemma on_session_view:
  assumes "on_session f d sid s = (r, d')"
  shows "dp_view resolver d' = (dp_view resolver d)(sid \<mapsto> snd (f s))" "dp_capacity d' = dp_capacity d"
    "dp_sessions d' = (dp_sessions d)(sid \<mapsto> snd (f s))"
    "r = (case fst (f s) of Inl e \<Rightarrow> Inl (CoreError e) | Inr x \<Rightarrow> Inr x)"
  using assms by (auto simp: on_session_def dp_view_upd split: prod.splits)

lemma SessionIDFromDatagram_Inr: "SessionIDFromDatagram b = Inr sid \<longleftrightarrow> (\<exists>pid dir off. parseHeader b = Inr (pid, dir, off) \<and> sid = Session pid)"
  by (auto simp: SessionIDFromDatagram_def res_bind_Inr_iff)

text \<open>What the session of a datagram does, on the view.\<close>

definition view_handle ::
  "crypto \<Rightarrow> (SessionID \<rightharpoonup> Session) \<Rightarrow> bytes \<Rightarrow> (bytes \<times> ReplayDecision) option \<times> (SessionID \<rightharpoonup> Session)" where
  "view_handle C v datagram =
     (case SessionIDFromDatagram datagram of
        Inl _ \<Rightarrow> (None, v)
      | Inr sid \<Rightarrow>
          (case v sid of
             None \<Rightarrow> (None, v)
           | Some s \<Rightarrow>
               (case InboundClassified C s datagram of
                  (Inl _, s') \<Rightarrow> (None, v(sid \<mapsto> s'))
                | (Inr x, s') \<Rightarrow> (Some x, v(sid \<mapsto> s')))))"

definition result_option :: "('e, 'a) result \<Rightarrow> 'a option" where
  "result_option r = (case r of Inl _ \<Rightarrow> None | Inr x \<Rightarrow> Some x)"

lemma HandleClassified_view:
  assumes "HandleClassified C resolver d datagram = (r, d')"
  shows "view_handle C (dp_view resolver d) datagram = (result_option r, dp_view resolver d')"
proof (cases "SessionIDFromDatagram datagram")
  case (Inl e)
  with assms show ?thesis by (auto simp: HandleClassified_def view_handle_def result_option_def)
next
  case (Inr sid)
  obtain q d1 where sf: "sessionFor resolver d sid = (q, d1)" by fastforce
  note v = sessionFor_view [OF sf]
  show ?thesis
  proof (cases q)
    case (Inl e)
    with assms \<open>SessionIDFromDatagram datagram = Inr sid\<close> sf v(4) [OF Inl] show ?thesis
      by (auto simp: HandleClassified_def view_handle_def result_option_def)
  next
    case (Inr s)
    with assms \<open>SessionIDFromDatagram datagram = Inr sid\<close> sf
    have "on_session (\<lambda>s. InboundClassified C s datagram) d1 sid s = (r, d')" by (simp add: HandleClassified_def)
    note o = on_session_view [OF this]
    show ?thesis
      using v(1) o(1,4) \<open>SessionIDFromDatagram datagram = Inr sid\<close>
      by (auto simp: view_handle_def result_option_def v(3) [OF Inr] split: prod.splits sum.splits)
  qed
qed

lemma dp_inv_view:
  assumes "dp_inv resolver d" and "dp_view resolver d sid = Some s"
  shows "session_inv s" "s_id s = sid" "s_role s = RoleResponder" "resolver sid = Some (s_sealer s)"
proof -
  consider (cached) "dp_sessions d sid = Some s"
    | (new) key where "resolver sid = Some key" "NewSession sid key RoleResponder (dp_capacity d) = Inr s"
    using assms(2) by (auto simp: dp_view_def split: option.splits sum.splits)
  then show "session_inv s" "s_id s = sid" "s_role s = RoleResponder" "resolver sid = Some (s_sealer s)"
    using assms(1) NewSession_inv by (cases; force simp: dp_inv_def result_iff)+
qed

text \<open>
  An operation keeps the invariant when it looks a session up and changes it without touching its
  identity, its role and its key.
\<close>

definition keeps_session :: "(Session \<Rightarrow> 'a \<times> Session) \<Rightarrow> bool" where
  "keeps_session f \<longleftrightarrow> (\<forall>s. (session_inv s \<longrightarrow> session_inv (snd (f s))) \<and> s_id (snd (f s)) = s_id s \<and>
     s_role (snd (f s)) = s_role s \<and> s_sealer (snd (f s)) = s_sealer s)"

lemma keeps_InboundClassified: "keeps_session (\<lambda>s. InboundClassified C s w)"
  by (simp add: keeps_session_def InboundClassified_inv InboundClassified_frame)

lemma keeps_Outbound: "keeps_session (\<lambda>s. Session_Outbound C s p)"
  using Outbound_inv by (auto simp: keeps_session_def Outbound_eq)

lemma sessionFor_cases:
  assumes "sessionFor resolver d sid = (r, d')"
  shows "d' = d \<or> (\<exists>key s. resolver sid = Some key \<and> NewSession sid key RoleResponder (dp_capacity d) = Inr s \<and>
           d' = d\<lparr>dp_sessions := (dp_sessions d)(sid \<mapsto> s)\<rparr>)"
  using assms by (auto simp: sessionFor_def split: option.splits sum.splits)

lemma sessionFor_inv:
  assumes "dp_inv resolver d" and "sessionFor resolver d sid = (r, d')"
  shows "dp_inv resolver d'"
proof -
  consider (same) "d' = d"
    | (new) key s where "resolver sid = Some key" "NewSession sid key RoleResponder (dp_capacity d) = Inr s"
      "d' = d\<lparr>dp_sessions := (dp_sessions d)(sid \<mapsto> s)\<rparr>"
    using sessionFor_cases [OF assms(2)] by blast
  then show ?thesis
  proof cases
    case new
    have "dp_capacity d \<le> max_int64" "wf_session sid" using assms(1) new(1) by (auto simp: dp_inv_def)
    then have "session_inv s" using NewSession_inv [OF new(2)] by blast
    moreover have "s_id s = sid" "s_role s = RoleResponder" "s_sealer s = key" using new(2) by (auto simp: result_iff)
    ultimately show ?thesis using assms(1) new(1,3) by (simp add: dp_inv_def)
  qed (use assms(1) in simp)
qed

lemma on_session_inv:
  assumes "dp_inv resolver d" and "dp_sessions d sid = Some s" and "keeps_session f" and "on_session f d sid s = (r, d')"
  shows "dp_inv resolver d'"
  using assms(1-3) on_session_view [OF assms(4)]
  by (auto simp: dp_inv_def keeps_session_def)

lemma HandleClassified_inv:
  assumes "dp_inv resolver d"
  shows "dp_inv resolver (snd (HandleClassified C resolver d datagram))"
proof (cases "SessionIDFromDatagram datagram")
  case (Inr sid)
  obtain q d1 where sf: "sessionFor resolver d sid = (q, d1)" by fastforce
  note inv1 = sessionFor_inv [OF assms sf]
  show ?thesis
  proof (cases q)
    case (Inr s)
    obtain r d' where o: "on_session (\<lambda>s. InboundClassified C s datagram) d1 sid s = (r, d')" by fastforce
    have "dp_sessions d1 sid = Some s" using sessionFor_view(3) [OF sf Inr] by simp
    from on_session_inv [OF inv1 this keeps_InboundClassified o]
    show ?thesis using \<open>SessionIDFromDatagram datagram = Inr sid\<close> sf Inr o by (simp add: HandleClassified_def)
  qed (use \<open>SessionIDFromDatagram datagram = Inr sid\<close> sf inv1 in \<open>simp add: HandleClassified_def\<close>)
qed (use assms in \<open>simp add: HandleClassified_def\<close>)

lemma FrameReturn_inv:
  assumes "dp_inv resolver d"
  shows "dp_inv resolver (snd (DataPlane_FrameReturn C resolver d sid payload))"
proof -
  obtain q d1 where sf: "sessionFor resolver d sid = (q, d1)" by fastforce
  note inv1 = sessionFor_inv [OF assms sf]
  show ?thesis
  proof (cases q)
    case (Inr s)
    obtain r d' where o: "on_session (\<lambda>s. Session_Outbound C s payload) d1 sid s = (r, d')" by fastforce
    have "dp_sessions d1 sid = Some s" using sessionFor_view(3) [OF sf Inr] by simp
    from on_session_inv [OF inv1 this keeps_Outbound o] show ?thesis using sf Inr o by (simp add: DataPlane_FrameReturn_def)
  qed (use sf inv1 in \<open>simp add: DataPlane_FrameReturn_def\<close>)
qed

lemma FrameReturn_view:
  assumes "DataPlane_FrameReturn C resolver d sid payload = (r, d')"
  shows "case dp_view resolver d sid of
           None \<Rightarrow> (\<exists>e. r = Inl e) \<and> dp_view resolver d' = dp_view resolver d
         | Some s \<Rightarrow> result_option r = result_option (fst (Session_Outbound C s payload)) \<and>
             dp_view resolver d' = (dp_view resolver d)(sid \<mapsto> snd (Session_Outbound C s payload))"
proof -
  obtain q d1 where sf: "sessionFor resolver d sid = (q, d1)" by fastforce
  note v = sessionFor_view [OF sf]
  show ?thesis
  proof (cases q)
    case (Inl e)
    with assms sf v(4) [OF Inl] show ?thesis by (auto simp: DataPlane_FrameReturn_def)
  next
    case (Inr s)
    with assms sf have "on_session (\<lambda>s. Session_Outbound C s payload) d1 sid s = (r, d')"
      by (simp add: DataPlane_FrameReturn_def)
    note o = on_session_view [OF this]
    show ?thesis using v(1) v(3) [OF Inr] o(1,4) by (auto simp: result_option_def split: sum.splits)
  qed
qed

section \<open>The data plane as a duplicate filter\<close>

definition wire_key :: "bytes \<Rightarrow> SessionID \<times> PacketNumber" where
  "wire_key w = (case parseHeader w of Inl _ \<Rightarrow> ([], 0) | Inr (pid, _, _) \<Rightarrow> (Session pid, Number pid))"

definition view_step :: "crypto \<Rightarrow> (SessionID \<rightharpoonup> Session) \<Rightarrow> bytes \<Rightarrow> bool \<times> (SessionID \<rightharpoonup> Session)" where
  "view_step C v w = (\<exists>p. fst (view_handle C v w) = Some (p, ReplayFirstCopy), snd (view_handle C v w))"

definition view_spent :: "(SessionID \<rightharpoonup> Session) \<Rightarrow> SessionID \<times> PacketNumber \<Rightarrow> bool" where
  "view_spent v k = (\<exists>s. v (fst k) = Some s \<and> session_spent s (snd k))"

definition view_inv :: "(SessionID \<rightharpoonup> Session) \<Rightarrow> bool" where
  "view_inv v \<longleftrightarrow> (\<forall>sid s. v sid = Some s \<longrightarrow> session_inv s \<and> s_id s = sid \<and> s_role s = RoleResponder)"

lemma view_step_cases:
  obtains (refused) "view_step C v w = (False, v)"
  | (session) sid s where "v sid = Some s" "fst (wire_key w) = sid" "snd (wire_key w) = wire_number w"
      "view_step C v w = (fst (session_step C s w), v(sid \<mapsto> snd (session_step C s w)))"
proof (cases "parseHeader w")
  case (Inl e)
  then show ?thesis using refused by (simp add: view_step_def view_handle_def SessionIDFromDatagram_def)
next
  case (Inr h)
  obtain pid dir off where h: "parseHeader w = Inr (pid, dir, off)" using Inr by (cases h) simp
  then have sid: "SessionIDFromDatagram w = Inr (Session pid)" by (simp add: SessionIDFromDatagram_def)
  show ?thesis
  proof (cases "v (Session pid)")
    case None
    then show ?thesis using refused sid by (simp add: view_step_def view_handle_def)
  next
    case (Some s)
    obtain r s' where i: "InboundClassified C s w = (r, s')" by fastforce
    show ?thesis
      using session [OF Some] h sid Some i
      by (cases r) (simp_all add: view_step_def view_handle_def session_step_eq wire_key_def wire_number_def)
  qed
qed

lemma session_step_frame:
  "s_id (snd (session_step C s w)) = s_id s" "s_role (snd (session_step C s w)) = s_role s"
  "s_sealer (snd (session_step C s w)) = s_sealer s"
  by (simp_all add: session_step_eq InboundClassified_frame)

interpretation view_once: once_filter "view_step C" wire_key view_inv view_spent for C
proof
  fix v :: "SessionID \<rightharpoonup> Session" and w :: bytes and k :: "SessionID \<times> PacketNumber"
  assume inv: "view_inv v"
  then have s: "session_inv s" if "v sid = Some s" for sid s using that by (auto simp: view_inv_def)
  note once = session_once.inv_step [OF s] session_once.accept_fresh [OF s] session_once.accept_spends [OF s]
    session_once.spent_mono [OF s]
  show "view_inv (snd (view_step C v w))"
    by (rule view_step_cases [of C v w]) (use inv once(1) in \<open>auto simp: view_inv_def session_step_frame\<close>)
  show "fst (view_step C v w) \<Longrightarrow> \<not> view_spent v (wire_key w)"
    by (rule view_step_cases [of C v w]) (use once(2) in \<open>auto simp: view_spent_def\<close>)
  show "fst (view_step C v w) \<Longrightarrow> view_spent (snd (view_step C v w)) (wire_key w)"
    by (rule view_step_cases [of C v w]) (use once(3) in \<open>auto simp: view_spent_def\<close>)
  show "view_spent v k \<Longrightarrow> view_spent (snd (view_step C v w)) k"
    by (rule view_step_cases [of C v w]) (use once(4) in \<open>auto simp: view_spent_def\<close>)
qed

text \<open>\<^verbatim>\<open>Handle\<close> is \<^verbatim>\<open>HandleClassified\<close> with the decision reduced to whether it is a first copy.\<close>

lemma Handle_classified:
  "Handle C resolver d w =
     (case HandleClassified C resolver d w of
        (Inl e, d') \<Rightarrow> (Inl e, d') | (Inr (p, dec), d') \<Rightarrow> (Inr (p, dec = ReplayFirstCopy), d'))"
  by (auto simp: Handle_def HandleClassified_def on_session_def Session_Inbound_def split: sum.splits prod.splits)

section \<open>Properties\<close>

fun handle_all ::
  "crypto \<Rightarrow> KeyResolver \<Rightarrow> DataPlane \<Rightarrow> bytes list \<Rightarrow> (gw_error, bytes \<times> ReplayDecision) result list \<times> DataPlane" where
  "handle_all C resolver d [] = ([], d)"
| "handle_all C resolver d (w # ws) =
     (let (r, d1) = HandleClassified C resolver d w; (rs, d2) = handle_all C resolver d1 ws in (r # rs, d2))"

fun view_all ::
  "crypto \<Rightarrow> (SessionID \<rightharpoonup> Session) \<Rightarrow> bytes list \<Rightarrow> (bytes \<times> ReplayDecision) option list \<times> (SessionID \<rightharpoonup> Session)" where
  "view_all C v [] = ([], v)"
| "view_all C v (w # ws) =
     (let (r, v1) = view_handle C v w; (rs, v2) = view_all C v1 ws in (r # rs, v2))"

lemma handle_all_view:
  "view_all C (dp_view resolver d) ws =
     (map result_option (fst (handle_all C resolver d ws)), dp_view resolver (snd (handle_all C resolver d ws)))"
proof (induction ws arbitrary: d)
  case (Cons w ws)
  obtain r d1 where "HandleClassified C resolver d w = (r, d1)" by fastforce
  with HandleClassified_view [OF this] Cons [of d1] show ?case by (simp add: split_beta Let_def)
qed simp

text \<open>
  C14. The lazy data plane implements the eager one: on every sequence of datagrams, it accepts the same
  datagrams, with the same payloads and replay decisions, as a data plane that has a responder session for
  every key from the start.
\<close>

theorem dataplane_refines_eager:
  "map result_option (fst (handle_all C resolver (NewDataPlane cap) ws)) =
   fst (view_all C (\<lambda>sid. Option.bind (resolver sid) (\<lambda>key. result_option (NewSession sid key RoleResponder cap))) ws)"
proof -
  have "dp_view resolver (NewDataPlane cap) =
      (\<lambda>sid. Option.bind (resolver sid) (\<lambda>key. result_option (NewSession sid key RoleResponder cap)))"
    by (auto simp: fun_eq_iff dp_view_def NewDataPlane_def result_option_def split: option.splits)
  with handle_all_view [of C resolver "NewDataPlane cap" ws] show ?thesis by simp
qed

end
