(* ===== verification/Metrics.thy ===== *)
theory Metrics
  imports Go_Strings "HOL-Library.Multiset" "HOL-Library.List_Lexorder" "HOL-Library.Char_ord"
begin

text \<open>
  The metrics registry, \<^verbatim>\<open>internal/metrics/metrics.go\<close>. A Go map is iterated in an unspecified order:
  the series of a metric are an association list, whose order stands for the order of one
  iteration. A panic is \<^term>\<open>None\<close>. The vectors a registry hands out are pointers: they are indices into its
  tables.
\<close>

section \<open>Metrics\<close>

record sample =
  sm_labelValues :: "string list"
  sm_value :: int

record metric =
  m_name :: string
  m_help :: string
  m_labelNames :: "string list"
  m_series :: "(string \<times> sample) list"

definition series_key :: "string list \<Rightarrow> string" where
  "series_key labelValues = joined (CHR 0x00) labelValues"

text \<open>\<^verbatim>\<open>sampleFor\<close>, followed by the update \<open>f\<close> of the sample it returns.\<close>

fun upd_series :: "string \<Rightarrow> sample \<Rightarrow> (sample \<Rightarrow> sample) \<Rightarrow> (string \<times> sample) list \<Rightarrow> (string \<times> sample) list" where
  "upd_series key new f [] = [(key, f new)]"
| "upd_series key new f ((k, s) # series) = (if k = key then (k, f s) # series else (k, s) # upd_series key new f series)"

definition sampleFor :: "metric \<Rightarrow> string list \<Rightarrow> (sample \<Rightarrow> sample) \<Rightarrow> metric option" where
  "sampleFor m labelValues f =
     (if length labelValues \<noteq> length (m_labelNames m) then None
      else
        let key = series_key labelValues
        in Some (m\<lparr>m_series := upd_series key \<lparr>sm_labelValues = labelValues, sm_value = 0\<rparr> f (m_series m)\<rparr>))"

definition sample_Add :: "int \<Rightarrow> sample \<Rightarrow> sample" where
  "sample_Add delta s = s\<lparr>sm_value := wrap64 (sm_value s + delta)\<rparr>"

definition sample_Store :: "int \<Rightarrow> sample \<Rightarrow> sample" where
  "sample_Store v s = s\<lparr>sm_value := v\<rparr>"

definition Counter_Add :: "int \<Rightarrow> string list \<Rightarrow> metric \<Rightarrow> metric option" where
  "Counter_Add delta labelValues c = sampleFor c labelValues (sample_Add delta)"

definition Counter_Inc :: "string list \<Rightarrow> metric \<Rightarrow> metric option" where
  "Counter_Inc labelValues c = Counter_Add 1 labelValues c"

definition Gauge_Set :: "int \<Rightarrow> string list \<Rightarrow> metric \<Rightarrow> metric option" where
  "Gauge_Set v labelValues g = sampleFor g labelValues (sample_Store v)"

definition Gauge_Inc :: "string list \<Rightarrow> metric \<Rightarrow> metric option" where
  "Gauge_Inc labelValues g = sampleFor g labelValues (sample_Add 1)"

definition Gauge_Dec :: "string list \<Rightarrow> metric \<Rightarrow> metric option" where
  "Gauge_Dec labelValues g = sampleFor g labelValues (sample_Add (- 1))"

section \<open>Rendering\<close>

fun less_labels :: "string list \<Rightarrow> string list \<Rightarrow> bool" where
  "less_labels [] b = (0 < length b)"
| "less_labels (x # a) [] = False"
| "less_labels (x # a) (y # b) = (if x \<noteq> y then x < y else less_labels a b)"

definition escape_char :: "char \<Rightarrow> string" where
  "escape_char c =
     (if c = CHR 0x5C then [CHR 0x5C, CHR 0x5C]
      else if c = CHR 0x22 then [CHR 0x5C, CHR 0x22]
      else if c = CHR 0x0A then [CHR 0x5C, CHR ''n'']
      else [c])"

definition escape :: "string \<Rightarrow> string" where
  "escape v =
     (if \<not> (\<exists>c \<in> set v. c \<in> {CHR 0x5C, CHR 0x22, CHR 0x0A}) then v
      else concat (map escape_char v))"

definition write_pairs :: "(string \<times> string) list \<Rightarrow> string" where
  "write_pairs ps = joined (CHR '','') (map (\<lambda>(name, v). name @ [CHR ''='', CHR 0x22] @ escape v @ [CHR 0x22]) ps)"

definition writeLabels :: "string list \<Rightarrow> string list \<Rightarrow> string" where
  "writeLabels names vals =
     (if length names = 0 then '''' else ''{'' @ write_pairs (zip names vals) @ ''}'')"

text \<open>\<^verbatim>\<open>sort.Slice\<close> with a comparison function.\<close>

fun insort_by :: "('a \<Rightarrow> 'a \<Rightarrow> bool) \<Rightarrow> 'a \<Rightarrow> 'a list \<Rightarrow> 'a list" where
  "insort_by lt x [] = [x]"
| "insort_by lt x (y # ys) = (if \<not> lt y x then x # y # ys else y # insort_by lt x ys)"

definition sort_Slice :: "('a \<Rightarrow> 'a \<Rightarrow> bool) \<Rightarrow> 'a list \<Rightarrow> 'a list" where
  "sort_Slice lt xs = foldr (insort_by lt) xs []"

definition render_sample :: "metric \<Rightarrow> sample \<Rightarrow> string" where
  "render_sample m s =
     m_name m @ writeLabels (m_labelNames m) (sm_labelValues s) @ '' '' @ FormatInt (sm_value s) @ [CHR 0x0A]"

definition metric_render :: "metric \<Rightarrow> string \<Rightarrow> string" where
  "metric_render m typ =
     (let samples = map snd (m_series m);
          sorted = sort_Slice (\<lambda>a b. less_labels (sm_labelValues a) (sm_labelValues b)) samples
      in ''# HELP '' @ m_name m @ '' '' @ m_help m @ [CHR 0x0A] @
         ''# TYPE '' @ m_name m @ '' '' @ typ @ [CHR 0x0A] @
         concat (map (render_sample m) sorted))"

section \<open>Registries\<close>

record Registry =
  rg_counters :: "metric list"
  rg_gauges :: "metric list"

type_synonym CounterVec = nat
type_synonym GaugeVec = nat

definition NewRegistry :: Registry where
  "NewRegistry = \<lparr>rg_counters = [], rg_gauges = []\<rparr>"

definition new_metric :: "string \<Rightarrow> string \<Rightarrow> string list \<Rightarrow> metric" where
  "new_metric name help labelNames = \<lparr>m_name = name, m_help = help, m_labelNames = labelNames, m_series = []\<rparr>"

definition Registry_Counter :: "Registry \<Rightarrow> string \<Rightarrow> string \<Rightarrow> string list \<Rightarrow> CounterVec \<times> Registry" where
  "Registry_Counter r name help labelNames =
     (length (rg_counters r), r\<lparr>rg_counters := rg_counters r @ [new_metric name help labelNames]\<rparr>)"

definition Registry_Gauge :: "Registry \<Rightarrow> string \<Rightarrow> string \<Rightarrow> string list \<Rightarrow> GaugeVec \<times> Registry" where
  "Registry_Gauge r name help labelNames =
     (length (rg_gauges r), r\<lparr>rg_gauges := rg_gauges r @ [new_metric name help labelNames]\<rparr>)"

definition Render :: "Registry \<Rightarrow> string" where
  "Render r = concat (map (\<lambda>c. metric_render c ''counter'') (rg_counters r)) @
              concat (map (\<lambda>g. metric_render g ''gauge'') (rg_gauges r))"

text \<open>An operation of a vector, through its pointer.\<close>

definition on_counter :: "(metric \<Rightarrow> metric option) \<Rightarrow> CounterVec \<Rightarrow> Registry \<Rightarrow> Registry option" where
  "on_counter f c r = map_option (\<lambda>m. r\<lparr>rg_counters := (rg_counters r)[c := m]\<rparr>) (f (rg_counters r ! c))"

definition on_gauge :: "(metric \<Rightarrow> metric option) \<Rightarrow> GaugeVec \<Rightarrow> Registry \<Rightarrow> Registry option" where
  "on_gauge f g r = map_option (\<lambda>m. r\<lparr>rg_gauges := (rg_gauges r)[g := m]\<rparr>) (f (rg_gauges r ! g))"

section \<open>Invariant\<close>

text \<open>Keys are distinct, and each is the key of its sample's label values, of which there are as many as names.\<close>

definition metric_inv :: "metric \<Rightarrow> bool" where
  "metric_inv m \<longleftrightarrow> distinct (map fst (m_series m)) \<and>
     (\<forall>(k, s) \<in> set (m_series m). k = series_key (sm_labelValues s) \<and> length (sm_labelValues s) = length (m_labelNames m))"

lemma new_metric_inv [simp]: "metric_inv (new_metric name help names)"
  by (simp add: metric_inv_def new_metric_def)

lemma upd_series_keys:
  "map fst (upd_series key new f series) = (if key \<in> set (map fst series) then map fst series else map fst series @ [key])"
  by (induction series) (auto split: if_splits)

lemma upd_series_mem:
  "(k, s) \<in> set (upd_series key new f series) \<Longrightarrow>
     (k, s) \<in> set series \<or> (k = key \<and> (s = f new \<or> (\<exists>s0. (key, s0) \<in> set series \<and> s = f s0)))"
  by (induction series) (auto split: if_splits)

lemma sampleFor_inv:
  assumes "metric_inv m" and "sampleFor m lv f = Some m'" and "\<And>s. sm_labelValues (f s) = sm_labelValues s"
  shows "metric_inv m'"
  unfolding metric_inv_def
proof (intro conjI ballI)
  let ?new = "\<lparr>sm_labelValues = lv, sm_value = 0\<rparr>"
  from assms(2) have m': "m' = m\<lparr>m_series := upd_series (series_key lv) ?new f (m_series m)\<rparr>"
    and len: "length lv = length (m_labelNames m)" by (auto simp: sampleFor_def Let_def split: if_splits)
  show "distinct (map fst (m_series m'))" using assms(1) unfolding m' by (simp add: upd_series_keys metric_inv_def del: map_map)
  fix x
  assume x: "x \<in> set (m_series m')"
  obtain k s where ks: "x = (k, s)" by (cases x)
  from x have "(k, s) \<in> set (m_series m) \<or> (k = series_key lv \<and> (s = f ?new \<or> (\<exists>s0. (series_key lv, s0) \<in> set (m_series m) \<and> s = f s0)))"
    unfolding ks m' by (simp add: upd_series_mem)
  then show "case x of (k, s) \<Rightarrow> k = series_key (sm_labelValues s) \<and> length (sm_labelValues s) = length (m_labelNames m')"
    using assms(1,3) len unfolding ks m' metric_inv_def by fastforce
qed

lemma inv_distinct_labels:
  assumes "metric_inv m"
  shows "distinct (map sm_labelValues (map snd (m_series m)))"
proof -
  have "map fst (m_series m) = map series_key (map sm_labelValues (map snd (m_series m)))"
    using assms by (auto simp: metric_inv_def)
  then show ?thesis using assms by (metis distinct_map metric_inv_def)
qed

section \<open>The value of a series\<close>

definition series_value :: "metric \<Rightarrow> string list \<Rightarrow> int" where
  "series_value m lv = (case map_of (m_series m) (series_key lv) of None \<Rightarrow> 0 | Some s \<Rightarrow> sm_value s)"

lemma map_of_upd_series:
  "map_of (upd_series key new f series) k =
     (if k = key then Some (f (case map_of series key of None \<Rightarrow> new | Some s \<Rightarrow> s)) else map_of series k)"
  by (induction series) auto

lemma series_value_Add:
  assumes "Counter_Add delta lv m = Some m'"
  shows "series_value m' lv' =
     (if series_key lv' = series_key lv then wrap64 (series_value m lv + delta) else series_value m lv')"
  using assms
  by (auto simp: Counter_Add_def sampleFor_def series_value_def Let_def map_of_upd_series sample_Add_def
      split: if_splits option.splits)

lemma on_counter_Add_series:
  assumes "i < length (rg_counters reg)" and "length lv = length (m_labelNames (rg_counters reg ! i))"
  shows "\<exists>reg'. on_counter (Counter_Add n lv) i reg = Some reg' \<and>
    map m_labelNames (rg_counters reg') = map m_labelNames (rg_counters reg) \<and> rg_gauges reg' = rg_gauges reg \<and>
    (\<forall>j lv'. series_value (rg_counters reg' ! j) lv' =
       (if j = i \<and> series_key lv' = series_key lv then wrap64 (series_value (rg_counters reg ! i) lv + n)
        else series_value (rg_counters reg ! j) lv'))"
proof -
  from assms(2) obtain m where m: "Counter_Add n lv (rg_counters reg ! i) = Some m" and
    names: "m_labelNames m = m_labelNames (rg_counters reg ! i)" by (auto simp: Counter_Add_def sampleFor_def Let_def)
  have "series_value ((rg_counters reg)[i := m] ! j) lv' =
       (if j = i \<and> series_key lv' = series_key lv then wrap64 (series_value (rg_counters reg ! i) lv + n)
        else series_value (rg_counters reg ! j) lv')" for j lv'
    using series_value_Add [OF m] assms(1) by (cases "j = i") simp_all
  moreover have "map m_labelNames ((rg_counters reg)[i := m]) = map m_labelNames (rg_counters reg)"
    using names assms(1) by (simp add: map_update list_update_same_conv)
  ultimately show ?thesis using m by (auto simp: on_counter_def)
qed

lemma less_labels_lex: "less_labels a b \<longleftrightarrow> a < b"
proof (induction a b rule: less_labels.induct)
  case (1 b)
  then show ?case by (cases b) simp_all
qed auto

lemma insort_by_key:
  fixes f :: "'a \<Rightarrow> 'b::linorder"
  shows "insort_by (\<lambda>a b. f a < f b) x ys = insort_key f x ys"
  by (induction ys) (auto simp: not_less)

lemma sort_Slice_key:
  fixes f :: "'a \<Rightarrow> 'b::linorder"
  shows "sort_Slice (\<lambda>a b. f a < f b) xs = sort_key f xs"
proof -
  have "insort_by (\<lambda>a b. f a < f b) = insort_key f" by (rule ext)+ (rule insort_by_key)
  then show ?thesis by (simp add: sort_Slice_def sort_key_def)
qed

lemma escape_concat: "escape v = concat (map escape_char v)"
proof (cases "\<exists>c \<in> set v. c \<in> {CHR 0x5C, CHR 0x22, CHR 0x0A}")
  case False
  then have "concat (map escape_char v) = v" by (induction v) (auto simp: escape_char_def)
  with False show ?thesis by (simp add: escape_def)
qed (simp add: escape_def)

text \<open>How a scraper reads a label value: up to the first quote that is not escaped.\<close>

fun read_value :: "string \<Rightarrow> (string \<times> string) option" where
  "read_value [] = None"
| "read_value (c # cs) =
     (if c = CHR 0x22 then Some ([], cs)
      else if c = CHR 0x5C then
        (case cs of [] \<Rightarrow> None
         | e # cs' \<Rightarrow> map_option (\<lambda>(v, rest). ((if e = CHR ''n'' then CHR 0x0A else e) # v, rest)) (read_value cs'))
      else map_option (\<lambda>(v, rest). (c # v, rest)) (read_value cs))"

lemma read_value_escape: "read_value (escape v @ CHR 0x22 # rest) = Some (v, rest)"
proof -
  have "read_value (concat (map escape_char v) @ CHR 0x22 # rest) = Some (v, rest)"
    by (induction v) (auto simp: escape_char_def)
  then show ?thesis by (simp add: escape_concat)
qed

lemma escape_no_newline: "CHR 0x0A \<notin> set (escape v)"
  by (auto simp: escape_concat escape_char_def)

text \<open>Label values with a zero byte can share a series.\<close>

lemma zero_byte_collision:
  "series_key [[CHR ''a'', CHR 0x00, CHR ''b''], ''c''] = series_key [''a'', [CHR ''b'', CHR 0x00, CHR ''c'']]"
  by (simp add: series_key_def)

section \<open>Properties\<close>

text \<open>
  Rendering is deterministic: whatever the order in which the map of series is iterated, the text is the
  same, and its lines are in strictly increasing order of their label values.
\<close>

theorem render_deterministic:
  assumes "metric_inv m" and "mset series = mset (m_series m)"
  shows "metric_render (m\<lparr>m_series := series\<rparr>) typ = metric_render m typ \<and>
    sorted_wrt (\<lambda>a b. less_labels (sm_labelValues a) (sm_labelValues b))
      (sort_Slice (\<lambda>a b. less_labels (sm_labelValues a) (sm_labelValues b)) (map snd series))"
proof
  let ?lt = "\<lambda>a b. less_labels (sm_labelValues a) (sm_labelValues b)"
  have d: "distinct (map sm_labelValues (map snd (m_series m)))" by (rule inv_distinct_labels [OF assms(1)])
  have ms: "mset (map snd series) = mset (map snd (m_series m))" using assms(2) by simp
  have s: "sort_Slice ?lt xs = sort_key sm_labelValues xs" for xs by (simp add: less_labels_lex sort_Slice_key)
  have eq: "sort_key sm_labelValues (map snd series) = sort_key sm_labelValues (map snd (m_series m))"
  proof (rule sort_key_inj_key_eq)
    show "inj_on sm_labelValues (set (map snd series))" using d ms by (metis distinct_map mset_eq_setD)
  qed (use ms in auto)
  then show "metric_render (m\<lparr>m_series := series\<rparr>) typ = metric_render m typ"
    by (simp add: metric_render_def s Let_def render_sample_def [abs_def])
  have "distinct (map sm_labelValues (sort_key sm_labelValues (map snd (m_series m))))"
    using d by (metis distinct_map distinct_sort set_sort)
  then have "sorted_wrt (<) (map sm_labelValues (sort_key sm_labelValues (map snd (m_series m))))"
    using sorted_sort_key strict_sorted_iff by blast
  then show "sorted_wrt ?lt (sort_Slice ?lt (map snd series))"
    by (simp add: less_labels_lex sort_Slice_key eq sorted_wrt_map)
qed

definition demo_metric :: metric where
  "demo_metric = (new_metric ''n'' ''h'' [''l''])\<lparr>m_series :=
     [(''b'', \<lparr>sm_labelValues = [''b''], sm_value = 2\<rparr>), (''a'', \<lparr>sm_labelValues = [''a''], sm_value = 1\<rparr>)]\<rparr>"

end
