(* ===== verification/Data_Gateway.thy ===== *)
theory Data_Gateway
  imports Data_Plane Metrics
begin

text \<open>
  The gateway, \<^verbatim>\<open>internal/gateway/datagateway.go\<close>: it terminates handshakes, admits sessions, decrypts
  and deduplicates data, forwards first copies to the exit router and frames return traffic. The exit router
  and the registry are owned by the gateway and part of its state. A panic of the metrics registry or
  of \<^verbatim>\<open>ed25519.Sign\<close> sets \<open>g_panicked\<close>. Clock readings, randomness, the received datagram with its source
  address and the answer of the TUN device are arguments; what is sent or written is a list of effects. Log
  output is left out.
\<close>

section \<open>The code\<close>

record DataRecord =
  dr_Kind :: string
  dr_Admitted :: bool
  dr_Deliver :: bool
  dr_Payload :: bytes
  dr_SessionID :: SessionID
  dr_TunnelIP :: Addr

definition record_of :: "string \<Rightarrow> DataRecord" where
  "record_of kind = \<lparr>dr_Kind = kind, dr_Admitted = False, dr_Deliver = False, dr_Payload = [],
     dr_SessionID = zeroSession, dr_TunnelIP = NoAddr\<rparr>"

record DataGateway =
  g_identityPriv :: bytes
  g_admitter :: "Router option Admitter"
  g_store :: SessionStore
  g_dataPlane :: DataPlane
  g_capacity :: int
  g_exit :: "Router option"
  g_metrics :: Registry
  g_handshakes :: CounterVec
  g_dataPackets :: CounterVec
  g_activeSession :: GaugeVec
  g_exitForwarded :: CounterVec
  g_exitForwardedBytes :: CounterVec
  g_exitReturned :: CounterVec
  g_exitReturnedBytes :: CounterVec
  g_exitDropped :: CounterVec
  g_panicked :: bool

text \<open>The calls that register the metrics, in the order of the struct literal.\<close>

definition NewDataGateway :: "bytes \<Rightarrow> Service \<Rightarrow> int \<Rightarrow> DataGateway" where
  "NewDataGateway identityPriv service dedupCapacity =
     (let store = NewSessionStore;
          reg = NewRegistry;
          (handshakes, reg) = Registry_Counter reg ''gemina_handshakes_total'' ''Handshakes by result.'' [''result''];
          (dataPackets, reg) = Registry_Counter reg ''gemina_data_packets_total'' ''Data datagrams by decision.'' [''decision''];
          (activeSession, reg) = Registry_Gauge reg ''gemina_active_sessions'' ''Sessions currently admitted on the gateway.'' [];
          (exitForwarded, reg) = Registry_Counter reg ''gemina_exit_forwarded_total'' ''Inner packets forwarded to the internet.'' [];
          (exitForwardedBytes, reg) =
            Registry_Counter reg ''gemina_exit_forwarded_bytes_total'' ''Inner bytes forwarded to the internet.'' [];
          (exitReturned, reg) = Registry_Counter reg ''gemina_exit_returned_total'' ''Return datagrams sent back to clients.'' [];
          (exitReturnedBytes, reg) =
            Registry_Counter reg ''gemina_exit_returned_bytes_total'' ''Return bytes sent back to clients.'' [];
          (exitDropped, reg) = Registry_Counter reg ''gemina_exit_dropped_total'' ''Exit-path drops by reason.'' [''reason'']
      in \<lparr>g_identityPriv = identityPriv, g_admitter = NewAdmitter service, g_store = store,
          g_dataPlane = NewDataPlane dedupCapacity, g_capacity = dedupCapacity, g_exit = None, g_metrics = reg,
          g_handshakes = handshakes, g_dataPackets = dataPackets, g_activeSession = activeSession,
          g_exitForwarded = exitForwarded, g_exitForwardedBytes = exitForwardedBytes,
          g_exitReturned = exitReturned, g_exitReturnedBytes = exitReturnedBytes, g_exitDropped = exitDropped,
          g_panicked = False\<rparr>)"

text \<open>The router's \<^verbatim>\<open>Lease\<close> on the gateway's router; the leaser is set together with the router.\<close>

definition exit_Lease :: "Router option \<Rightarrow> SessionID \<Rightarrow> (exit_error, Addr) result \<times> Router option" where
  "exit_Lease ro sid =
     (case ro of None \<Rightarrow> (Inl ErrNoLease, None)
      | Some r \<Rightarrow> (case Router_Lease r sid of (res, r') \<Rightarrow> (res, Some r')))"

definition EnableExit :: "DataGateway \<Rightarrow> Router \<Rightarrow> DataGateway" where
  "EnableExit g r = g\<lparr>g_exit := Some r, g_admitter := SetLeaser (g_admitter g) exit_Lease\<rparr>"

definition metric_do :: "(Registry \<Rightarrow> Registry option) \<Rightarrow> DataGateway \<Rightarrow> DataGateway" where
  "metric_do f g = (case f (g_metrics g) of None \<Rightarrow> g\<lparr>g_panicked := True\<rparr> | Some reg \<Rightarrow> g\<lparr>g_metrics := reg\<rparr>)"

definition inc :: "(DataGateway \<Rightarrow> CounterVec) \<Rightarrow> string list \<Rightarrow> DataGateway \<Rightarrow> DataGateway" where
  "inc c lv g = metric_do (on_counter (Counter_Inc lv) (c g)) g"

definition add_n :: "(DataGateway \<Rightarrow> CounterVec) \<Rightarrow> int \<Rightarrow> DataGateway \<Rightarrow> DataGateway" where
  "add_n c n g = metric_do (on_counter (Counter_Add n []) (c g)) g"

definition FrameReturn :: "crypto \<Rightarrow> DataGateway \<Rightarrow> SessionID \<Rightarrow> bytes \<Rightarrow> (gw_error, bytes) result \<times> DataGateway" where
  "FrameReturn C g sid payload =
     (case DataPlane_FrameReturn C (SessionKey (g_store g)) (g_dataPlane g) sid payload of
        (r, d) \<Rightarrow> (r, g\<lparr>g_dataPlane := d\<rparr>))"

text \<open>The gateway as the router's metrics: \<^verbatim>\<open>Forwarded\<close>, \<^verbatim>\<open>Dropped\<close> and \<^verbatim>\<open>Returned\<close>.\<close>

fun exit_metric :: "DataGateway \<Rightarrow> exit_effect \<Rightarrow> DataGateway" where
  "exit_metric g (Forwarded n) = add_n g_exitForwardedBytes (int n) (inc g_exitForwarded [] g)"
| "exit_metric g (Dropped reason) = inc g_exitDropped [reason] g"
| "exit_metric g (Returned n) = add_n g_exitReturnedBytes (int n) (inc g_exitReturned [] g)"
| "exit_metric g (TunWrite p) = g"
| "exit_metric g (SendTo d ep) = g"

definition handleHandshake ::
  "crypto \<Rightarrow> go_time \<Rightarrow> go_time \<Rightarrow> bytes option \<Rightarrow> DataGateway \<Rightarrow> bytes \<Rightarrow> bytes option \<times> DataRecord \<times> DataGateway" where
  "handleHandshake C nowHello nowToken rnd g datagram =
     (case Admitter_Handshake C nowHello nowToken rnd (g_admitter g) (g_store g) (g_exit g) datagram (g_identityPriv g) of
        (Inl err, store, ex) \<Rightarrow>
          let g1 = g\<lparr>g_store := store, g_exit := ex\<rparr> in
          if err = panicSign then (None, record_of ''client-hello'', g1\<lparr>g_panicked := True\<rparr>)
          else (None, record_of ''client-hello'', inc g_handshakes [''rejected''] g1)
      | (Inr (serverHello, _, sid, tunnelIP), store, ex) \<Rightarrow>
          let g1 = inc g_handshakes [''admitted''] (g\<lparr>g_store := store, g_exit := ex\<rparr>);
              g2 = metric_do (on_gauge (Gauge_Set (int (store_len (g_store g1))) []) (g_activeSession g1)) g1;
              rec = (record_of ''client-hello'')\<lparr>dr_Admitted := True, dr_SessionID := sid\<rparr>
          in (Some serverHello, (if tunnelIP \<noteq> NoAddr then rec\<lparr>dr_TunnelIP := tunnelIP\<rparr> else rec), g2))"

definition handleData :: "crypto \<Rightarrow> DataGateway \<Rightarrow> bytes \<Rightarrow> DataRecord \<times> DataGateway" where
  "handleData C g datagram =
     (let sid = (case SessionIDFromDatagram datagram of Inl _ \<Rightarrow> zeroSession | Inr sid \<Rightarrow> sid) in
      case HandleClassified C (SessionKey (g_store g)) (g_dataPlane g) datagram of
        (Inl err, d) \<Rightarrow> (record_of ''data'', inc g_dataPackets [''rejected''] (g\<lparr>g_dataPlane := d\<rparr>))
      | (Inr (payload, decision), d) \<Rightarrow>
          let g1 = g\<lparr>g_dataPlane := d\<rparr> in
          if decision = ReplayFirstCopy then
            ((record_of ''data'')\<lparr>dr_Deliver := True, dr_Payload := payload, dr_SessionID := sid\<rparr>,
             inc g_dataPackets [''first-copy''] g1)
          else if decision = ReplayStale then
            ((record_of ''data'')\<lparr>dr_SessionID := sid\<rparr>, inc g_dataPackets [''stale''] g1)
          else ((record_of ''data'')\<lparr>dr_SessionID := sid\<rparr>, inc g_dataPackets [''duplicate''] g1))"

definition HandleDatagram ::
  "crypto \<Rightarrow> go_time \<Rightarrow> go_time \<Rightarrow> bytes option \<Rightarrow> DataGateway \<Rightarrow> bytes \<Rightarrow> bytes option \<times> DataRecord \<times> DataGateway" where
  "HandleDatagram C nowHello nowToken rnd g datagram =
     (case ClassifyDatagram datagram of
        KindClientHello \<Rightarrow> handleHandshake C nowHello nowToken rnd g datagram
      | KindData \<Rightarrow> (case handleData C g datagram of (rec, g') \<Rightarrow> (None, rec, g'))
      | KindPing \<Rightarrow>
          (case DecodePing datagram of
             Inr (False, n) \<Rightarrow> (Some (EncodePong n), record_of ''ping'', g)
           | _ \<Rightarrow> (None, record_of ''ping'', g))
      | _ \<Rightarrow> (None, record_of ''unknown'', inc g_dataPackets [''rejected''] g))"

section \<open>The serve loop\<close>

datatype net_Addr = UDPAddr AddrPort | OtherAddr string

definition udpAddrPort :: "net_Addr \<Rightarrow> AddrPort option" where
  "udpAddrPort a = (case a of UDPAddr ap \<Rightarrow> Some ap | OtherAddr _ \<Rightarrow> None)"

datatype gw_effect = WriteTo bytes net_Addr | ExitEffect exit_effect

text \<open>What the environment supplies for one received datagram.\<close>

record reception =
  rc_datagram :: bytes
  rc_src :: net_Addr
  rc_nowHello :: go_time
  rc_nowToken :: go_time
  rc_rnd :: "bytes option"
  rc_nowPath :: go_time
  rc_devOk :: bool

definition exit_step :: "reception \<Rightarrow> DataRecord \<Rightarrow> DataGateway \<Rightarrow> Router \<Rightarrow> exit_effect list \<times> DataGateway" where
  "exit_step rc rec g r =
     (let r1 = (case udpAddrPort (rc_src rc) of
                  Some ap \<Rightarrow> Router_RecordPath r (rc_nowPath rc) (dr_SessionID rec) ap
                | None \<Rightarrow> r);
          g1 = g\<lparr>g_exit := Some r1\<rparr>
      in if dr_Deliver rec then
           (case Router_Egress r1 (dr_SessionID rec) (dr_Payload rec) (rc_devOk rc) of
              (_, effs) \<Rightarrow> (effs, foldl exit_metric g1 effs))
         else ([], g1))"

text \<open>One iteration of the loop of \<^verbatim>\<open>Serve\<close>; the buffer holds 2048 bytes.\<close>

definition Serve_step :: "crypto \<Rightarrow> DataGateway \<Rightarrow> reception \<Rightarrow> gw_effect list \<times> DataGateway" where
  "Serve_step C g rc =
     (case HandleDatagram C (rc_nowHello rc) (rc_nowToken rc) (rc_rnd rc) g (take 2048 (rc_datagram rc)) of
        (reply, rec, g1) \<Rightarrow>
          let out = (case reply of None \<Rightarrow> [] | Some b \<Rightarrow> [WriteTo b (rc_src rc)]) in
          (case g_exit g1 of
             None \<Rightarrow> (out, g1)
           | Some r \<Rightarrow>
               if dr_Kind rec = ''data'' \<and> \<not> SessionID_IsZero (dr_SessionID rec) then
                 (case exit_step rc rec g1 r of (effs, g2) \<Rightarrow> (out @ map ExitEffect effs, g2))
               else (out, g1)))"

datatype conn_read = ReadFrom reception | ReadErr bool

text \<open>The loop returns at a read error: without an error when the context is done or the connection closed.\<close>

fun Serve :: "crypto \<Rightarrow> DataGateway \<Rightarrow> conn_read list \<Rightarrow> gw_effect list \<times> DataGateway \<times> bool option" where
  "Serve C g [] = ([], g, None)"
| "Serve C g (ReadErr closed # _) = ([], g, Some closed)"
| "Serve C g (ReadFrom rc # rds) =
     (let (effs, g1) = Serve_step C g rc; (effs', g2, res) = Serve C g1 rds in (effs @ effs', g2, res))"

text \<open>One iteration of the return loop, with the gateway as the framer and as the metrics.\<close>

definition Return_step ::
  "crypto \<Rightarrow> (AddrPort \<Rightarrow> bool) \<Rightarrow> go_time \<Rightarrow> DataGateway \<Rightarrow> bytes \<Rightarrow> exit_effect list \<times> DataGateway" where
  "Return_step C sinkOk now g packet =
     (case g_exit g of
        None \<Rightarrow> ([], g)
      | Some r \<Rightarrow>
          (case ServeReturn_step (FrameReturn C) sinkOk now (r, g) packet of
             (effs, r', g') \<Rightarrow> (effs, foldl exit_metric (g'\<lparr>g_exit := Some r'\<rparr>) effs)))"

section \<open>The state under the metrics\<close>

text \<open>The metrics change nothing else of the gateway.\<close>

definition core_eq :: "DataGateway \<Rightarrow> DataGateway \<Rightarrow> bool" where
  "core_eq g h \<longleftrightarrow> h = g\<lparr>g_metrics := g_metrics h, g_panicked := g_panicked h\<rparr>"

lemma core_eq_refl [simp]: "core_eq g g"
  by (simp add: core_eq_def)

lemma core_eq_trans: "core_eq g h \<Longrightarrow> core_eq h k \<Longrightarrow> core_eq g k"
  by (cases g; cases h; cases k) (simp add: core_eq_def)

lemma core_eq_fields:
  assumes "core_eq g h"
  shows "g_store h = g_store g" "g_dataPlane h = g_dataPlane g" "g_exit h = g_exit g" "g_admitter h = g_admitter g"
    "g_identityPriv h = g_identityPriv g" "g_capacity h = g_capacity g" "g_handshakes h = g_handshakes g"
    "g_dataPackets h = g_dataPackets g" "g_activeSession h = g_activeSession g"
    "g_exitForwarded h = g_exitForwarded g" "g_exitForwardedBytes h = g_exitForwardedBytes g"
    "g_exitReturned h = g_exitReturned g" "g_exitReturnedBytes h = g_exitReturnedBytes g" "g_exitDropped h = g_exitDropped g"
  using assms by (cases g; cases h; simp add: core_eq_def)+

lemma core_metric_do [simp]: "core_eq g (metric_do f g)"
  by (simp add: core_eq_def metric_do_def split: option.splits)

lemma core_inc [simp]: "core_eq g (inc c lv g)" "core_eq g (add_n c n g)"
  by (simp_all add: inc_def add_n_def)

lemma core_exit_metric [simp]: "core_eq g (exit_metric g e)"
  by (cases e) (auto intro: core_eq_trans [OF core_inc(1) core_inc(2)])

lemma core_exit_metrics [simp]: "core_eq g (foldl exit_metric g effs)"
  by (induction effs arbitrary: g) (auto intro: core_eq_trans [OF core_exit_metric])

lemmas metric_fields [simp] =
  core_eq_fields [OF core_metric_do] core_eq_fields [OF core_inc(1)] core_eq_fields [OF core_inc(2)]
  core_eq_fields [OF core_exit_metrics] core_eq_fields [OF core_exit_metric]

section \<open>Invariant\<close>

abbreviation g_view :: "DataGateway \<Rightarrow> SessionID \<rightharpoonup> Session" where
  "g_view g \<equiv> dp_view (SessionKey (g_store g)) (g_dataPlane g)"

definition gw_inv :: "DataGateway \<Rightarrow> bool" where
  "gw_inv g \<longleftrightarrow> dp_inv (SessionKey (g_store g)) (g_dataPlane g)"

lemma gw_inv_new [simp]: "cap \<le> max_int64 \<Longrightarrow> gw_inv (NewDataGateway priv svc cap)"
  by (simp add: gw_inv_def NewDataGateway_def NewDataPlane_def dp_inv_def Registry_Counter_def Registry_Gauge_def
      SessionKey_def NewSessionStore_def)

lemma gw_inv_EnableExit [simp]: "gw_inv (EnableExit g r) = gw_inv g"
  by (simp add: gw_inv_def EnableExit_def)

text \<open>Registering a free session keeps the data plane's invariant, and adds only a fresh session to its view.\<close>

lemma register_inv:
  assumes "dp_inv (SessionKey store) d" and "wf_session sid" and "st_keys store sid = None"
  shows "dp_inv (SessionKey (store\<lparr>st_keys := (st_keys store)(sid \<mapsto> key)\<rparr>)) d"
  using assms by (auto simp: dp_inv_def SessionKey_def)

lemma register_view:
  assumes "dp_inv (SessionKey store) d" and "st_keys store sid = None"
  shows "dp_view (SessionKey (store\<lparr>st_keys := (st_keys store)(sid \<mapsto> key)\<rparr>)) d =
    (dp_view (SessionKey store) d)(sid := result_option (NewSession sid key RoleResponder (dp_capacity d)))"
    "dp_view (SessionKey store) d sid = None"
proof -
  have "dp_sessions d sid = None" using assms by (cases "dp_sessions d sid") (auto simp: dp_inv_def SessionKey_def)
  then show "dp_view (SessionKey store) d sid = None"
    "dp_view (SessionKey (store\<lparr>st_keys := (st_keys store)(sid \<mapsto> key)\<rparr>)) d =
    (dp_view (SessionKey store) d)(sid := result_option (NewSession sid key RoleResponder (dp_capacity d)))"
    using assms(2) by (auto simp: dp_view_def SessionKey_def fun_eq_iff result_option_def split: option.split)
qed

section \<open>Steps of the gateway\<close>

text \<open>What \<^verbatim>\<open>HandleDatagram\<close> does to the sessions: it admits one, or lets the data plane handle the datagram.\<close>

lemma HandleDatagram_cases:
  assumes "HandleDatagram C nh nt rnd g w = (reply, rec, g')"
  obtains
    (same) "g_store g' = g_store g" "g_dataPlane g' = g_dataPlane g" "g_exit g' = g_exit g" "\<not> dr_Deliver rec" "SessionID_IsZero (dr_SessionID rec)"
      "dr_Kind rec \<noteq> ''client-hello''"
  | (hello) ex res where "g_dataPlane g' = g_dataPlane g" "\<not> dr_Deliver rec" "dr_Kind rec = ''client-hello''"
      "Admitter_Handshake C nh nt rnd (g_admitter g) (g_store g) (g_exit g) w (g_identityPriv g) = (res, g_store g', ex)"
      "g_exit g' = ex"
  | (data) r where "g_store g' = g_store g" "g_exit g' = g_exit g"
      "HandleClassified C (SessionKey (g_store g)) (g_dataPlane g) w = (r, g_dataPlane g')" "dr_Kind rec = ''data''"
      "(rec, g') = handleData C g w"
proof -
  have z: "SessionID_IsZero zeroSession" by (simp add: zeroSession_def SessionIDSize_def numeral_eq_Suc)
  show ?thesis
  proof (cases "ClassifyDatagram w")
    case KindClientHello
    obtain res store ex where a: "Admitter_Handshake C nh nt rnd (g_admitter g) (g_store g) (g_exit g) w (g_identityPriv g) =
        (res, store, ex)" by (metis prod_cases3)
    show ?thesis
      using assms KindClientHello a hello
      by (cases res) (auto simp: HandleDatagram_def handleHandshake_def Let_def record_of_def split: if_splits prod.splits)
  next
    case KindData
    obtain r d where a: "HandleClassified C (SessionKey (g_store g)) (g_dataPlane g) w = (r, d)" by fastforce
    show ?thesis
      using assms KindData a data
      by (cases r) (auto simp: HandleDatagram_def handleData_def Let_def record_of_def split: if_splits prod.splits)
  qed (use assms same z in \<open>auto simp: HandleDatagram_def record_of_def split: sum.splits prod.splits bool.splits\<close>)
qed

lemma handleData_record:
  assumes "handleData C g w = (rec, g')" and "HandleClassified C (SessionKey (g_store g)) (g_dataPlane g) w = (r, d)"
  shows "g_dataPlane g' = d" "dr_Deliver rec \<longleftrightarrow> (\<exists>p. r = Inr (p, ReplayFirstCopy))"
    "r = Inr (p, ReplayFirstCopy) \<Longrightarrow> dr_Payload rec = p"
    "r = Inr x \<Longrightarrow> SessionIDFromDatagram w = Inr (dr_SessionID rec)"
    "r = Inl e \<Longrightarrow> dr_SessionID rec = zeroSession"
  using assms
  by (auto simp: handleData_def Let_def record_of_def HandleClassified_def split: if_splits sum.splits prod.splits)

lemma exit_step_frame:
  "g_store (snd (exit_step rc rec g r)) = g_store g" "g_dataPlane (snd (exit_step rc rec g r)) = g_dataPlane g"
  "g_admitter (snd (exit_step rc rec g r)) = g_admitter g" "g_identityPriv (snd (exit_step rc rec g r)) = g_identityPriv g"
  by (simp_all add: exit_step_def Let_def split: prod.splits)

text \<open>Every interleaving of the two loops of the gateway is a list of events.\<close>

datatype gw_event = Datagram reception | ReturnPacket bytes go_time "AddrPort \<Rightarrow> bool"

definition handled :: "crypto \<Rightarrow> DataGateway \<Rightarrow> reception \<Rightarrow> bytes option \<times> DataRecord \<times> DataGateway" where
  "handled C g rc = HandleDatagram C (rc_nowHello rc) (rc_nowToken rc) (rc_rnd rc) g (take 2048 (rc_datagram rc))"

definition gw_step :: "crypto \<Rightarrow> DataGateway \<Rightarrow> gw_event \<Rightarrow> bool \<times> DataGateway" where
  "gw_step C g ev = (case ev of
     Datagram rc \<Rightarrow> (dr_Deliver (fst (snd (handled C g rc))), snd (Serve_step C g rc))
   | ReturnPacket packet now sinkOk \<Rightarrow> (False, snd (Return_step C sinkOk now g packet)))"

definition event_key :: "gw_event \<Rightarrow> SessionID \<times> PacketNumber" where
  "event_key ev = (case ev of Datagram rc \<Rightarrow> wire_key (take 2048 (rc_datagram rc)) | ReturnPacket _ _ _ \<Rightarrow> ([], 0))"

lemma Serve_step_frame:
  assumes "handled C g rc = (reply, rec, g1)"
  shows "g_store (snd (Serve_step C g rc)) = g_store g1" "g_dataPlane (snd (Serve_step C g rc)) = g_dataPlane g1"
    "g_admitter (snd (Serve_step C g rc)) = g_admitter g1" "g_identityPriv (snd (Serve_step C g rc)) = g_identityPriv g1"
  using assms by (auto simp: handled_def Serve_step_def Let_def split_beta exit_step_frame split: option.splits)

lemma Return_step_cases:
  "\<exists>h ex effs. snd (Return_step C sinkOk now g packet) = foldl exit_metric (h\<lparr>g_exit := ex\<rparr>) effs \<and>
    (h = g \<or> (\<exists>sid. h = snd (FrameReturn C g sid packet)))"
proof (cases "g_exit g")
  case (Some r)
  obtain effs r' g' where s: "ServeReturn_step (FrameReturn C) sinkOk now (r, g) packet = (effs, r', g')" by (metis prod_cases3)
  then have "g' = g \<or> (\<exists>sid. g' = snd (FrameReturn C g sid packet))"
    by (auto simp: ServeReturn_step_def Let_def split: option.splits prod.splits sum.splits) (metis snd_conv)+
  with Some s show ?thesis
    by (intro exI [of _ g'] exI [of _ "Some r'"] exI [of _ effs]) (simp add: Return_step_def)
next
  case None
  then have "snd (Return_step C sinkOk now g packet) = foldl exit_metric (g\<lparr>g_exit := None\<rparr>) []"
    by (cases g) (simp add: Return_step_def)
  then show ?thesis by blast
qed

lemma FrameReturn_frame:
  "snd (FrameReturn C g sid p) =
     g\<lparr>g_dataPlane := snd (DataPlane_FrameReturn C (SessionKey (g_store g)) (g_dataPlane g) sid p)\<rparr>"
  by (simp add: FrameReturn_def split: prod.splits)

lemma Return_step_frame:
  "g_store (snd (Return_step C sinkOk now g packet)) = g_store g"
  "g_admitter (snd (Return_step C sinkOk now g packet)) = g_admitter g"
  "g_identityPriv (snd (Return_step C sinkOk now g packet)) = g_identityPriv g"
  "g_dataPlane (snd (Return_step C sinkOk now g packet)) = g_dataPlane g \<or>
     (\<exists>sid. g_dataPlane (snd (Return_step C sinkOk now g packet)) =
        snd (DataPlane_FrameReturn C (SessionKey (g_store g)) (g_dataPlane g) sid packet))"
proof -
  obtain h ex effs where h: "snd (Return_step C sinkOk now g packet) = foldl exit_metric (h\<lparr>g_exit := ex\<rparr>) effs"
    "h = g \<or> (\<exists>sid. h = snd (FrameReturn C g sid packet))" using Return_step_cases by blast
  note f = core_eq_fields [OF core_exit_metrics, of "h\<lparr>g_exit := ex\<rparr>" effs, folded h(1), simplified]
  show "g_store (snd (Return_step C sinkOk now g packet)) = g_store g"
    "g_admitter (snd (Return_step C sinkOk now g packet)) = g_admitter g"
    "g_identityPriv (snd (Return_step C sinkOk now g packet)) = g_identityPriv g"
    using h(2) unfolding f by (auto simp: FrameReturn_frame)
  show "g_dataPlane (snd (Return_step C sinkOk now g packet)) = g_dataPlane g \<or>
     (\<exists>sid. g_dataPlane (snd (Return_step C sinkOk now g packet)) =
        snd (DataPlane_FrameReturn C (SessionKey (g_store g)) (g_dataPlane g) sid packet))"
    using h(2) unfolding f by (auto simp: FrameReturn_frame)
qed

lemma result_option_Some [simp]: "result_option r = Some x \<longleftrightarrow> r = Inr x"
  by (auto simp: result_option_def split: sum.splits)

text \<open>A reception, seen on the sessions: it admits a session, or it is a step of the data plane.\<close>

lemma handled_view:
  assumes "gw_inv g" and "handled C g rc = (reply, rec, g1)"
  obtains (idle) "gw_inv g1" "g_view g1 = g_view g" "\<not> dr_Deliver rec"
  | (admit) sid key where "gw_inv g1" "\<not> dr_Deliver rec" "g_view g sid = None"
      "g_view g1 = (g_view g)(sid := result_option (NewSession sid key RoleResponder (dp_capacity (g_dataPlane g))))"
  | (data) "gw_inv g1" "view_step C (g_view g) (take 2048 (rc_datagram rc)) = (dr_Deliver rec, g_view g1)"
proof -
  note h = assms(2) [unfolded handled_def]
  show ?thesis
  proof (rule HandleDatagram_cases [OF h])
    assume "g_store g1 = g_store g" "g_dataPlane g1 = g_dataPlane g" "\<not> dr_Deliver rec"
    then show thesis using idle assms(1) by (simp add: gw_inv_def)
  next
    fix ex res
    assume d: "g_dataPlane g1 = g_dataPlane g" "\<not> dr_Deliver rec"
      and a: "Admitter_Handshake C (rc_nowHello rc) (rc_nowToken rc) (rc_rnd rc) (g_admitter g) (g_store g) (g_exit g)
        (take 2048 (rc_datagram rc)) (g_identityPriv g) = (res, g_store g1, ex)"
    show thesis
    proof (cases "g_store g1 = g_store g")
      case True
      then show thesis using idle d assms(1) by (simp add: gw_inv_def)
    next
      case False
      from Handshake_store [OF a False] obtain sid key where
        s: "wf_session sid" "st_keys (g_store g) sid = None"
          "g_store g1 = (g_store g)\<lparr>st_keys := (st_keys (g_store g))(sid \<mapsto> key)\<rparr>" by blast
      note i = assms(1) [unfolded gw_inv_def]
      show thesis
        using admit [of sid key] d s register_inv [OF i s(1,2)] register_view [OF i s(2)] by (simp add: gw_inv_def)
    qed
  next
    fix r
    assume st: "g_store g1 = g_store g"
      and c: "HandleClassified C (SessionKey (g_store g)) (g_dataPlane g) (take 2048 (rc_datagram rc)) = (r, g_dataPlane g1)"
      and hd: "(rec, g1) = handleData C g (take 2048 (rc_datagram rc))"
    have "gw_inv g1" using HandleClassified_inv [OF assms(1) [unfolded gw_inv_def]] st c by (metis gw_inv_def snd_conv)
    moreover have "view_step C (g_view g) (take 2048 (rc_datagram rc)) = (dr_Deliver rec, g_view g1)"
      using HandleClassified_view [OF c] handleData_record(2) [OF hd [symmetric] c] st by (simp add: view_step_def)
    ultimately show thesis by (rule data)
  qed
qed

lemma return_view:
  assumes "gw_inv g" and "snd (Return_step C sinkOk now g packet) = g'"
  shows "gw_inv g'" "g_view g' = g_view g \<or>
    (\<exists>sid s. g_view g sid = Some s \<and> g_view g' = (g_view g)(sid \<mapsto> snd (Session_Outbound C s packet)))"
proof -
  note f = Return_step_frame [of C sinkOk now g packet, unfolded assms(2)]
  have i: "dp_inv (SessionKey (g_store g)) (g_dataPlane g)" using assms(1) by (simp add: gw_inv_def)
  show "gw_inv g'" using f(1,4) i FrameReturn_inv [OF i] by (auto simp: gw_inv_def)
  show "g_view g' = g_view g \<or>
    (\<exists>sid s. g_view g sid = Some s \<and> g_view g' = (g_view g)(sid \<mapsto> snd (Session_Outbound C s packet)))"
  proof (cases "g_dataPlane g' = g_dataPlane g")
    case False
    then obtain sid r where "DataPlane_FrameReturn C (SessionKey (g_store g)) (g_dataPlane g) sid packet = (r, g_dataPlane g')"
      using f(4) by (metis prod.collapse)
    from FrameReturn_view [OF this] f(1) show ?thesis by (auto split: option.splits)
  qed (use f(1) in simp)
qed

lemma gw_view_inv: "gw_inv g \<Longrightarrow> view_inv (g_view g)"
  using dp_inv_view unfolding view_inv_def gw_inv_def by metis

lemma outbound_spent: "session_spent (snd (Session_Outbound C s p)) n = session_spent s n"
  by (simp add: session_spent_def Outbound_eq)

definition gw_spent :: "DataGateway \<Rightarrow> SessionID \<times> PacketNumber \<Rightarrow> bool" where
  "gw_spent g k = view_spent (g_view g) k"

interpretation gateway_once: once_filter "gw_step C" event_key gw_inv gw_spent for C
proof
  fix g :: DataGateway and ev :: gw_event and k :: "SessionID \<times> PacketNumber"
  assume inv: "gw_inv g"
  have core: "gw_inv (snd (gw_step C g ev)) \<and> (fst (gw_step C g ev) \<longrightarrow> \<not> gw_spent g (event_key ev)) \<and>
    (fst (gw_step C g ev) \<longrightarrow> gw_spent (snd (gw_step C g ev)) (event_key ev)) \<and>
    (gw_spent g k \<longrightarrow> gw_spent (snd (gw_step C g ev)) k)"
  proof (cases ev)
    case (Datagram rc)
    obtain reply rec g1 where h: "handled C g rc = (reply, rec, g1)" by (metis prod_cases3)
    note f = Serve_step_frame [OF h]
    have g': "gw_inv (snd (Serve_step C g rc)) = gw_inv g1" "gw_spent (snd (Serve_step C g rc)) = gw_spent g1"
      using f by (auto simp: gw_inv_def gw_spent_def)
    show ?thesis
    proof (rule handled_view [OF inv h])
      assume "gw_inv g1" "view_step C (g_view g) (take 2048 (rc_datagram rc)) = (dr_Deliver rec, g_view g1)"
      then show ?thesis
        using view_once.accept_fresh [OF gw_view_inv [OF inv], of C "take 2048 (rc_datagram rc)"]
          view_once.accept_spends [OF gw_view_inv [OF inv], of C "take 2048 (rc_datagram rc)"]
          view_once.spent_mono [OF gw_view_inv [OF inv], of k C "take 2048 (rc_datagram rc)"]
        by (simp add: Datagram gw_step_def h g' event_key_def gw_spent_def)
    qed (auto simp: Datagram gw_step_def h g' gw_spent_def view_spent_def)
  next
    case (ReturnPacket packet now sinkOk)
    show ?thesis
      using return_view [OF inv refl, of C sinkOk now packet] outbound_spent
      by (auto simp: ReturnPacket gw_step_def gw_spent_def view_spent_def)
  qed
  from core show "gw_inv (snd (gw_step C g ev))" by blast
  from core show "fst (gw_step C g ev) \<Longrightarrow> \<not> gw_spent g (event_key ev)" by blast
  from core show "fst (gw_step C g ev) \<Longrightarrow> gw_spent (snd (gw_step C g ev)) (event_key ev)" by blast
  from core show "gw_spent g k \<Longrightarrow> gw_spent (snd (gw_step C g ev)) k" by blast
qed

section \<open>What is accepted\<close>

text \<open>A data record that names a session comes from a datagram sealed under that session's key.\<close>

lemma data_sealed:
  assumes "gw_inv g" and "aead_exact C" and "handleData C g w = (rec, g1)" and "\<not> SessionID_IsZero (dr_SessionID rec)"
  obtains key pid p where "st_keys (g_store g) (dr_SessionID rec) = Some key" "Session pid = dr_SessionID rec"
    "parseHeader w = Inr (pid, dirInitiator, dataHeaderSize)"
    "w = take dataHeaderSize w @ aead_seal C key (nonce dirInitiator (Number pid)) p (take dataHeaderSize w)"
    "dr_Deliver rec \<Longrightarrow> dr_Payload rec = p"
proof -
  obtain r d where c: "HandleClassified C (SessionKey (g_store g)) (g_dataPlane g) w = (r, d)" by fastforce
  note hr = handleData_record [OF assms(3) c]
  have z: "SessionID_IsZero zeroSession" by (simp add: zeroSession_def SessionIDSize_def numeral_eq_Suc)
  obtain p dec where r: "r = Inr (p, dec)" using hr(5) z assms(4) by (cases r) auto
  note sid = hr(4) [OF r]
  from HandleClassified_view [OF c] r sid obtain s s' where
    s: "g_view g (dr_SessionID rec) = Some s" "InboundClassified C s w = (Inr (p, dec), s')"
    by (auto simp: view_handle_def result_option_def split: option.splits prod.splits sum.splits)
  note si = dp_inv_view [OF assms(1) [unfolded gw_inv_def] s(1)]
  from InboundClassified_sealed [OF si(1) assms(2) s(2)] si(3) obtain pid where
    pid: "parseHeader w = Inr (pid, dirInitiator, dataHeaderSize)"
      "w = take dataHeaderSize w @ aead_seal C (s_sealer s) (nonce dirInitiator (Number pid)) p (take dataHeaderSize w)"
    by (auto simp: peerDir_def)
  have "Session pid = dr_SessionID rec" using sid pid(1) by (simp add: SessionIDFromDatagram_def)
  moreover have "dr_Deliver rec \<Longrightarrow> dr_Payload rec = p" using hr(2,3) r by auto
  ultimately show ?thesis using that [of "s_sealer s" pid p] si(4) pid by (simp add: SessionKey_def)
qed

lemma HandleDatagram_admitter: "g_admitter (snd (snd (HandleDatagram C nh nt rnd g w))) = g_admitter g"
  by (auto simp: HandleDatagram_def handleHandshake_def handleData_def Let_def
      split: DatagramKind.splits prod.splits sum.splits bool.splits)

lemma gw_step_admitter: "g_admitter (snd (gw_step C g ev)) = g_admitter g"
proof (cases ev)
  case (Datagram rc)
  obtain reply rec g1 where h: "handled C g rc = (reply, rec, g1)" by (metis prod_cases3)
  with HandleDatagram_admitter Serve_step_frame(3) [OF h] show ?thesis by (simp add: Datagram gw_step_def handled_def) (metis snd_conv)
qed (simp add: gw_step_def Return_step_frame)

definition admitted_in :: "crypto \<Rightarrow> 'r Admitter \<Rightarrow> gw_event list \<Rightarrow> SessionID \<Rightarrow> bytes \<Rightarrow> bool" where
  "admitted_in C a evs sid key \<longleftrightarrow> (\<exists>rc. Datagram rc \<in> set evs \<and>
     admissible C (rc_nowHello rc) (rc_nowToken rc) (rc_rnd rc) (ad_tolerance a) (ad_service a) (take 2048 (rc_datagram rc)) sid key)"

lemma step_keys:
  assumes "st_keys (g_store (snd (gw_step C g ev))) sid = Some key"
  shows "st_keys (g_store g) sid = Some key \<or> admitted_in C (g_admitter g) [ev] sid key"
proof (cases ev)
  case (Datagram rc)
  obtain reply rec g1 where h: "handled C g rc = (reply, rec, g1)" by (metis prod_cases3)
  have k: "st_keys (g_store g1) sid = Some key" using assms Serve_step_frame(1) [OF h] by (simp add: Datagram gw_step_def)
  show ?thesis
  proof (rule HandleDatagram_cases [OF h [unfolded handled_def]])
    fix ex res
    assume a: "Admitter_Handshake C (rc_nowHello rc) (rc_nowToken rc) (rc_rnd rc) (g_admitter g) (g_store g) (g_exit g)
        (take 2048 (rc_datagram rc)) (g_identityPriv g) = (res, g_store g1, ex)"
    show ?thesis
    proof (cases "g_store g1 = g_store g")
      case False
      show ?thesis
        by (rule Handshake_store [OF a False]) (use k in \<open>auto simp: admitted_in_def Datagram split: if_splits\<close>)
    qed (use k in simp)
  qed (use k in simp_all)
qed (use assms in \<open>simp add: gw_step_def Return_step_frame\<close>)

lemma run_keys:
  "st_keys (g_store (final_state (gw_step C) g evs)) sid = Some key \<Longrightarrow>
     st_keys (g_store g) sid = Some key \<or> admitted_in C (g_admitter g) evs sid key"
proof (induction evs arbitrary: g)
  case (Cons ev evs)
  from Cons.IH [of "snd (gw_step C g ev)"] Cons.prems step_keys [of C g ev sid key]
  show ?case by (auto simp: gw_step_admitter admitted_in_def)
qed simp

section \<open>A client and the gateway\<close>

lemma Handshake_ok:
  assumes "DecodeClientHello hello = Inr (sid, ts, ceph, token)" and "CheckHandshakeFresh ts nh (ad_tolerance a) = Inr ()"
    and "DeriveSessionKey C gpriv ceph sid = Inr key" and "Admit C nt (ad_service a) token = Inr claims"
    and "st_keys store sid = None" and "leaseIP a r sid = (Inr (assigned, ip), r')"
    and "SignHandshake C priv (x25519_pub C gpriv) sid = Some sig"
    and "EncodeServerHello sid (x25519_pub C gpriv) sig assigned = Inr sh"
  shows "Admitter_Handshake C nh nt (Some gpriv) a store r hello priv =
    (Inr (sh, claims, sid, ip), store\<lparr>st_keys := (st_keys store)(sid \<mapsto> key)\<rparr>, r')"
  using assms by (simp add: Admitter_Handshake_def GenerateKeyPair_def Admitter_Admit_def register_def answer_def)

lemma leaseIP_size: "leaseIP a r sid = (Inr (assigned, ip), r') \<Longrightarrow> length assigned = assignedIPv4Size"
  by (auto simp: leaseIP_def As4_def assignedIPv4Size_def split: option.splits prod.splits sum.splits if_splits Addr.splits)

text \<open>The gateway answers the client's hello, and the client completes with the key the gateway registered.\<close>

lemma handshake_completes:
  assumes "ecdh_agrees C" and "x25519_pub_size C" and "signature_correct C"
    and "BeginClientHandshake C cnow (Some rid) (Some rk) (ed25519_pub C priv) token = Inr (hello, hs)"
    and "length rid = SessionIDSize" and "length rk = x25519KeySize" and "length gk = x25519KeySize"
    and "length priv = PrivateKeySize"
    and "CheckHandshakeFresh (Time_Unix_seconds cnow) nh (ad_tolerance a) = Inr ()"
    and "Admit C nt (ad_service a) token = Inr claims" and "st_keys store (hs_sessionID hs) = None"
    and "leaseIP a r (hs_sessionID hs) = (Inr (assigned, ip), r')"
    and "DeriveSessionKey C gk (x25519_pub C rk) (hs_sessionID hs) = Inr key"
    and "NewSession (hs_sessionID hs) key RoleInitiator cap = Inr cs"
  shows "\<exists>sh. Admitter_Handshake C nh nt (Some gk) a store r hello priv =
      (Inr (sh, claims, hs_sessionID hs, ip), store\<lparr>st_keys := (st_keys store)(hs_sessionID hs \<mapsto> key)\<rparr>, r') \<and>
    ClientHandshake_Complete C hs sh cap = Inr (cs\<lparr>s_assignedIPv4 := assigned\<rparr>)"
proof -
  let ?sid = "hs_sessionID hs"
  note b = BeginClientHandshake_Inr [OF assms(4)]
  have wf: "wf_session ?sid" using randomSessionID_ok(1) [OF b(4) assms(5)] .
  have d: "DecodeClientHello hello = Inr (?sid, Time_Unix_seconds cnow, x25519_pub C rk, token)"
    by (rule DecodeClientHello_encode [OF wf _ _ b(5)]) (use wrap64_range in \<open>simp_all add: Time_Unix_seconds_def\<close>)
  obtain sig where sig: "SignHandshake C priv (x25519_pub C gk) ?sid = Some sig" using assms(8) by (simp add: SignHandshake_def)
  have "length (x25519_pub C gk) = x25519KeySize" using assms(2,7) by (simp add: x25519_pub_size_def)
  then obtain sh where sh: "EncodeServerHello ?sid (x25519_pub C gk) sig assigned = Inr sh"
    using VerifyHandshake_Sign(2) [OF assms(3) sig] by (simp add: EncodeServerHello_def x25519PubSize_def x25519KeySize_def)
  have "DecodeServerHello sh = Inr (?sid, x25519_pub C gk, sig, assigned)"
    by (rule DecodeServerHello_encode [OF wf leaseIP_size [OF assms(12)] sh])
  moreover have "DeriveSessionKey C rk (x25519_pub C gk) ?sid = Inr key"
    using DeriveSessionKey_agrees [OF assms(1,2,6,7)] assms(13) by simp
  ultimately have "ClientHandshake_Complete C hs sh cap = Inr (cs\<lparr>s_assignedIPv4 := assigned\<rparr>)"
    using VerifyHandshake_Sign(1) [OF assms(3) sig] b(2,3) assms(14) by (auto simp: Complete_Inr)
  with Handshake_ok [OF d assms(9,13,10,11,12) sig sh] show ?thesis by blast
qed

text \<open>Between two endpoints with one key, the first packet in either direction is delivered.\<close>

lemma first_packet_delivered:
  assumes "aead_correct C" and "wf_session sid" and "cap \<le> max_int64" and "NewSession sid key role cap = Inr rx"
  shows "\<exists>s'. InboundClassified C rx (frame C key sid (peerDir role) 1 p) = (Inr (p, ReplayFirstCopy), s')"
  using fresh_frame_delivered [OF assms(1,2,4,3), of "[]" 1 p]
  by (auto simp: Session_Inbound_def split: prod.splits sum.splits)

lemma Inbound_assigned:
  "fst (Session_Inbound C (s\<lparr>s_assignedIPv4 := ip\<rparr>) w) = fst (Session_Inbound C s w)"
  by (simp add: Session_Inbound_def InboundClassified_def split: sum.splits prod.splits option.splits)

lemma HandleDatagram_data:
  assumes "parseHeader w = Inr (pid, dir, off)" and "g_view g (Session pid) = Some s"
    and "InboundClassified C s w = (Inr (p, ReplayFirstCopy), s')"
  shows "fst (HandleDatagram C nh nt rnd g w) = None"
    "fst (snd (HandleDatagram C nh nt rnd g w)) =
       (record_of ''data'')\<lparr>dr_Deliver := True, dr_Payload := p, dr_SessionID := Session pid\<rparr>"
proof -
  obtain r d where c: "HandleClassified C (SessionKey (g_store g)) (g_dataPlane g) w = (r, d)" by fastforce
  have sid: "SessionIDFromDatagram w = Inr (Session pid)" using assms(1) by (simp add: SessionIDFromDatagram_def)
  have "result_option r = Some (p, ReplayFirstCopy)"
    using HandleClassified_view [OF c] assms(2,3) sid by (simp add: view_handle_def)
  then have "r = Inr (p, ReplayFirstCopy)" by simp
  with c sid classify_data [OF assms(1)] show "fst (HandleDatagram C nh nt rnd g w) = None"
    "fst (snd (HandleDatagram C nh nt rnd g w)) =
       (record_of ''data'')\<lparr>dr_Deliver := True, dr_Payload := p, dr_SessionID := Session pid\<rparr>"
    by (simp_all add: HandleDatagram_def handleData_def)
qed

lemma FrameReturn_first:
  assumes "g_view g sid = Some s" and "s_id s = sid" and "s_role s = RoleResponder" and "s_next s = 0" and "length q \<le> maxPayload"
  shows "fst (FrameReturn C g sid q) = Inr (frame C (s_sealer s) sid dirResponder 1 q)"
proof -
  obtain r d where f: "DataPlane_FrameReturn C (SessionKey (g_store g)) (g_dataPlane g) sid q = (r, d)" by fastforce
  have "result_option r = result_option (fst (Session_Outbound C s q))" using FrameReturn_view [OF f] assms(1) by simp
  then have "result_option r = Some (frame C (s_sealer s) sid dirResponder 1 q)"
    using assms(2-5) by (simp add: Outbound_eq result_option_def sendDir_def)
  with f show ?thesis by (simp add: FrameReturn_def)
qed

text \<open>An answered handshake, at the gateway.\<close>

lemma HandleDatagram_hello:
  assumes "Admitter_Handshake C nh nt rnd (g_admitter g) (g_store g) (g_exit g) w (g_identityPriv g) =
      (Inr (sh, claims, sid, ip), store, ex)"
  shows "\<exists>g1. HandleDatagram C nh nt rnd g w =
      (Some sh, (record_of ''client-hello'')\<lparr>dr_Admitted := True, dr_SessionID := sid, dr_TunnelIP := ip\<rparr>, g1) \<and>
    g_store g1 = store \<and> g_dataPlane g1 = g_dataPlane g \<and> g_exit g1 = ex"
proof -
  have "ClassifyDatagram w = KindClientHello" by (rule Handshake_Inr [OF assms]) (rule classify_hello)
  then show ?thesis using assms by (auto simp: HandleDatagram_def handleHandshake_def Let_def record_of_def)
qed


text \<open>The leaser a gateway uses is its own router's.\<close>

lemma Serve_step_exit:
  assumes "handled C g rc = (reply, rec, g1)"
  shows "g_exit (snd (Serve_step C g rc)) = (case g_exit g1 of None \<Rightarrow> None | Some r1 \<Rightarrow>
    Some (if dr_Kind rec = ''data'' \<and> \<not> SessionID_IsZero (dr_SessionID rec) then
        (case udpAddrPort (rc_src rc) of
           Some ap \<Rightarrow> Router_RecordPath r1 (rc_nowPath rc) (dr_SessionID rec) ap | None \<Rightarrow> r1)
      else r1))"
proof -
  have "g_exit (snd (exit_step rc rec g1 r1)) = Some (case udpAddrPort (rc_src rc) of
      Some ap \<Rightarrow> Router_RecordPath r1 (rc_nowPath rc) (dr_SessionID rec) ap | None \<Rightarrow> r1)" for r1
    by (auto simp: exit_step_def Let_def split: prod.splits)
  with assms show ?thesis
    by (auto simp: Serve_step_def handled_def Let_def split_beta split: option.splits)
qed

lemma lease_paths:
  assumes "Admitter_Handshake C nh nt rnd a store (Some r) hello priv = (res, store', ex)"
    and "ad_leaser a = None \<or> ad_leaser a = Some exit_Lease"
  shows "\<exists>r'. ex = Some r' \<and> rt_paths r' = rt_paths r"
proof -
  have l: "\<exists>r'. snd (leaseIP a (Some r) sid) = Some r' \<and> rt_paths r' = rt_paths r" for sid
    using assms(2) by (auto simp: leaseIP_def exit_Lease_def Router_Lease_def split: prod.splits sum.splits)
  have "ex = Some r \<or> (\<exists>sid. ex = snd (leaseIP a (Some r) sid))"
    using assms(1) by (auto simp: Admitter_Handshake_def split: sum.splits prod.splits) (metis snd_conv)+
  with l show ?thesis by auto
qed

section \<open>An example\<close>

definition demo_open :: Service where
  "demo_open = \<lparr>sv_Mode = ModeOpen, sv_Key = [], sv_Provider = None, sv_TokenTTL = 0\<rparr>"

definition demo_gateway :: DataGateway where
  "demo_gateway = NewDataGateway demo_identity demo_open 100"

definition demo_hello :: bytes where
  "demo_hello = putHandshakeHeader msgClientHello demo_sid @ put_be64 0 @ replicate 32 1 @ put_be16 0"

definition demo_reception :: "bytes \<Rightarrow> reception" where
  "demo_reception b = \<lparr>rc_datagram = b, rc_src = OtherAddr ''x'', rc_nowHello = time_Unix 0, rc_nowToken = 0,
     rc_rnd = Some (replicate 32 2), rc_nowPath = 0, rc_devOk = True\<rparr>"

definition demo_skey :: bytes where "demo_skey = replicate 32 3"

definition demo_data :: "bytes \<Rightarrow> bytes" where
  "demo_data p = frame demo_crypto demo_skey demo_sid dirInitiator 1 p"

definition demo_admitted :: DataGateway where
  "demo_admitted = final_state (gw_step demo_crypto) demo_gateway [Datagram (demo_reception demo_hello)]"

lemma demo_hello_accepted:
  assumes "ad_tolerance a = DefaultHandshakeTolerance" and "ad_service a = demo_open"
    and "leaseIP a r demo_sid = (Inr (assigned, ip), r')"
  shows "\<exists>sh. Admitter_Handshake demo_crypto (time_Unix 0) 0 (Some (replicate 32 2)) a NewSessionStore r demo_hello demo_identity =
     (Inr (sh, \<lparr>cl_Subject = [], cl_Tier = TierSelfHosted, cl_Expiry = 0\<rparr>, demo_sid, ip), \<lparr>st_keys = [demo_sid \<mapsto> demo_skey]\<rparr>, r')"
proof -
  have "EncodeClientHello demo_sid 0 (replicate 32 1) [] = Inr demo_hello"
    by (simp add: EncodeClientHello_def demo_hello_def x25519PubSize_def uint64_of_def str_bytes_def)
  then have d: "DecodeClientHello demo_hello = Inr (demo_sid, 0, replicate 32 1, [])"
    by (intro DecodeClientHello_encode) (simp_all add: min_int64_def max_int64_def)
  have f: "CheckHandshakeFresh 0 (time_Unix 0) (ad_tolerance a) = Inr ()"
    by (simp add: CheckHandshakeFresh_def assms(1) DefaultHandshakeTolerance_def Time_Sub_def nanos_per_second_def
        min_int64_def max_int64_def)
  have k: "DeriveSessionKey demo_crypto (replicate 32 2) (replicate 32 1) demo_sid = Inr demo_skey"
    by (simp add: DeriveSessionKey_def x25519KeySize_def demo_crypto_def keySize_def demo_skey_def zip_replicate)
  have adm: "Admit demo_crypto 0 (ad_service a) [] = Inr \<lparr>cl_Subject = [], cl_Tier = TierSelfHosted, cl_Expiry = 0\<rparr>"
    by (simp add: Admit_def assms(2) demo_open_def)
  obtain sig sh where s: "SignHandshake demo_crypto demo_identity (x25519_pub demo_crypto (replicate 32 2)) demo_sid = Some sig"
    "EncodeServerHello demo_sid (x25519_pub demo_crypto (replicate 32 2)) sig assigned = Inr sh"
    using leaseIP_size [OF assms(3)]
    by (simp add: SignHandshake_def demo_identity_def PrivateKeySize_def EncodeServerHello_def x25519PubSize_def
        demo_crypto_def SignatureSize_def)
  show ?thesis
    using Handshake_ok [OF d f k adm _ assms(3) s, of NewSessionStore] by (auto simp: NewSessionStore_def)
qed

lemma demo_hello_handshake:
  "\<exists>sh. Admitter_Handshake demo_crypto (time_Unix 0) 0 (Some (replicate 32 2)) (NewAdmitter demo_open :: Router option Admitter) NewSessionStore
     (None :: Router option) demo_hello demo_identity =
     (Inr (sh, \<lparr>cl_Subject = [], cl_Tier = TierSelfHosted, cl_Expiry = 0\<rparr>, demo_sid, NoAddr),
      \<lparr>st_keys = [demo_sid \<mapsto> demo_skey]\<rparr>, None)"
  by (rule demo_hello_accepted) (simp_all add: NewAdmitter_def leaseIP_def)

lemma demo_hello_handled:
  "\<exists>sh g1. handled demo_crypto demo_gateway (demo_reception demo_hello) =
      (Some sh, (record_of ''client-hello'')\<lparr>dr_Admitted := True, dr_SessionID := demo_sid, dr_TunnelIP := NoAddr\<rparr>, g1) \<and>
    g_store g1 = \<lparr>st_keys = [demo_sid \<mapsto> demo_skey]\<rparr> \<and> g_dataPlane g1 = NewDataPlane 100"
proof -
  have g: "g_store demo_gateway = NewSessionStore" "g_dataPlane demo_gateway = NewDataPlane 100" "g_exit demo_gateway = None"
    "g_admitter demo_gateway = NewAdmitter demo_open" "g_identityPriv demo_gateway = demo_identity"
    by (simp_all add: demo_gateway_def NewDataGateway_def Registry_Counter_def Registry_Gauge_def)
  have len: "take 2048 demo_hello = demo_hello" by (simp add: demo_hello_def put_be64_def put_be16_def)
  obtain sh where "Admitter_Handshake demo_crypto (time_Unix 0) 0 (Some (replicate 32 2)) (g_admitter demo_gateway)
      (g_store demo_gateway) (g_exit demo_gateway) demo_hello (g_identityPriv demo_gateway) =
     (Inr (sh, \<lparr>cl_Subject = [], cl_Tier = TierSelfHosted, cl_Expiry = 0\<rparr>, demo_sid, NoAddr),
      \<lparr>st_keys = [demo_sid \<mapsto> demo_skey]\<rparr>, None)" using demo_hello_handshake g by auto
  from HandleDatagram_hello [OF this] show ?thesis by (auto simp: handled_def demo_reception_def len g)
qed

lemma demo_admitted_view:
  "gw_inv demo_admitted" "st_keys (g_store demo_admitted) = [demo_sid \<mapsto> demo_skey]"
  "\<exists>s. NewSession demo_sid demo_skey RoleResponder 100 = Inr s \<and> g_view demo_admitted demo_sid = Some s"
proof -
  have inv0: "gw_inv demo_gateway" by (simp add: demo_gateway_def max_int64_def)
  show "gw_inv demo_admitted" unfolding demo_admitted_def by (rule gateway_once.inv_final [OF inv0])
  have st: "g_store demo_admitted = \<lparr>st_keys = [demo_sid \<mapsto> demo_skey]\<rparr>" "g_dataPlane demo_admitted = NewDataPlane 100"
    using demo_hello_handled Serve_step_frame by (fastforce simp: demo_admitted_def gw_step_def)+
  then show "st_keys (g_store demo_admitted) = [demo_sid \<mapsto> demo_skey]" by simp
  show "\<exists>s. NewSession demo_sid demo_skey RoleResponder 100 = Inr s \<and> g_view demo_admitted demo_sid = Some s"
    by (simp add: st dp_view_def NewDataPlane_def SessionKey_def NewSession_def newSealer_def demo_skey_def keySize_def
        NewReplayWindow_100)
qed

lemma length_demo_frame: "take 2048 (frame demo_crypto k demo_sid d n [7]) = frame demo_crypto k demo_sid d n [7]"
  by (simp add: frame_def Let_def demo_crypto_def frameHeader_def dataMagic_def put_be64_def demo_sid_def)

lemma demo_delivered_at:
  assumes "g_view g = g_view demo_admitted" and "rc_datagram rc = demo_data [7]"
  shows "\<exists>g1. handled demo_crypto g rc =
     (None, (record_of ''data'')\<lparr>dr_Deliver := True, dr_Payload := [7], dr_SessionID := demo_sid\<rparr>, g1)"
proof -
  obtain s where s: "NewSession demo_sid demo_skey RoleResponder 100 = Inr s" "g_view demo_admitted demo_sid = Some s"
    using demo_admitted_view(3) by blast
  have p: "parseHeader (demo_data [7]) = Inr (\<lparr>Session = demo_sid, Number = 1\<rparr>, dirInitiator, dataHeaderSize)"
    unfolding demo_data_def by (rule parseHeader_of_frame) simp_all
  obtain s' where i: "InboundClassified demo_crypto s (demo_data [7]) = (Inr ([7], ReplayFirstCopy), s')"
    using first_packet_delivered [OF _ _ _ s(1), of demo_crypto "[7]"] by (auto simp: demo_data_def peerDir_def max_int64_def)
  note h = HandleDatagram_data [OF p _ i, of g]
  have t: "take 2048 (demo_data [7]) = demo_data [7]" unfolding demo_data_def by (rule length_demo_frame)
  show ?thesis
    using h s(2) assms unfolding handled_def by (simp add: t) (metis prod.collapse)
qed

lemma demo_delivered:
  "\<exists>g1. handled demo_crypto demo_admitted (demo_reception (demo_data [7])) =
     (None, (record_of ''data'')\<lparr>dr_Deliver := True, dr_Payload := [7], dr_SessionID := demo_sid\<rparr>, g1)"
  by (rule demo_delivered_at) (simp_all add: demo_reception_def)

section \<open>Properties\<close>

text \<open>
  C3. Across the whole gateway no packet is delivered twice: from a new gateway, with or without an exit
  path, along every interleaving of received datagrams and return packets, no two deliveries have the
  same session and packet number.
\<close>

theorem gateway_no_replay:
  assumes "cap \<le> max_int64"
  shows "distinct (map event_key (accepted_run (gw_step C) (NewDataGateway priv svc cap) evs)) \<and>
         distinct (map event_key (accepted_run (gw_step C) (EnableExit (NewDataGateway priv svc cap) r) evs))"
  using gateway_once.accepted_distinct assms by simp

text \<open>The example: the hello, then the same data packet twice; the packet is delivered the first time only.\<close>

theorem gateway_no_replay_witness:
  "accepted_run (gw_step demo_crypto) demo_gateway
     [Datagram (demo_reception demo_hello), Datagram (demo_reception (demo_data [7])), Datagram (demo_reception (demo_data [7]))] =
   [Datagram (demo_reception (demo_data [7]))]"
proof -
  let ?h = "Datagram (demo_reception demo_hello)" and ?d = "Datagram (demo_reception (demo_data [7]))"
  have "\<not> fst (gw_step demo_crypto demo_gateway ?h)" using demo_hello_handled by (auto simp: gw_step_def record_of_def)
  then have "accepted_run (gw_step demo_crypto) demo_gateway [?h, ?d, ?d] = accepted_run (gw_step demo_crypto) demo_admitted [?d, ?d]"
    by (simp add: demo_admitted_def split_beta Let_def)
  moreover have "fst (gw_step demo_crypto demo_admitted ?d)" using demo_delivered by (auto simp: gw_step_def)
  ultimately have "accepted_run (gw_step demo_crypto) demo_gateway [?h, ?d, ?d] = [?d] \<or>
      accepted_run (gw_step demo_crypto) demo_gateway [?h, ?d, ?d] = [?d, ?d]" by (simp add: split_beta Let_def)
  with gateway_no_replay [of 100 demo_crypto demo_identity demo_open "[?h, ?d, ?d]"] show ?thesis
    by (auto simp: max_int64_def demo_gateway_def simp del: accepted_run.simps)
qed

text \<open>
  C4. Only admitted sessions reach the exit path: when a new gateway, after any history, delivers a payload, some
  earlier datagram was a fresh ClientHello for that session whose token the entitlement service admitted, and
  the delivered payload was sealed by the client under the key derived in that very handshake.
\<close>

theorem gateway_delivers_admitted:
  assumes "cap \<le> max_int64" and "aead_exact C"
    and "handled C (final_state (gw_step C) (NewDataGateway priv svc cap) evs) rc = (reply, rec, g1)" and "dr_Deliver rec"
  shows "\<exists>key pid. admitted_in C (NewAdmitter svc :: Router option Admitter) evs (dr_SessionID rec) key \<and>
    Session pid = dr_SessionID rec \<and>
    parseHeader (take 2048 (rc_datagram rc)) = Inr (pid, dirInitiator, dataHeaderSize) \<and>
    (\<exists>header. take 2048 (rc_datagram rc) =
       header @ aead_seal C key (nonce dirInitiator (Number pid)) (dr_Payload rec) header)"
proof -
  let ?g = "final_state (gw_step C) (NewDataGateway priv svc cap) evs" and ?w = "take 2048 (rc_datagram rc)"
  have inv: "gw_inv ?g" using assms(1) by (simp add: gateway_once.inv_final)
  have data: "handleData C ?g ?w = (rec, g1)"
    by (rule HandleDatagram_cases [OF assms(3) [unfolded handled_def]]) (use assms(4) in auto)
  obtain r d where c: "HandleClassified C (SessionKey (g_store ?g)) (g_dataPlane ?g) ?w = (r, d)" by fastforce
  have "\<exists>x. r = Inr x" using handleData_record(2) [OF data c] assms(4) by blast
  then have sid: "SessionIDFromDatagram ?w = Inr (dr_SessionID rec)" using handleData_record(4) [OF data c] by blast
  then have nz: "\<not> SessionID_IsZero (dr_SessionID rec)"
    using parseHeader_inv(2) by (auto simp: SessionIDFromDatagram_Inr PacketID_Valid_def)
  have new: "st_keys (g_store (NewDataGateway priv svc cap)) s = None" "g_admitter (NewDataGateway priv svc cap) = NewAdmitter svc" for s
    by (simp_all add: NewDataGateway_def Registry_Counter_def Registry_Gauge_def NewSessionStore_def)
  obtain key pid p where k: "st_keys (g_store ?g) (dr_SessionID rec) = Some key" "Session pid = dr_SessionID rec"
    "parseHeader ?w = Inr (pid, dirInitiator, dataHeaderSize)"
    "?w = take dataHeaderSize ?w @ aead_seal C key (nonce dirInitiator (Number pid)) p (take dataHeaderSize ?w)"
    "dr_Deliver rec \<Longrightarrow> dr_Payload rec = p" by (rule data_sealed [OF inv assms(2) data nz]) blast
  have "admitted_in C (NewAdmitter svc :: Router option Admitter) evs (dr_SessionID rec) key"
    using run_keys [OF k(1)] new by simp
  with k assms(4) show ?thesis by metis
qed

theorem gateway_delivers_admitted_witness:
  "\<exists>reply rec g1 key. handled demo_crypto demo_admitted (demo_reception (demo_data [7])) = (reply, rec, g1) \<and>
     dr_Deliver rec \<and> dr_Payload rec = [7] \<and>
     admitted_in demo_crypto (NewAdmitter demo_open :: Router option Admitter) [Datagram (demo_reception demo_hello)]
       (dr_SessionID rec) key"
proof -
  obtain g1 where h: "handled demo_crypto demo_admitted (demo_reception (demo_data [7])) =
     (None, (record_of ''data'')\<lparr>dr_Deliver := True, dr_Payload := [7], dr_SessionID := demo_sid\<rparr>, g1)" (is "_ = (_, ?rec, _)")
    using demo_delivered by blast
  have "\<exists>key. admitted_in demo_crypto (NewAdmitter demo_open :: Router option Admitter)
      [Datagram (demo_reception demo_hello)] (dr_SessionID ?rec) key"
    using gateway_delivers_admitted [OF _ _ h [unfolded demo_admitted_def demo_gateway_def]]
    by (auto simp: max_int64_def record_of_def)
  with h show ?thesis by (auto simp: record_of_def)
qed

text \<open>
  C13. Return paths are authenticated: the endpoints to which return traffic is sent change, on a received
  datagram, only when that datagram was sealed under the key of an admitted session, and then by recording
  its UDP source for that session. A forged or unknown datagram cannot steer a session's return traffic.
\<close>

theorem return_path_authenticated:
  assumes "gw_inv g" and "aead_exact C" and "ad_leaser (g_admitter g) = Some exit_Lease"
    and "g_exit g = Some r" and "g_exit (snd (Serve_step C g rc)) = Some r'" and "rt_paths r' \<noteq> rt_paths r"
  shows "\<exists>ap key (pid :: PacketID) p header. rc_src rc = UDPAddr ap \<and> st_keys (g_store g) (Session pid) = Some key \<and>
    take 2048 (rc_datagram rc) = header @ aead_seal C key (nonce dirInitiator (Number pid)) p header \<and>
    rt_paths r' = PathSet_Record (rt_paths r) (rc_nowPath rc) (Session pid) ap"
proof -
  obtain reply rec g1 where h: "handled C g rc = (reply, rec, g1)" by (metis prod_cases3)
  note ss = Serve_step_exit [OF h]
  show ?thesis
  proof (rule HandleDatagram_cases [OF h [unfolded handled_def]])
    assume "SessionID_IsZero (dr_SessionID rec)" "g_exit g1 = g_exit g"
    then show ?thesis using ss assms(4-6) by simp
  next
    fix ex' res
    assume "dr_Kind rec = ''client-hello''" and a: "g_exit g1 = ex'"
      "Admitter_Handshake C (rc_nowHello rc) (rc_nowToken rc) (rc_rnd rc) (g_admitter g) (g_store g) (g_exit g)
        (take 2048 (rc_datagram rc)) (g_identityPriv g) = (res, g_store g1, ex')"
    with lease_paths [OF a(2) [unfolded assms(4)]] ss assms(3,5,6) show ?thesis by auto
  next
    assume d: "g_exit g1 = g_exit g" "(rec, g1) = handleData C g (take 2048 (rc_datagram rc))" "dr_Kind rec = ''data''"
    show ?thesis
    proof (cases "SessionID_IsZero (dr_SessionID rec)")
      case True
      then show ?thesis using d(1) ss assms(4-6) by simp
    next
      case False
      then have r': "Some r' = Some (case udpAddrPort (rc_src rc) of
        Some ap \<Rightarrow> Router_RecordPath r (rc_nowPath rc) (dr_SessionID rec) ap | None \<Rightarrow> r)"
        using d(1,3) ss assms(4,5) by simp
      with assms(6) obtain ap where ap: "rc_src rc = UDPAddr ap" "r' = Router_RecordPath r (rc_nowPath rc) (dr_SessionID rec) ap"
        by (auto simp: udpAddrPort_def split: net_Addr.splits)
      show ?thesis
      proof (rule data_sealed [OF assms(1,2) d(2) [symmetric] False])
        fix key p and pid :: PacketID
        assume k: "st_keys (g_store g) (dr_SessionID rec) = Some key" "Session pid = dr_SessionID rec"
          "take 2048 (rc_datagram rc) = take dataHeaderSize (take 2048 (rc_datagram rc)) @
            aead_seal C key (nonce dirInitiator (Number pid)) p (take dataHeaderSize (take 2048 (rc_datagram rc)))"
        have "rt_paths r' = PathSet_Record (rt_paths r) (rc_nowPath rc) (Session pid) ap"
          using ap(2) k(2) by (simp add: Router_RecordPath_def)
        then show ?thesis using ap(1) k(1) [folded k(2)] k(3) by blast
      qed
    qed
  qed
qed

theorem return_path_authenticated_witness:
  "\<exists>g rc r' key p header. gw_inv g \<and> rc_src rc = UDPAddr (AddrPort (V4 7) 80) \<and> g_exit (snd (Serve_step demo_crypto g rc)) = Some r' \<and>
     take 2048 (rc_datagram rc) = header @ aead_seal demo_crypto key (nonce dirInitiator 1) p header \<and>
     rt_paths r' = PathSet_Record (NewPathSet 10) 5 demo_sid (AddrPort (V4 7) 80)"
proof -
  let ?r = "\<lparr>rt_alloc = demo_allocator, rt_paths = NewPathSet 10\<rparr>"
  let ?g = "EnableExit demo_admitted ?r"
  let ?rc = "(demo_reception (demo_data [7]))\<lparr>rc_src := UDPAddr (AddrPort (V4 7) 80), rc_nowPath := 5\<rparr>"
  have inv: "gw_inv ?g" using demo_admitted_view(1) by simp
  obtain g1 where h: "handled demo_crypto ?g ?rc =
     (None, (record_of ''data'')\<lparr>dr_Deliver := True, dr_Payload := [7], dr_SessionID := demo_sid\<rparr>, g1)"
    using demo_delivered_at [of ?g ?rc] by (auto simp: EnableExit_def demo_reception_def)
  have "g_exit g1 = g_exit ?g" by (rule HandleDatagram_cases [OF h [unfolded handled_def]]) (simp_all add: record_of_def)
  then have e: "g_exit (snd (Serve_step demo_crypto ?g ?rc)) = Some (Router_RecordPath ?r 5 demo_sid (AddrPort (V4 7) 80))"
    using Serve_step_exit [OF h] by (simp add: EnableExit_def record_of_def udpAddrPort_def)
  have "rt_paths (Router_RecordPath ?r 5 demo_sid (AddrPort (V4 7) 80)) \<noteq> rt_paths ?r"
    by (auto simp: Router_RecordPath_def PathSet_Record_def NewPathSet_def fun_eq_iff)
  from return_path_authenticated [OF inv _ _ _ e this]
  obtain key p header and pid :: PacketID where "take 2048 (rc_datagram ?rc) = header @ aead_seal demo_crypto key (nonce dirInitiator (Number pid)) p header"
    by (auto simp: EnableExit_def SetLeaser_def)
  then have "\<exists>key p header. take 2048 (rc_datagram ?rc) = header @ aead_seal demo_crypto key (nonce dirInitiator 1) p header"
    by (simp add: demo_crypto_def) blast
  with inv e show ?thesis
    by (intro exI [of _ ?g] exI [of _ ?rc] exI [of _ "Router_RecordPath ?r 5 demo_sid (AddrPort (V4 7) 80)"])
      (auto simp: Router_RecordPath_def)
qed

end
