(* ===== verification/Gateway_Metrics.thy ===== *)
theory Gateway_Metrics
  imports Data_Gateway
begin

text \<open>
  The gateway's use of the metrics registry: the label vocabulary it declares fits every call, so no
  call panics, and the counters count what the gateway did.
\<close>

section \<open>The shape of the registry\<close>

definition shape_ok :: "Registry \<Rightarrow> bool" where
  "shape_ok reg \<longleftrightarrow>
     map m_labelNames (rg_counters reg) = [[''result''], [''decision''], [], [], [], [], [''reason'']] \<and>
     map m_labelNames (rg_gauges reg) = [[]]"

definition pointers_ok :: "DataGateway \<Rightarrow> bool" where
  "pointers_ok g \<longleftrightarrow> g_handshakes g = 0 \<and> g_dataPackets g = 1 \<and> g_activeSession g = 0 \<and> g_exitForwarded g = 2 \<and>
     g_exitForwardedBytes g = 3 \<and> g_exitReturned g = 4 \<and> g_exitReturnedBytes g = 5 \<and> g_exitDropped g = 6"

definition gm_ok :: "DataGateway \<Rightarrow> bool" where
  "gm_ok g \<longleftrightarrow> \<not> g_panicked g \<and> shape_ok (g_metrics g) \<and> pointers_ok g"

definition cval :: "DataGateway \<Rightarrow> CounterVec \<Rightarrow> string list \<Rightarrow> int" where
  "cval g c lv = series_value (rg_counters (g_metrics g) ! c) lv"








section \<open>Steps\<close>

lemma gm_ok_upd [simp]:
  "gm_ok (g\<lparr>g_store := s\<rparr>) = gm_ok g" "gm_ok (g\<lparr>g_exit := e\<rparr>) = gm_ok g" "gm_ok (g\<lparr>g_dataPlane := d\<rparr>) = gm_ok g"
  "cval (g\<lparr>g_store := s\<rparr>) = cval g" "cval (g\<lparr>g_exit := e\<rparr>) = cval g" "cval (g\<lparr>g_dataPlane := d\<rparr>) = cval g"
  by (auto simp: gm_ok_def pointers_ok_def cval_def fun_eq_iff)

lemma decision_keys [simp]:
  "series_key [''first-copy''] \<noteq> series_key [''rejected'']" "series_key [''first-copy''] \<noteq> series_key [''stale'']"
  "series_key [''first-copy''] \<noteq> series_key [''duplicate'']"
  by (simp_all add: series_key_def)











section \<open>Properties\<close>



end
