(* ===== verification/Gateway_Client.thy ===== *)
theory Gateway_Client
  imports Data_Gateway
begin

text \<open>
  A client (\<^verbatim>\<open>pkg/clientcore\<close>) and the gateway (\<^verbatim>\<open>internal/gateway\<close>) together: the handshake, data
  in both directions, and the way of an inner packet to the exit device.
\<close>








section \<open>An example\<close>

definition demo_exit :: Router where
  "demo_exit = \<lparr>rt_alloc = demo_allocator, rt_paths = NewPathSet 10\<rparr>"


lemma demo_exit_alloc [simp]: "rt_alloc demo_exit = demo_allocator"
  by (simp add: demo_exit_def)



section \<open>Properties\<close>





end
