(* ===== verification/Gateway_Types.thy ===== *)
theory Gateway_Types
  imports Data_Gateway
begin

text \<open>
  The types the gateway's Go code gives its state, which lists and maps do not enforce by themselves: session ids are
  \<^verbatim>\<open>[16]byte\<close>, session keys have the length AES-256 takes, leases are IPv4 addresses of the pool, and the tables refer
  to each other consistently. Every step of the gateway keeps them.
\<close>

section \<open>Well-typed states\<close>

definition alloc_typed :: "Allocator \<Rightarrow> bool" where
  "alloc_typed a \<longleftrightarrow> alloc_inv a \<and> dom (al_forward a) \<subseteq> Collect wf_session \<and>
     (\<forall>addr \<in> set (al_free a) \<union> ran (al_forward a). Is4 addr \<and> Prefix_Contains (al_prefix a) addr)"

definition router_typed :: "SessionStore \<Rightarrow> Router \<Rightarrow> bool" where
  "router_typed store r \<longleftrightarrow> alloc_typed (rt_alloc r) \<and> ps_inv (rt_paths r) \<and>
     (\<forall>sid. entries_of (rt_paths r) sid \<noteq> [] \<longrightarrow> sid \<in> dom (st_keys store))"

definition gateway_typed :: "DataGateway \<Rightarrow> bool" where
  "gateway_typed g \<longleftrightarrow> gw_inv g \<and>
     (\<forall>sid key. st_keys (g_store g) sid = Some key \<longrightarrow> wf_session sid \<and> length key = keySize) \<and>
     (case g_exit g of
        None \<Rightarrow> ad_leaser (g_admitter g) = None
      | Some r \<Rightarrow> ad_leaser (g_admitter g) = Some exit_Lease \<and> router_typed (g_store g) r)"

section \<open>The start\<close>

lemma NewAllocator_typed:
  assumes "NewAllocator pool = Inr a"
  shows "alloc_typed a"
proof -
  obtain x net where n: "pfx_addr pool = V4 x" "net = x AND NOT (mask (32 - nat (pfx_bits pool)))"
    "unat net + pool_size pool \<le> 2 ^ 32" "al_prefix a = pool\<lparr>pfx_addr := V4 net\<rparr>"
    "al_free a = usable net (pool_size pool)" "al_forward a = Map.empty"
    using NewAllocator_pool [OF assms] by metis
  have bits: "0 \<le> pfx_bits pool" "pfx_bits pool \<le> 32"
    using assms n(1) by (auto simp: NewAllocator_def Prefix_IsValid_def split: if_splits)
  have "Is4 addr \<and> Prefix_Contains (al_prefix a) addr" if in_free: "addr \<in> set (al_free a)" for addr
  proof -
    obtain m where m: "addr = V4 (of_nat m)" "unat net \<le> m" "m < unat net + pool_size pool"
      using in_free by (auto simp: n(5) usable_def)
    then have "unat (of_nat m :: u32) = m" using n(3) by (simp add: unat_of_nat)
    moreover have "pool_size (al_prefix a) dvd unat net"
      using masked_net(1) [of "32 - nat (pfx_bits pool)" x] by (simp add: n(2,4) pool_size_def)
    ultimately show ?thesis
      using Contains_V4_iff [of "al_prefix a" net] bits m by (simp add: n(4) Is4_def pool_size_def)
  qed
  with NewAllocator_inv [OF assms] n(6) show ?thesis by (simp add: alloc_typed_def)
qed

lemma NewPathSet_inv: "ttl \<le> max_int64 \<Longrightarrow> ps_inv (NewPathSet ttl)"
  by (simp add: NewPathSet_def ps_inv_def entries_of_def defaultPathTTL_def nanos_per_second_def max_int64_def)

lemma gateway_typed_new:
  assumes "cap \<le> max_int64"
  shows "gateway_typed (NewDataGateway priv svc cap)"
  using gw_inv_new [OF assms]
  by (simp add: gateway_typed_def NewDataGateway_def Registry_Counter_def Registry_Gauge_def NewSessionStore_def NewAdmitter_def)

lemma gateway_typed_EnableExit:
  assumes "gateway_typed g" and "NewAllocator pool = Inr a" and "ttl \<le> max_int64"
  shows "gateway_typed (EnableExit g \<lparr>rt_alloc = a, rt_paths = NewPathSet ttl\<rparr>)"
  using assms(1) NewAllocator_typed [OF assms(2)] NewPathSet_inv [OF assms(3)] gw_inv_EnableExit
  by (auto simp: gateway_typed_def EnableExit_def router_typed_def SetLeaser_def NewPathSet_def entries_of_def)

section \<open>The steps\<close>

lemma Allocate_typed:
  assumes "alloc_typed a" and "wf_session sid"
  shows "alloc_typed (snd (Allocate a sid))"
proof (rule Allocate_cases [of a sid])
  fix xs addr
  assume f: "al_forward a sid = None" "al_free a = xs @ [addr]"
    and eq: "Allocate a sid = (Inr addr, a\<lparr>al_free := xs, al_forward := (al_forward a)(sid \<mapsto> addr),
         al_reverse := (al_reverse a)(addr \<mapsto> sid)\<rparr>)"
  have "alloc_inv (snd (Allocate a sid))" using assms(1) Allocate_inv by (simp add: alloc_typed_def)
  with assms f eq show ?thesis by (auto simp: alloc_typed_def ran_def)
qed (use assms in simp_all)

text \<open>A handshake leases an address to a session id it decoded, or leaves the router alone.\<close>

lemma Handshake_router:
  assumes "Admitter_Handshake C nh nt rnd a store ex hello priv = (res, store', ex')"
  shows "ex' = ex \<or> (\<exists>sid. wf_session sid \<and> ex' = snd (leaseIP a ex sid))"
  using assms DecodeClientHello_inv(1)
  by (auto simp: Admitter_Handshake_def split: sum.splits prod.splits) (metis snd_conv)+

lemma leaseIP_typed:
  assumes "router_typed store r" and "wf_session sid" and "ad_leaser a = Some exit_Lease"
  shows "\<exists>r'. snd (leaseIP a (Some r) sid) = Some r' \<and> router_typed store r'"
  using assms Allocate_typed [of "rt_alloc r" sid]
  by (auto simp: leaseIP_def exit_Lease_def Router_Lease_def router_typed_def split: prod.splits sum.splits)

lemma router_typed_mono: "router_typed store r \<Longrightarrow> dom (st_keys store) \<subseteq> dom (st_keys store') \<Longrightarrow> router_typed store' r"
  unfolding router_typed_def by blast

lemma refresh_nonempty [simp]: "refresh es addr t \<noteq> []"
  by (cases es) simp_all

lemma RecordPath_typed:
  assumes "router_typed store r" and "sid \<in> dom (st_keys store)"
  shows "router_typed store (Router_RecordPath r t sid addr)"
  using assms step_inv [of "rt_paths r" "OpRecord sid addr t"] by (auto simp: router_typed_def Router_RecordPath_def)

lemma ServeReturn_step_typed:
  assumes "router_typed store r" and "ServeReturn_step fr sinkOk now (r, g) packet = (effs, r', g')"
  shows "router_typed store r'"
proof -
  have "r' = r \<or> (\<exists>sid. r' = r\<lparr>rt_paths := snd (PathSet_Fresh (rt_paths r) now sid)\<rparr>)"
    using assms(2) by (auto simp: ServeReturn_step_def Let_def split: option.splits prod.splits sum.splits) (metis snd_conv)+
  then show ?thesis
  proof (rule disjE)
    assume "\<exists>sid. r' = r\<lparr>rt_paths := snd (PathSet_Fresh (rt_paths r) now sid)\<rparr>"
    then obtain sid where r': "r' = r\<lparr>rt_paths := snd (PathSet_Fresh (rt_paths r) now sid)\<rparr>" ..
    have "entries_of (rt_paths r) s \<noteq> []" if "entries_of (rt_paths r') s \<noteq> []" for s
      using that by (auto simp: r' split: if_splits)
    moreover have "rt_alloc r' = rt_alloc r" by (simp add: r')
    moreover have "ps_inv (rt_paths r) \<Longrightarrow> ps_inv (rt_paths r')"
      using step_inv [of "rt_paths r" "OpFresh sid now"] by (simp add: r')
    ultimately show ?thesis using assms(1) unfolding router_typed_def by auto
  qed (use assms(1) in simp)
qed

text \<open>The session of an accepted data datagram has a key.\<close>

lemma accepted_has_key:
  assumes "dp_inv resolver d" and "HandleClassified C resolver d w = (Inr x, d')" and "SessionIDFromDatagram w = Inr sid"
  shows "resolver sid \<noteq> None"
  using assms by (auto simp: HandleClassified_def sessionFor_def dp_inv_def split: option.splits sum.splits prod.splits)

lemma handled_exit_typed:
  assumes "gateway_typed g" and "handled C g rc = (reply, rec, g1)" and "g_exit g = Some r"
  obtains r1 where "g_exit g1 = Some r1" "router_typed (g_store g1) r1"
    "dr_Kind rec = ''data'' \<and> \<not> SessionID_IsZero (dr_SessionID rec) \<longrightarrow> dr_SessionID rec \<in> dom (st_keys (g_store g1))"
proof -
  have t: "router_typed (g_store g) r" "ad_leaser (g_admitter g) = Some exit_Lease" "gw_inv g"
    using assms(1,3) by (auto simp: gateway_typed_def)
  show thesis
  proof (rule HandleDatagram_cases [OF assms(2) [unfolded handled_def]])
    fix ex res
    assume k: "dr_Kind rec = ''client-hello''" and ex: "g_exit g1 = ex"
      and a: "Admitter_Handshake C (rc_nowHello rc) (rc_nowToken rc) (rc_rnd rc) (g_admitter g) (g_store g) (g_exit g)
        (take 2048 (rc_datagram rc)) (g_identityPriv g) = (res, g_store g1, ex)"
    have "dom (st_keys (g_store g)) \<subseteq> dom (st_keys (g_store g1))"
      by (cases "g_store g1 = g_store g") (auto elim: Handshake_store [OF a])
    moreover obtain r1 where "ex = Some r1" "router_typed (g_store g) r1"
      using Handshake_router [OF a] leaseIP_typed [OF t(1) _ t(2)] t(1) by (auto simp: assms(3))
    ultimately show thesis using that k ex router_typed_mono by simp
  next
    fix x
    assume d: "g_store g1 = g_store g" "g_exit g1 = g_exit g" "(rec, g1) = handleData C g (take 2048 (rc_datagram rc))"
      and c: "HandleClassified C (SessionKey (g_store g)) (g_dataPlane g) (take 2048 (rc_datagram rc)) = (x, g_dataPlane g1)"
    note rec = handleData_record [OF d(3) [symmetric] c]
    have "dr_SessionID rec \<in> dom (st_keys (g_store g))" if nz: "\<not> SessionID_IsZero (dr_SessionID rec)"
    proof (cases x)
      case (Inl e)
      with rec(5) nz show ?thesis by (simp add: zeroSession_def SessionIDSize_def numeral_eq_Suc)
    next
      case (Inr y)
      with accepted_has_key [OF t(3) [unfolded gw_inv_def] c [unfolded Inr] rec(4)] show ?thesis by (auto simp: SessionKey_def)
    qed
    then show thesis using that d(1,2) t(1) assms(3) by simp
  qed (use that t(1) assms(3) in simp)
qed

lemma keys_typed_step:
  assumes "hkdf_size C" and "\<And>sid key. st_keys (g_store g) sid = Some key \<Longrightarrow> wf_session sid \<and> length key = keySize"
    and "st_keys (g_store (snd (gw_step C g ev))) sid = Some key"
  shows "wf_session sid \<and> length key = keySize"
proof (cases "st_keys (g_store g) sid = Some key")
  case False
  with step_keys [OF assms(3)] have "admitted_in C (g_admitter g) [ev] sid key" by blast
  then obtain w ts ceph token gpriv where "DecodeClientHello w = Inr (sid, ts, ceph, token)" "DeriveSessionKey C gpriv ceph sid = Inr key"
    by (auto simp: admitted_in_def admissible_def)
  with assms(1) DecodeClientHello_inv(1) show ?thesis by (auto simp: DeriveSessionKey_Inr hkdf_size_def)
qed (use assms(2) in blast)

lemma exit_typed_step:
  assumes "gateway_typed g" and "g_exit g = Some r"
  shows "\<exists>r'. g_exit (snd (gw_step C g ev)) = Some r' \<and> router_typed (g_store (snd (gw_step C g ev))) r'"
proof (cases ev)
  case (Datagram rc)
  obtain reply rec g1 where h: "handled C g rc = (reply, rec, g1)" by (metis prod_cases3)
  obtain r1 where r1: "g_exit g1 = Some r1" "router_typed (g_store g1) r1"
    "dr_Kind rec = ''data'' \<and> \<not> SessionID_IsZero (dr_SessionID rec) \<longrightarrow> dr_SessionID rec \<in> dom (st_keys (g_store g1))"
    by (rule handled_exit_typed [OF assms(1) h assms(2)])
  then show ?thesis
    using RecordPath_typed [OF r1(2)] by (auto simp: Datagram gw_step_def Serve_step_exit [OF h] Serve_step_frame [OF h] split: option.splits)
next
  case (ReturnPacket packet now sinkOk)
  obtain effs r' g' where s: "ServeReturn_step (FrameReturn C) sinkOk now (r, g) packet = (effs, r', g')" by (metis prod_cases3)
  have "router_typed (g_store g) r" using assms by (simp add: gateway_typed_def)
  with ServeReturn_step_typed [OF _ s] have "router_typed (g_store g) r'" by blast
  moreover have "g_exit (snd (gw_step C g ev)) = Some r'"
    using assms(2) s by (simp add: ReturnPacket gw_step_def Return_step_def)
  ultimately show ?thesis by (simp add: ReturnPacket gw_step_def Return_step_frame)
qed

lemma exit_none_step:
  assumes "ad_leaser (g_admitter g) = None" and "g_exit g = None"
  shows "g_exit (snd (gw_step C g ev)) = None"
proof (cases ev)
  case (Datagram rc)
  obtain reply rec g1 where h: "handled C g rc = (reply, rec, g1)" by (metis prod_cases3)
  have "g_exit g1 = None"
  proof (rule HandleDatagram_cases [OF h [unfolded handled_def]])
    fix ex res
    assume "g_exit g1 = ex"
      "Admitter_Handshake C (rc_nowHello rc) (rc_nowToken rc) (rc_rnd rc) (g_admitter g) (g_store g) (g_exit g)
        (take 2048 (rc_datagram rc)) (g_identityPriv g) = (res, g_store g1, ex)"
    with Handshake_router show ?thesis using assms by (fastforce simp: leaseIP_def)
  qed (use assms(2) in simp_all)
  then show ?thesis by (simp add: Datagram gw_step_def Serve_step_exit [OF h])
qed (use assms(2) in \<open>simp add: gw_step_def Return_step_def\<close>)

lemma gateway_typed_step:
  assumes "hkdf_size C" and "gateway_typed g"
  shows "gateway_typed (snd (gw_step C g ev))"
proof -
  have t: "gw_inv g" "\<And>sid key. st_keys (g_store g) sid = Some key \<Longrightarrow> wf_session sid \<and> length key = keySize"
    using assms(2) by (auto simp: gateway_typed_def)
  have "case g_exit (snd (gw_step C g ev)) of
      None \<Rightarrow> ad_leaser (g_admitter g) = None
    | Some r \<Rightarrow> ad_leaser (g_admitter g) = Some exit_Lease \<and> router_typed (g_store (snd (gw_step C g ev))) r"
    using assms(2) exit_typed_step [OF assms(2), of _ C ev] exit_none_step [of g C ev]
    by (cases "g_exit g") (auto simp: gateway_typed_def)
  with gateway_once.inv_step [OF t(1), of C ev] keys_typed_step [OF assms(1) t(2), where ev = ev] show ?thesis
    unfolding gateway_typed_def gw_step_admitter by blast
qed

lemma gateway_typed_run: "hkdf_size C \<Longrightarrow> gateway_typed g \<Longrightarrow> gateway_typed (final_state (gw_step C) g evs)"
  by (induction evs arbitrary: g) (simp_all add: gateway_typed_step)

lemma run_admitter: "g_admitter (final_state (gw_step C) g evs) = g_admitter g"
  by (induction evs arbitrary: g) (simp_all add: gw_step_admitter)

section \<open>Property\<close>

text \<open>
  C15. The gateway's state keeps its types: from a new gateway over any pool the allocator accepts, along every
  interleaving of datagrams, however malformed, and return packets, every registered session has a 16-byte id and a
  32-byte key, every live session is the responder of its id under the registered key with a well-formed replay window,
  every lease is an IPv4 address of the pool held by a 16-byte session id, and return endpoints are only kept for
  registered sessions.
\<close>

theorem gateway_well_typed:
  assumes "hkdf_size C" and "cap \<le> max_int64" and "NewAllocator pool = Inr a" and "ttl \<le> max_int64"
    and "g = final_state (gw_step C) (EnableExit (NewDataGateway priv svc cap) \<lparr>rt_alloc = a, rt_paths = NewPathSet ttl\<rparr>) evs"
  shows "\<exists>r. g_exit g = Some r \<and>
    (\<forall>sid key. SessionKey (g_store g) sid = Some key \<longrightarrow> length sid = SessionIDSize \<and> length key = keySize) \<and>
    (\<forall>sid s. dp_sessions (g_dataPlane g) sid = Some s \<longrightarrow>
       s_id s = sid \<and> s_role s = RoleResponder \<and> SessionKey (g_store g) sid = Some (s_sealer s) \<and> session_inv s) \<and>
    (\<forall>sid addr. LeaseOf (rt_alloc r) sid = Some addr \<longrightarrow>
       length sid = SessionIDSize \<and> Is4 addr \<and> Prefix_Contains (al_prefix (rt_alloc r)) addr) \<and>
    (\<forall>sid. entries_of (rt_paths r) sid \<noteq> [] \<longrightarrow> SessionKey (g_store g) sid \<noteq> None)"
proof -
  let ?g0 = "EnableExit (NewDataGateway priv svc cap) \<lparr>rt_alloc = a, rt_paths = NewPathSet ttl\<rparr>"
  have "gateway_typed g" unfolding assms(5)
    by (intro gateway_typed_run gateway_typed_EnableExit gateway_typed_new) (rule assms)+
  moreover have "ad_leaser (g_admitter g) = Some exit_Lease"
    by (simp add: assms(5) run_admitter EnableExit_def SetLeaser_def)
  ultimately obtain r where "g_exit g = Some r" "router_typed (g_store g) r" "gw_inv g"
    "\<And>sid key. st_keys (g_store g) sid = Some key \<Longrightarrow> wf_session sid \<and> length key = keySize"
    by (auto simp: gateway_typed_def split: option.splits)
  then show ?thesis
    by (auto simp: router_typed_def alloc_typed_def gw_inv_def dp_inv_def SessionKey_def LeaseOf_def wf_session_def dom_def ran_def)
qed

lemma demo_hello_leased:
  "\<exists>r'. final_state (gw_step demo_crypto) (EnableExit demo_gateway \<lparr>rt_alloc = demo_allocator, rt_paths = NewPathSet 10\<rparr>)
     [Datagram (demo_reception demo_hello)] = r' \<and> st_keys (g_store r') demo_sid = Some demo_skey"
proof -
  let ?g = "EnableExit demo_gateway \<lparr>rt_alloc = demo_allocator, rt_paths = NewPathSet 10\<rparr>"
  have g: "ad_tolerance (g_admitter ?g) = DefaultHandshakeTolerance" "ad_service (g_admitter ?g) = demo_open"
    "ad_leaser (g_admitter ?g) = Some exit_Lease" "g_store ?g = NewSessionStore" "g_identityPriv ?g = demo_identity"
    "g_exit ?g = Some \<lparr>rt_alloc = demo_allocator, rt_paths = NewPathSet 10\<rparr>"
    by (simp_all add: EnableExit_def SetLeaser_def demo_gateway_def NewDataGateway_def NewAdmitter_def Registry_Counter_def Registry_Gauge_def)
  obtain assigned ip r' where "leaseIP (g_admitter ?g) (g_exit ?g) demo_sid = (Inr (assigned, ip), r')"
    unfolding leaseIP_def g by (simp add: exit_Lease_def Router_Lease_def Allocate_def demo_allocator_def Let_def Is4_def)
  from demo_hello_accepted [OF g(1,2) this] obtain sh where
    h: "Admitter_Handshake demo_crypto (time_Unix 0) 0 (Some (replicate 32 2)) (g_admitter ?g) (g_store ?g) (g_exit ?g) demo_hello
      (g_identityPriv ?g) = (Inr (sh, \<lparr>cl_Subject = [], cl_Tier = TierSelfHosted, cl_Expiry = 0\<rparr>, demo_sid, ip),
      \<lparr>st_keys = [demo_sid \<mapsto> demo_skey]\<rparr>, r')" unfolding g by blast
  obtain reply rec g1 where hd: "handled demo_crypto ?g (demo_reception demo_hello) = (reply, rec, g1)" by (metis prod_cases3)
  have "take 2048 demo_hello = demo_hello" "ClassifyDatagram demo_hello = KindClientHello"
    by (simp_all add: demo_hello_def ClassifyDatagram_def putHandshakeHeader_def handshake_consts dataMagic_def pingMagic_def put_be64_def put_be16_def demo_sid_def)
  then have "g_store g1 = \<lparr>st_keys = [demo_sid \<mapsto> demo_skey]\<rparr>"
    using hd h by (auto simp: handled_def demo_reception_def HandleDatagram_def handleHandshake_def Let_def)
  then show ?thesis by (simp add: gw_step_def Serve_step_frame [OF hd])
qed

theorem gateway_well_typed_witness:
  "\<exists>g. g = final_state (gw_step demo_crypto) (EnableExit demo_gateway \<lparr>rt_alloc = demo_allocator, rt_paths = NewPathSet 10\<rparr>)
       [Datagram (demo_reception demo_hello)] \<and>
     SessionKey (g_store g) demo_sid = Some demo_skey \<and> length demo_sid = SessionIDSize \<and> length demo_skey = keySize"
proof -
  have "demo_gateway = NewDataGateway demo_identity demo_open 100" "(100 :: int) \<le> max_int64" "(10 :: int) \<le> max_int64"
    by (simp_all add: demo_gateway_def max_int64_def)
  with gateway_well_typed [OF demo_crypto_laws(6) _ demo_allocator_new _ refl, of 100 10 demo_identity demo_open
      "[Datagram (demo_reception demo_hello)]"] demo_hello_leased show ?thesis
    by (auto simp: SessionKey_def)
qed

end
