(* ===== verification/Path_Classifier.thy ===== *)
theory Path_Classifier
  imports Go_Strings "HOL-Library.Multiset"
begin

text \<open>
  \<^verbatim>\<open>internal/paths/classifier.go\<close>: which observed network interfaces serve as the Wi-Fi and the
  Android uplink. A role gets a candidate only when exactly one usable interface of its kind is present.
\<close>

section \<open>The code\<close>

datatype LinkKind = LinkKindUnknown | LinkKindWiFi | LinkKindAndroidUSBTether

fun LinkKind_String :: "LinkKind \<Rightarrow> string" where
  "LinkKind_String LinkKindWiFi = ''wi-fi''"
| "LinkKind_String LinkKindAndroidUSBTether = ''android-usb-tether''"
| "LinkKind_String LinkKindUnknown = ''unknown''"

datatype PathRole = RoleWiFi | RoleAndroidUSBTether

fun PathRole_String :: "PathRole \<Rightarrow> string" where
  "PathRole_String RoleWiFi = ''wi-fi''"
| "PathRole_String RoleAndroidUSBTether = ''android-usb-tether''"

record Observation =
  obs_ID :: string
  obs_DisplayName :: string
  obs_Kind :: LinkKind
  obs_Up :: bool
  obs_Running :: bool
  obs_Loopback :: bool
  obs_HasIPv4 :: bool

definition Usable :: "Observation \<Rightarrow> bool" where
  "Usable observation \<longleftrightarrow> obs_ID observation \<noteq> '''' \<and> obs_Up observation \<and> obs_Running observation \<and>
     \<not> obs_Loopback observation \<and> obs_HasIPv4 observation"

record Candidate =
  cand_Role :: PathRole
  cand_Observation :: Observation

datatype IssueCode = IssueMissingCandidate | IssueAmbiguousCandidate

fun IssueCode_String :: "IssueCode \<Rightarrow> string" where
  "IssueCode_String IssueMissingCandidate = ''missing-candidate''"
| "IssueCode_String IssueAmbiguousCandidate = ''ambiguous-candidate''"

record Issue =
  issue_Code :: IssueCode
  issue_Role :: PathRole
  issue_Count :: int

record Classification =
  Candidates :: "Candidate list"
  Issues :: "Issue list"

text \<open>The returned pointer is nil (\<^term>\<open>None\<close>) when no candidate has the role.\<close>

definition Candidate_for :: "Classification \<Rightarrow> PathRole \<Rightarrow> Candidate option" where
  "Candidate_for classification role = find (\<lambda>c. cand_Role c = role) (Candidates classification)"

definition Complete :: "Classification \<Rightarrow> bool" where
  "Complete classification \<longleftrightarrow> length (Issues classification) = 0 \<and>
     Candidate_for classification RoleWiFi \<noteq> None \<and> Candidate_for classification RoleAndroidUSBTether \<noteq> None"

definition matchingUsable :: "LinkKind \<Rightarrow> Observation list \<Rightarrow> Observation list" where
  "matchingUsable kind observations = filter (\<lambda>observation. obs_Kind observation = kind \<and> Usable observation) observations"

definition classifyRole ::
  "Classification \<Rightarrow> PathRole \<Rightarrow> LinkKind \<Rightarrow> Observation list \<Rightarrow> Classification" where
  "classifyRole result role kind observations =
     (case matchingUsable kind observations of
        [] \<Rightarrow> result\<lparr>Issues := Issues result @
                [\<lparr>issue_Code = IssueMissingCandidate, issue_Role = role, issue_Count = 0\<rparr>]\<rparr>
      | [match] \<Rightarrow> result\<lparr>Candidates := Candidates result @
                [\<lparr>cand_Role = role, cand_Observation = match\<rparr>]\<rparr>
      | matches \<Rightarrow> result\<lparr>Issues := Issues result @
                [\<lparr>issue_Code = IssueAmbiguousCandidate, issue_Role = role, issue_Count = int (length matches)\<rparr>]\<rparr>)"

definition Classify :: "Observation list \<Rightarrow> Classification" where
  "Classify observations =
     classifyRole (classifyRole \<lparr>Candidates = [], Issues = []\<rparr> RoleWiFi LinkKindWiFi observations)
       RoleAndroidUSBTether LinkKindAndroidUSBTether observations"

section \<open>Which interface is chosen\<close>

fun kind_of :: "PathRole \<Rightarrow> LinkKind" where
  "kind_of RoleWiFi = LinkKindWiFi"
| "kind_of RoleAndroidUSBTether = LinkKindAndroidUSBTether"

definition fits :: "PathRole \<Rightarrow> Observation \<Rightarrow> bool" where
  "fits role observation \<longleftrightarrow> obs_Kind observation = kind_of role \<and> Usable observation"

text \<open>The outcome for one role, as a function of the interfaces that fit it.\<close>

fun outcome :: "PathRole \<Rightarrow> Observation list \<Rightarrow> Candidate list \<times> Issue list" where
  "outcome role [] = ([], [\<lparr>issue_Code = IssueMissingCandidate, issue_Role = role, issue_Count = 0\<rparr>])"
| "outcome role [m] = ([\<lparr>cand_Role = role, cand_Observation = m\<rparr>], [])"
| "outcome role ms = ([], [\<lparr>issue_Code = IssueAmbiguousCandidate, issue_Role = role, issue_Count = int (length ms)\<rparr>])"

lemma matching_fits: "matchingUsable (kind_of role) observations = filter (fits role) observations"
  by (simp add: matchingUsable_def fits_def [abs_def])

lemma classifyRole_outcome:
  "classifyRole result role (kind_of role) observations =
     \<lparr>Candidates = Candidates result @ fst (outcome role (filter (fits role) observations)),
      Issues = Issues result @ snd (outcome role (filter (fits role) observations))\<rparr>"
  unfolding classifyRole_def matching_fits by (auto split: list.split)

lemma Classify_outcome:
  "Classify observations =
     \<lparr>Candidates = fst (outcome RoleWiFi (filter (fits RoleWiFi) observations)) @
                   fst (outcome RoleAndroidUSBTether (filter (fits RoleAndroidUSBTether) observations)),
      Issues = snd (outcome RoleWiFi (filter (fits RoleWiFi) observations)) @
               snd (outcome RoleAndroidUSBTether (filter (fits RoleAndroidUSBTether) observations))\<rparr>"
  using classifyRole_outcome [of _ RoleWiFi] classifyRole_outcome [of _ RoleAndroidUSBTether]
  by (simp add: Classify_def)

lemma outcome_cases: "fst (outcome role ms) = (case ms of [m] \<Rightarrow> [\<lparr>cand_Role = role, cand_Observation = m\<rparr>] | _ \<Rightarrow> [])"
  by (cases "(role, ms)" rule: outcome.cases) auto

lemma Candidate_for_Classify:
  "Candidate_for (Classify observations) role =
     (case filter (fits role) observations of [m] \<Rightarrow> Some \<lparr>cand_Role = role, cand_Observation = m\<rparr> | _ \<Rightarrow> None)"
  unfolding Candidate_for_def Classify_outcome outcome_cases
  by (cases role) (auto split: list.split)

lemma Candidate_for_unique:
  "Candidate_for (Classify observations) role \<noteq> None \<longleftrightarrow> length (filter (fits role) observations) = 1"
  by (auto simp: Candidate_for_Classify length_Suc_conv split: list.split)

lemma outcome_no_issue: "length ms = 1 \<Longrightarrow> snd (outcome role ms) = []"
  by (cases "(role, ms)" rule: outcome.cases) auto

lemma Complete_iff:
  "Complete (Classify observations) \<longleftrightarrow> (\<forall>role. length (filter (fits role) observations) = 1)"
proof -
  have "Issues (Classify observations) = []" if "\<forall>role. length (filter (fits role) observations) = 1"
    using that by (simp add: Classify_outcome outcome_no_issue)
  then show ?thesis unfolding Complete_def Candidate_for_unique by (metis PathRole.exhaust list.size(3))
qed

text \<open>
  A change of the interfaces' names that leaves kind and usability alone is carried through, so the choice
  depends neither on names nor on the order in which the system lists the interfaces.
\<close>

definition rename_candidate :: "(Observation \<Rightarrow> Observation) \<Rightarrow> Candidate \<Rightarrow> Candidate" where
  "rename_candidate f c = c\<lparr>cand_Observation := f (cand_Observation c)\<rparr>"

lemma outcome_rename:
  "outcome role (map f ms) = (map (rename_candidate f) (fst (outcome role ms)), snd (outcome role ms))"
  by (cases "(role, ms)" rule: outcome.cases) (simp_all add: rename_candidate_def)

lemma outcome_perm: "mset ms = mset ms' \<Longrightarrow> outcome role ms = outcome role ms'"
proof (cases "(role, ms)" rule: outcome.cases)
  case (3 role' a b rest)
  assume eq: "mset ms = mset ms'"
  then have len: "length ms' = length ms" by (metis size_mset)
  with 3 obtain c d rest' where "ms' = c # d # rest'" by (cases ms' rule: remdups_adj.cases) auto
  with 3 len show ?thesis by simp
qed auto

lemma Classify_rename:
  assumes "\<And>observation. obs_Kind (f observation) = obs_Kind observation"
    and "\<And>observation. Usable (f observation) = Usable observation"
  shows "Classify (map f observations) =
    (Classify observations)\<lparr>Candidates := map (rename_candidate f) (Candidates (Classify observations))\<rparr>"
proof -
  have "fits role \<circ> f = fits role" for role by (auto simp: fits_def assms)
  then show ?thesis by (simp add: Classify_outcome filter_map outcome_rename)
qed

lemma Classify_perm:
  assumes "mset observations = mset observations'"
  shows "Classify observations = Classify observations'"
proof -
  have "mset (filter (fits role) observations) = mset (filter (fits role) observations')" for role
    using assms by (simp add: mset_filter)
  from outcome_perm [OF this, of RoleWiFi] outcome_perm [OF this, of RoleAndroidUSBTether] show ?thesis
    by (simp add: Classify_outcome)
qed

lemma classify_parts:
  assumes "mset observations = mset observations'"
  shows "Complete (Classify observations') \<longleftrightarrow> (\<forall>role. length (filter (fits role) observations) = 1)"
    and "map cand_Observation (filter (\<lambda>c. cand_Role c = role) (Candidates (Classify observations'))) =
           (if length (filter (fits role) observations) = 1 then filter (fits role) observations else [])"
    and "map (\<lambda>i. (issue_Code i, issue_Count i)) (filter (\<lambda>i. issue_Role i = role) (Issues (Classify observations'))) =
           (let n = length (filter (fits role) observations) in
            if n = 0 then [(IssueMissingCandidate, 0)] else if n = 1 then [] else [(IssueAmbiguousCandidate, int n)])"
proof -
  note perm = Classify_perm [OF assms, symmetric]
  show "Complete (Classify observations') \<longleftrightarrow> (\<forall>role. length (filter (fits role) observations) = 1)"
    unfolding perm by (rule Complete_iff)
  have c: "map cand_Observation (filter (\<lambda>c. cand_Role c = r) (fst (outcome r' ms))) =
      (if r = r' \<and> length ms = 1 then ms else [])" for r r' ms
    by (cases "(r', ms)" rule: outcome.cases) auto
  have i: "map (\<lambda>i. (issue_Code i, issue_Count i)) (filter (\<lambda>i. issue_Role i = r) (snd (outcome r' ms))) =
      (if r \<noteq> r' then [] else let n = length ms in
       if n = 0 then [(IssueMissingCandidate, 0)] else if n = 1 then [] else [(IssueAmbiguousCandidate, int n)])" for r r' ms
    by (cases "(r', ms)" rule: outcome.cases) auto
  show "map cand_Observation (filter (\<lambda>c. cand_Role c = role) (Candidates (Classify observations'))) =
      (if length (filter (fits role) observations) = 1 then filter (fits role) observations else [])"
    unfolding perm unfolding Classify_outcome by (cases role) (simp_all add: c)
  show "map (\<lambda>i. (issue_Code i, issue_Count i)) (filter (\<lambda>i. issue_Role i = role) (Issues (Classify observations'))) =
           (let n = length (filter (fits role) observations) in
            if n = 0 then [(IssueMissingCandidate, 0)] else if n = 1 then [] else [(IssueAmbiguousCandidate, int n)])"
    unfolding perm unfolding Classify_outcome by (cases role) (simp_all add: i)
qed

text \<open>
  C39. The classification is complete exactly when each role has exactly one usable interface of its kind. A
  role has a candidate exactly when one interface fits it, and that interface is the candidate; otherwise it
  has the one issue that says whether none fits or how many do. Reordering the interfaces changes nothing.
\<close>

theorem classify_exact:
  assumes "mset observations = mset observations'"
  shows "(Complete (Classify observations') \<longleftrightarrow> (\<forall>role. length (filter (fits role) observations) = 1)) \<and>
     map cand_Observation (filter (\<lambda>c. cand_Role c = role) (Candidates (Classify observations'))) =
       (if length (filter (fits role) observations) = 1 then filter (fits role) observations else []) \<and>
     map (\<lambda>i. (issue_Code i, issue_Count i)) (filter (\<lambda>i. issue_Role i = role) (Issues (Classify observations'))) =
       (let n = length (filter (fits role) observations) in
        if n = 0 then [(IssueMissingCandidate, 0)] else if n = 1 then [] else [(IssueAmbiguousCandidate, int n)])"
  using classify_parts [OF assms] by blast

definition demo_observation :: "string \<Rightarrow> LinkKind \<Rightarrow> Observation" where
  "demo_observation name kind = \<lparr>obs_ID = name, obs_DisplayName = '''', obs_Kind = kind, obs_Up = True,
     obs_Running = True, obs_Loopback = False, obs_HasIPv4 = True\<rparr>"

theorem classify_exact_witness:
  "Complete (Classify [demo_observation ''en7'' LinkKindAndroidUSBTether, demo_observation ''en0'' LinkKindWiFi]) \<and>
   \<not> Complete (Classify [demo_observation ''en0'' LinkKindWiFi, demo_observation ''en1'' LinkKindWiFi])"
proof
  let ?w = "demo_observation ''en0'' LinkKindWiFi" and ?a = "demo_observation ''en7'' LinkKindAndroidUSBTether"
  have "\<forall>role. length (filter (fits role) [?w, ?a]) = 1"
  proof
    fix role show "length (filter (fits role) [?w, ?a]) = 1"
      by (cases role) (simp_all add: fits_def Usable_def demo_observation_def)
  qed
  then show "Complete (Classify [?a, ?w])" using classify_exact [of "[?w, ?a]" "[?a, ?w]"] by simp
  have "length (filter (fits RoleWiFi) [?w, demo_observation ''en1'' LinkKindWiFi]) \<noteq> 1"
    by (simp add: fits_def Usable_def demo_observation_def)
  then show "\<not> Complete (Classify [?w, demo_observation ''en1'' LinkKindWiFi])"
    using classify_exact [of "[?w, demo_observation ''en1'' LinkKindWiFi]"] by blast
qed

end
