(* ===== verification/Go_Text.thy ===== *)
theory Go_Text
  imports Go_Strings
begin

unbundle bit_operations_syntax

text \<open>
  Text processing of the Go library that the diagnostics and the start-up checks call: line scanning,
  prefixes, UTF-8 and case folding. The character tables beyond ASCII are an argument.
\<close>

section \<open>Prefixes and lines\<close>

definition strings_CutPrefix :: "string \<Rightarrow> string \<Rightarrow> string \<times> bool" where
  "strings_CutPrefix s pre = (if prefix pre s then (drop (length pre) s, True) else (s, False))"

definition strconv_Atoi :: "string \<Rightarrow> int option" where
  "strconv_Atoi s = ParseInt s"

abbreviation newline :: char where "newline \<equiv> CHR 0x0A"

text \<open>
  \<^verbatim>\<open>bufio.Scanner\<close> with its default split function: lines without the line feed and without one
  carriage return before it, an empty rest after the last line feed being no line. A line that does not fit
  the 64 KiB buffer ends the scan; the flag is \<^verbatim>\<open>Err() == ErrTooLong\<close>.
\<close>

definition MaxScanTokenSize :: nat where "MaxScanTokenSize = 65536"

definition dropCR :: "string \<Rightarrow> string" where
  "dropCR l = (if l \<noteq> [] \<and> last l = CHR 0x0D then butlast l else l)"

definition raw_lines :: "string \<Rightarrow> string list" where
  "raw_lines s = (let ps = strings_Split s newline in if last ps = [] then butlast ps else ps)"

definition bufio_lines :: "string \<Rightarrow> string list \<times> bool" where
  "bufio_lines s =
     (let fit = takeWhile (\<lambda>l. length l < MaxScanTokenSize) (raw_lines s)
      in (map dropCR fit, fit \<noteq> raw_lines s))"

lemma raw_lines_Nil [simp]: "raw_lines [] = []"
  by (simp add: raw_lines_def)

lemma raw_lines_line:
  assumes "newline \<notin> set l"
  shows "raw_lines (l @ newline # s) = l # raw_lines s"
  using assms by (simp add: raw_lines_def Split_append Let_def)

text \<open>Text written one line at a time is read back one line at a time.\<close>

definition unlines :: "string list \<Rightarrow> string" where
  "unlines ls = concat (map (\<lambda>l. l @ [newline]) ls)"

lemma unlines_simps [simp]: "unlines [] = []" "unlines (l # ls) = l @ newline # unlines ls"
  "unlines (ls @ ms) = unlines ls @ unlines ms" "unlines ls = [] \<longleftrightarrow> ls = []"
  by (simp_all add: unlines_def)

lemma Split_unlines: "(\<And>l. l \<in> set ls \<Longrightarrow> newline \<notin> set l) \<Longrightarrow> strings_Split (unlines ls) newline = ls @ ['''']"
  by (induction ls) (simp_all add: Split_append)

lemma unlines_Split: "unlines (strings_Split s newline) = s @ [newline]"
proof -
  have "ps \<noteq> [] \<Longrightarrow> unlines ps = joined newline ps @ [newline]" for ps
    by (induction newline ps rule: joined.induct) simp_all
  from this [OF Split_neq_Nil] show ?thesis using Split_joined [of newline s] by simp
qed

lemma raw_lines_unlines: "(\<And>l. l \<in> set ls \<Longrightarrow> newline \<notin> set l) \<Longrightarrow> raw_lines (unlines ls) = ls"
  by (induction ls) (simp_all add: unlines_def raw_lines_line)

lemma bufio_lines_unlines:
  assumes "\<And>l. l \<in> set ls \<Longrightarrow> newline \<notin> set l \<and> CHR 0x0D \<notin> set l \<and> length l < MaxScanTokenSize"
  shows "bufio_lines (unlines ls) = (ls, False)"
proof -
  have "raw_lines (unlines ls) = ls" using assms by (intro raw_lines_unlines) blast
  moreover have "takeWhile (\<lambda>l. length l < MaxScanTokenSize) ls = ls" using assms by (simp add: takeWhile_eq_all_conv)
  moreover have "dropCR l = l" if "l \<in> set ls" for l using assms [OF that] by (metis dropCR_def last_in_set)
  then have "map dropCR ls = ls" by (simp add: map_idI)
  ultimately show ?thesis by (simp only: bufio_lines_def Let_def) simp
qed

section \<open>UTF-8\<close>

type_synonym rune = nat

definition RuneError :: rune where "RuneError = 0xFFFD"

text \<open>Length of the sequence a leading byte announces and the range of its second byte.\<close>

definition utf8_first :: "nat \<Rightarrow> (nat \<times> nat \<times> nat) option" where
  "utf8_first b =
     (if 0xC2 \<le> b \<and> b \<le> 0xDF then Some (2, 0x80, 0xBF)
      else if b = 0xE0 then Some (3, 0xA0, 0xBF)
      else if b = 0xED then Some (3, 0x80, 0x9F)
      else if 0xE1 \<le> b \<and> b \<le> 0xEF then Some (3, 0x80, 0xBF)
      else if b = 0xF0 then Some (4, 0x90, 0xBF)
      else if b = 0xF4 then Some (4, 0x80, 0x8F)
      else if 0xF1 \<le> b \<and> b \<le> 0xF3 then Some (4, 0x80, 0xBF)
      else None)"

definition utf8_cont :: "nat \<Rightarrow> bool" where "utf8_cont b \<longleftrightarrow> 0x80 \<le> b \<and> b \<le> 0xBF"

text \<open>\<^verbatim>\<open>utf8.DecodeRune\<close> on a leading byte and the bytes after it: the rune and its width.\<close>

definition decode_rune :: "nat \<Rightarrow> nat list \<Rightarrow> rune \<times> nat" where
  "decode_rune b0 rest =
     (if b0 < 0x80 then (b0, 1)
      else case utf8_first b0 of
        None \<Rightarrow> (RuneError, 1)
      | Some (n, lo, hi) \<Rightarrow>
          if n = 2 then
            (case rest of
               b1 # _ \<Rightarrow> if lo \<le> b1 \<and> b1 \<le> hi then ((b0 - 0xC0) * 64 + (b1 - 0x80), 2) else (RuneError, 1)
             | _ \<Rightarrow> (RuneError, 1))
          else if n = 3 then
            (case rest of
               b1 # b2 # _ \<Rightarrow> if lo \<le> b1 \<and> b1 \<le> hi \<and> utf8_cont b2
                 then ((b0 - 0xE0) * 4096 + (b1 - 0x80) * 64 + (b2 - 0x80), 3) else (RuneError, 1)
             | _ \<Rightarrow> (RuneError, 1))
          else
            (case rest of
               b1 # b2 # b3 # _ \<Rightarrow> if lo \<le> b1 \<and> b1 \<le> hi \<and> utf8_cont b2 \<and> utf8_cont b3
                 then ((b0 - 0xF0) * 262144 + (b1 - 0x80) * 4096 + (b2 - 0x80) * 64 + (b3 - 0x80), 4) else (RuneError, 1)
             | _ \<Rightarrow> (RuneError, 1)))"

text \<open>The runes of \<^verbatim>\<open>for _, r := range s\<close>.\<close>

function decode_runes :: "nat list \<Rightarrow> rune list" where
  "decode_runes [] = []"
| "decode_runes (b # bs) = fst (decode_rune b bs) # decode_runes (drop (snd (decode_rune b bs) - 1) bs)"
  by pat_completeness auto
termination
  by (relation "measure length") auto

definition runes :: "string \<Rightarrow> rune list" where
  "runes s = decode_runes (map of_char s)"

text \<open>\<^verbatim>\<open>utf8.AppendRune\<close>: what is no code point is written as \<^const>\<open>RuneError\<close>.\<close>

definition encode_rune :: "rune \<Rightarrow> string" where
  "encode_rune r0 =
     (let r = (if 0x10FFFF < r0 \<or> 0xD800 \<le> r0 \<and> r0 \<le> 0xDFFF then RuneError else r0) in
      map char_of
        (if r < 0x80 then [r]
         else if r < 0x800 then [0xC0 + r div 64, 0x80 + r mod 64]
         else if r < 0x10000 then [0xE0 + r div 4096, 0x80 + r div 64 mod 64, 0x80 + r mod 64]
         else [0xF0 + r div 262144, 0x80 + r div 4096 mod 64, 0x80 + r div 64 mod 64, 0x80 + r mod 64]))"

definition encode_runes :: "rune list \<Rightarrow> string" where
  "encode_runes rs = concat (map encode_rune rs)"

section \<open>Character classes\<close>

text \<open>The tables of package \<^verbatim>\<open>unicode\<close> for the code points from 128 on.\<close>

record unicode_tables =
  tab_letter :: "rune \<Rightarrow> bool"
  tab_digit :: "rune \<Rightarrow> bool"
  tab_lower :: "rune \<Rightarrow> rune"

definition unicode_IsLetter :: "unicode_tables \<Rightarrow> rune \<Rightarrow> bool" where
  "unicode_IsLetter uc r = (if r < 128 then 65 \<le> r \<and> r \<le> 90 \<or> 97 \<le> r \<and> r \<le> 122 else tab_letter uc r)"

definition unicode_IsDigit :: "unicode_tables \<Rightarrow> rune \<Rightarrow> bool" where
  "unicode_IsDigit uc r = (if r < 128 then 48 \<le> r \<and> r \<le> 57 else tab_digit uc r)"

definition unicode_ToLower :: "unicode_tables \<Rightarrow> rune \<Rightarrow> rune" where
  "unicode_ToLower uc r = (if r < 128 then if 65 \<le> r \<and> r \<le> 90 then r + 32 else r else tab_lower uc r)"

definition strings_ToLower :: "unicode_tables \<Rightarrow> string \<Rightarrow> string" where
  "strings_ToLower uc s = encode_runes (map (unicode_ToLower uc) (runes s))"

section \<open>ASCII text\<close>

definition ascii :: "string \<Rightarrow> bool" where
  "ascii s \<longleftrightarrow> list_all (\<lambda>c. of_char c < (128 :: nat)) s"

lemma ascii_simps [simp]: "ascii []" "ascii (c # s) \<longleftrightarrow> of_char c < (128 :: nat) \<and> ascii s"
  "ascii (s @ t) \<longleftrightarrow> ascii s \<and> ascii t"
  by (simp_all add: ascii_def)

lemma decode_runes_ascii: "\<forall>b \<in> set bs. b < 128 \<Longrightarrow> decode_runes bs = bs"
  by (induction bs) (simp_all add: decode_rune_def)

lemma runes_ascii: "ascii s \<Longrightarrow> runes s = map of_char s"
  by (simp add: runes_def decode_runes_ascii ascii_def list_all_iff)

lemma encode_rune_ascii: "r < 128 \<Longrightarrow> encode_rune r = [char_of r]"
  by (simp add: encode_rune_def)

lemma encode_runes_ascii: "\<forall>r \<in> set rs. r < 128 \<Longrightarrow> encode_runes rs = map char_of rs"
  by (induction rs) (simp_all add: encode_runes_def encode_rune_ascii)

lemma ascii_char_of: "r < 128 \<Longrightarrow> (of_char (char_of r :: char) :: nat) = r"
  by (simp add: of_char_of)

lemma ToLower_ascii:
  assumes "ascii s"
  shows "strings_ToLower uc s = map (\<lambda>c. char_of (unicode_ToLower uc (of_char c))) s"
    and "ascii (strings_ToLower uc s)"
proof -
  have lt: "\<forall>r \<in> set (map (unicode_ToLower uc) (map of_char s)). r < 128"
    using assms by (auto simp: ascii_def list_all_iff unicode_ToLower_def)
  then show eq: "strings_ToLower uc s = map (\<lambda>c. char_of (unicode_ToLower uc (of_char c))) s"
    using assms by (simp add: strings_ToLower_def runes_ascii encode_runes_ascii)
  show "ascii (strings_ToLower uc s)" unfolding eq using lt by (auto simp: ascii_def list_all_iff ascii_char_of)
qed

section \<open>Trimming\<close>

lemma strip_front_suffix: "\<exists>removed. s = removed @ strip_front pats s \<and> set removed \<subseteq> \<Union> (set ` set pats)"
proof (induction pats s rule: strip_front.induct)
  case (1 pats s)
  show ?case
  proof (cases "find (\<lambda>p. p \<noteq> [] \<and> prefix p s) pats")
    case None
    then show ?thesis by (subst strip_front.simps) simp
  next
    case (Some p)
    then have p: "p \<in> set pats" "prefix p s" by (auto simp: find_Some_iff)
    from 1 [OF Some] obtain removed where
      r: "drop (length p) s = removed @ strip_front pats (drop (length p) s)" "set removed \<subseteq> \<Union> (set ` set pats)" by blast
    have "s = (p @ removed) @ strip_front pats (drop (length p) s)"
      using p(2) r(1) by (metis append.assoc append_take_drop_id prefix_def append_eq_conv_conj)
    moreover have "strip_front pats s = strip_front pats (drop (length p) s)"
      using Some by (subst strip_front.simps) simp
    moreover have "set (p @ removed) \<subseteq> \<Union> (set ` set pats)" using p(1) r(2) by auto
    ultimately show ?thesis by metis
  qed
qed

definition space_chars :: "char set" where
  "space_chars = \<Union> (set ` set space_strings)"

lemma TrimSpace_split:
  obtains l r where "s = l @ strings_TrimSpace s @ r" and "set l \<subseteq> space_chars" and "set r \<subseteq> space_chars"
proof -
  obtain l where l: "s = l @ strip_front space_strings s" "set l \<subseteq> space_chars"
    using strip_front_suffix [of s space_strings] by (auto simp: space_chars_def)
  define m where "m = strip_front space_strings s"
  have "\<Union> (set ` set (map rev space_strings)) = space_chars" by (simp add: space_chars_def)
  then obtain r where r: "rev m = r @ strip_front (map rev space_strings) (rev m)" "set r \<subseteq> space_chars"
    using strip_front_suffix [of "rev m" "map rev space_strings"] by metis
  have "m = strings_TrimSpace s @ rev r"
    using arg_cong [OF r(1), of rev] by (simp add: strings_TrimSpace_def Let_def m_def)
  with l r(2) that [of l "rev r"] show thesis by (simp add: m_def)
qed

lemma strip_front_none:
  assumes "s = [] \<or> hd s \<notin> hd ` set pats"
  shows "strip_front pats s = s"
proof -
  have "find (\<lambda>p. p \<noteq> [] \<and> prefix p s) pats = None"
    using assms by (fastforce simp: find_None_iff prefix_def)
  then show ?thesis by (subst strip_front.simps) simp
qed

text \<open>Text that neither starts nor ends with a byte of a space is left alone.\<close>

lemma TrimSpace_id:
  assumes "s = [] \<or> hd s \<notin> space_chars \<and> last s \<notin> space_chars"
  shows "strings_TrimSpace s = s"
proof -
  have ne: "\<forall>p \<in> set space_strings. p \<noteq> []" by (simp add: space_strings_def)
  then have "hd ` set space_strings \<subseteq> space_chars" "hd ` set (map rev space_strings) \<subseteq> space_chars"
    by (auto simp: space_chars_def hd_rev)
  then have "s = [] \<or> hd s \<notin> hd ` set space_strings" "rev s = [] \<or> hd (rev s) \<notin> hd ` set (map rev space_strings)"
    using assms by (metis subsetD, metis hd_rev rev_is_Nil_conv subsetD)
  then have "strip_front space_strings s = s" "strip_front (map rev space_strings) (rev s) = rev s"
    by (simp_all only: strip_front_none)
  then show ?thesis by (simp add: strings_TrimSpace_def)
qed

text \<open>Membership in the set of space bytes is decided by evaluation.\<close>

lemma in_space_chars: "c \<in> space_chars \<longleftrightarrow> list_ex (\<lambda>p. list_ex (\<lambda>d. d = c) p) space_strings"
  by (auto simp: space_chars_def list_ex_iff)

lemmas eval_space = in_space_chars space_strings_def

end
