(* ===== verification/Darwin_Evidence.thy ===== *)
theory Darwin_Evidence
  imports Path_Classifier Go_Text
begin

unbundle bit_operations_syntax

text \<open>
  \<^verbatim>\<open>internal/platform/darwin\<close>: what macOS commands say about the network interfaces. Commands are run by
  an argument; their output is parsed into evidence, the evidence decides the kind of an interface, and the
  snapshots feed the classifier.
\<close>

section \<open>Evidence (\<^verbatim>\<open>observations.go\<close>, \<^verbatim>\<open>evidence.go\<close>)\<close>

datatype EvidenceSource =
  EvidenceSourceUnknown | EvidenceSourceBSDNetworkState | EvidenceSourceSystemConfiguration
| EvidenceSourceNetworkFramework | EvidenceSourceIORegistry

fun EvidenceSource_String :: "EvidenceSource \<Rightarrow> string" where
  "EvidenceSource_String EvidenceSourceBSDNetworkState = ''bsd-network-state''"
| "EvidenceSource_String EvidenceSourceSystemConfiguration = ''system-configuration''"
| "EvidenceSource_String EvidenceSourceNetworkFramework = ''network-framework''"
| "EvidenceSource_String EvidenceSourceIORegistry = ''io-registry''"
| "EvidenceSource_String EvidenceSourceUnknown = ''unknown''"

record Evidence =
  ev_Source :: EvidenceSource
  ev_Key :: string
  ev_Value :: string

record InterfaceSnapshot =
  snap_BSDName :: string
  snap_DisplayName :: string
  snap_Kind :: LinkKind
  snap_Up :: bool
  snap_Running :: bool
  snap_Loopback :: bool
  snap_HasIPv4 :: bool
  snap_Evidence :: "Evidence list"

definition EvidenceBySource :: "InterfaceSnapshot \<Rightarrow> EvidenceSource \<Rightarrow> Evidence list" where
  "EvidenceBySource snapshot source = filter (\<lambda>evidence. ev_Source evidence = source) (snap_Evidence snapshot)"

definition snapshot_Observation :: "InterfaceSnapshot \<Rightarrow> Observation" where
  "snapshot_Observation snapshot =
     \<lparr>obs_ID = snap_BSDName snapshot, obs_DisplayName = snap_DisplayName snapshot, obs_Kind = snap_Kind snapshot,
      obs_Up = snap_Up snapshot, obs_Running = snap_Running snapshot, obs_Loopback = snap_Loopback snapshot,
      obs_HasIPv4 = snap_HasIPv4 snapshot\<rparr>"

definition ObservationsFromSnapshots :: "InterfaceSnapshot list \<Rightarrow> Observation list" where
  "ObservationsFromSnapshots snapshots = map snapshot_Observation snapshots"

definition EvidenceKeyInterfaceType :: string where "EvidenceKeyInterfaceType = ''interface-type''"
definition EvidenceKeyUSBTransport :: string where "EvidenceKeyUSBTransport = ''usb-transport''"
definition EvidenceValueWiFi :: string where "EvidenceValueWiFi = ''wifi''"
definition EvidenceValueAndroidRNDIS :: string where "EvidenceValueAndroidRNDIS = ''android-rndis''"

definition normaliseEvidenceToken :: "unicode_tables \<Rightarrow> string \<Rightarrow> string" where
  "normaliseEvidenceToken uc value =
     encode_runes (filter (\<lambda>r. unicode_IsLetter uc r \<or> unicode_IsDigit uc r)
       (runes (strings_ToLower uc (strings_TrimSpace value))))"

definition matchesEvidenceToken :: "unicode_tables \<Rightarrow> string \<Rightarrow> string list \<Rightarrow> bool" where
  "matchesEvidenceToken uc value canonical =
     (let got = normaliseEvidenceToken uc value
      in list_ex (\<lambda>candidate. got = normaliseEvidenceToken uc candidate) canonical)"

definition isWiFiEvidenceValue :: "unicode_tables \<Rightarrow> string \<Rightarrow> bool" where
  "isWiFiEvidenceValue uc value = matchesEvidenceToken uc value [EvidenceValueWiFi, ''ieee80211'', ''airport'']"

definition isAndroidUSBTetherEvidenceValue :: "unicode_tables \<Rightarrow> string \<Rightarrow> bool" where
  "isAndroidUSBTetherEvidenceValue uc value =
     matchesEvidenceToken uc value [EvidenceValueAndroidRNDIS, ''android-usb-tether'', ''android-usb-tethering'']"

definition hasWiFiEvidence :: "unicode_tables \<Rightarrow> Evidence list \<Rightarrow> bool" where
  "hasWiFiEvidence uc evidence =
     list_ex (\<lambda>item. ev_Source item \<in> {EvidenceSourceNetworkFramework, EvidenceSourceSystemConfiguration} \<and>
        matchesEvidenceToken uc (ev_Key item) [EvidenceKeyInterfaceType] \<and> isWiFiEvidenceValue uc (ev_Value item)) evidence"

definition hasAndroidUSBTetherEvidence :: "unicode_tables \<Rightarrow> Evidence list \<Rightarrow> bool" where
  "hasAndroidUSBTetherEvidence uc evidence =
     list_ex (\<lambda>item. ev_Source item = EvidenceSourceIORegistry \<and>
        matchesEvidenceToken uc (ev_Key item) [EvidenceKeyUSBTransport, ''device-kind'', ''interface-association''] \<and>
        isAndroidUSBTetherEvidenceValue uc (ev_Value item)) evidence"

definition LinkKindFromEvidence :: "unicode_tables \<Rightarrow> Evidence list \<Rightarrow> LinkKind" where
  "LinkKindFromEvidence uc evidence =
     (let wifi = hasWiFiEvidence uc evidence; androidUSB = hasAndroidUSBTetherEvidence uc evidence
      in if wifi \<and> \<not> androidUSB then LinkKindWiFi
         else if androidUSB \<and> \<not> wifi then LinkKindAndroidUSBTether
         else LinkKindUnknown)"

section \<open>Collecting snapshots (\<^verbatim>\<open>collector.go\<close>)\<close>

text \<open>Errors of the system and of commands are named by a string; \<^verbatim>\<open>fmt.Errorf\<close> with \<^verbatim>\<open>%w\<close> wraps.\<close>

datatype darwin_error = ErrNilInterfaceSource | ErrSystem string | Wrapped string darwin_error

definition wrap_error :: "string \<Rightarrow> (darwin_error, 'a) result \<Rightarrow> (darwin_error, 'a) result" where
  "wrap_error msg r = (case r of Inl e \<Rightarrow> Inl (Wrapped msg e) | Inr v \<Rightarrow> Inr v)"

record InterfaceRecord =
  rec_BSDName :: string
  rec_DisplayName :: string
  rec_Flags :: u64
  rec_AddressCIDRs :: "string list"
  rec_Kind :: LinkKind
  rec_Evidence :: "Evidence list"

text \<open>
  An \<^verbatim>\<open>InterfaceSource\<close> is the answer of its only method \<^verbatim>\<open>Interfaces()\<close>; nil is \<^term>\<open>None\<close>. The
  answer of \<^verbatim>\<open>net.Interfaces\<close> lists name, flags and the answer of \<^verbatim>\<open>Addrs\<close>.
\<close>

type_synonym InterfaceSource = "(darwin_error, InterfaceRecord list) result option"
type_synonym net_Interface = "string \<times> u64 \<times> (darwin_error, string list) result"

fun net_records :: "net_Interface list \<Rightarrow> (darwin_error, InterfaceRecord list) result" where
  "net_records [] = Inr []"
| "net_records ((name, flags, addrs) # ifaces) =
     res_bind (wrap_error (''list addresses for interface '' @ name) addrs) (\<lambda>cidrs.
     res_bind (net_records ifaces) (\<lambda>records.
     Inr (\<lparr>rec_BSDName = name, rec_DisplayName = '''', rec_Flags = flags, rec_AddressCIDRs = cidrs,
           rec_Kind = LinkKindUnknown, rec_Evidence = []\<rparr> # records)))"

definition NetInterfaceSource_Interfaces ::
  "(darwin_error, net_Interface list) result \<Rightarrow> (darwin_error, InterfaceRecord list) result" where
  "NetInterfaceSource_Interfaces interfaces =
     res_bind (wrap_error ''list network interfaces'' interfaces) net_records"

definition FlagUp :: u64 where "FlagUp = 1"
definition FlagLoopback :: u64 where "FlagLoopback = 4"
definition FlagRunning :: u64 where "FlagRunning = 32"

text \<open>
  \<^verbatim>\<open>net.ParseCIDR\<close> and \<^verbatim>\<open>net.ParseIP\<close> are arguments (\<^term>\<open>None\<close> is an error, or nil); \<^verbatim>\<open>To4\<close> accepts
  four bytes and the IPv4-mapped form of sixteen.
\<close>

record ip_parsers =
  ParseCIDR :: "string \<Rightarrow> bytes option"
  ParseIP :: "string \<Rightarrow> bytes option"

definition To4 :: "bytes \<Rightarrow> bytes option" where
  "To4 ip = (if length ip = 4 then Some ip
             else if length ip = 16 \<and> take 10 ip = replicate 10 0 \<and> ip ! 10 = 0xFF \<and> ip ! 11 = 0xFF then Some (drop 12 ip)
             else None)"

definition hasIPv4CIDR :: "ip_parsers \<Rightarrow> string list \<Rightarrow> bool" where
  "hasIPv4CIDR net addressCIDRs =
     list_ex (\<lambda>cidr.
        let ip = (case ParseCIDR net cidr of None \<Rightarrow> ParseIP net cidr | Some ip \<Rightarrow> Some ip)
        in case ip of None \<Rightarrow> False | Some ip \<Rightarrow> To4 ip \<noteq> None) addressCIDRs"

definition boolEvidence :: "bool \<Rightarrow> string" where
  "boolEvidence value = (if value then ''present'' else ''absent'')"

definition networkStateEvidence :: "u64 \<Rightarrow> bool \<Rightarrow> Evidence list" where
  "networkStateEvidence flags hasIPv4 =
     [\<lparr>ev_Source = EvidenceSourceBSDNetworkState, ev_Key = ''flag-up'', ev_Value = boolEvidence (flags AND FlagUp \<noteq> 0)\<rparr>,
      \<lparr>ev_Source = EvidenceSourceBSDNetworkState, ev_Key = ''flag-running'', ev_Value = boolEvidence (flags AND FlagRunning \<noteq> 0)\<rparr>,
      \<lparr>ev_Source = EvidenceSourceBSDNetworkState, ev_Key = ''flag-loopback'', ev_Value = boolEvidence (flags AND FlagLoopback \<noteq> 0)\<rparr>,
      \<lparr>ev_Source = EvidenceSourceBSDNetworkState, ev_Key = ''ipv4'', ev_Value = boolEvidence hasIPv4\<rparr>]"

definition snapshotFromInterfaceRecord :: "unicode_tables \<Rightarrow> ip_parsers \<Rightarrow> InterfaceRecord \<Rightarrow> InterfaceSnapshot" where
  "snapshotFromInterfaceRecord uc net r =
     (let hasIPv4 = hasIPv4CIDR net (rec_AddressCIDRs r);
          kind = (if rec_Kind r = LinkKindUnknown then LinkKindFromEvidence uc (rec_Evidence r) else rec_Kind r)
      in \<lparr>snap_BSDName = rec_BSDName r, snap_DisplayName = rec_DisplayName r, snap_Kind = kind,
          snap_Up = (rec_Flags r AND FlagUp \<noteq> 0), snap_Running = (rec_Flags r AND FlagRunning \<noteq> 0),
          snap_Loopback = (rec_Flags r AND FlagLoopback \<noteq> 0), snap_HasIPv4 = hasIPv4,
          snap_Evidence = networkStateEvidence (rec_Flags r) hasIPv4 @ rec_Evidence r\<rparr>)"

definition CollectInterfaceSnapshots ::
  "unicode_tables \<Rightarrow> ip_parsers \<Rightarrow> InterfaceSource \<Rightarrow> (darwin_error, InterfaceSnapshot list) result" where
  "CollectInterfaceSnapshots uc net source =
     (case source of
        None \<Rightarrow> Inl ErrNilInterfaceSource
      | Some answer \<Rightarrow>
          res_bind (wrap_error ''collect darwin interface records'' answer) (\<lambda>records.
          Inr (map (snapshotFromInterfaceRecord uc net) records)))"

definition LiveInterfaceSnapshots ::
  "unicode_tables \<Rightarrow> ip_parsers \<Rightarrow> (darwin_error, net_Interface list) result \<Rightarrow> (darwin_error, InterfaceSnapshot list) result" where
  "LiveInterfaceSnapshots uc net interfaces =
     CollectInterfaceSnapshots uc net (Some (NetInterfaceSource_Interfaces interfaces))"

section \<open>Parsing command output (\<^verbatim>\<open>live_evidence.go\<close>, \<^verbatim>\<open>usb_functions.go\<close>)\<close>

record InterfaceEvidenceRecord =
  ier_BSDName :: string
  ier_Evidence :: "Evidence list"

definition isWiFiHardwarePort :: "unicode_tables \<Rightarrow> string \<Rightarrow> bool" where
  "isWiFiHardwarePort uc value = isWiFiEvidenceValue uc value"

text \<open>The closure \<^verbatim>\<open>flush\<close> on the variables it captures: records, hardware port, device name.\<close>

definition ports_flush ::
  "unicode_tables \<Rightarrow> InterfaceEvidenceRecord list \<times> string \<times> string \<Rightarrow> InterfaceEvidenceRecord list \<times> string \<times> string" where
  "ports_flush uc = (\<lambda>(records, hardwarePort, bsdName).
     (if bsdName \<noteq> '''' \<and> isWiFiHardwarePort uc hardwarePort
      then records @ [\<lparr>ier_BSDName = bsdName, ier_Evidence =
             [\<lparr>ev_Source = EvidenceSourceSystemConfiguration, ev_Key = EvidenceKeyInterfaceType, ev_Value = EvidenceValueWiFi\<rparr>]\<rparr>]
      else records, '''', ''''))"

definition ports_line ::
  "unicode_tables \<Rightarrow> InterfaceEvidenceRecord list \<times> string \<times> string \<Rightarrow> string \<Rightarrow> InterfaceEvidenceRecord list \<times> string \<times> string" where
  "ports_line uc st text =
     (let line = strings_TrimSpace text in
      if line = '''' then ports_flush uc st
      else case strings_CutPrefix line ''Hardware Port:'' of
        (value, True) \<Rightarrow> (case ports_flush uc st of (records, _, bsdName) \<Rightarrow> (records, strings_TrimSpace value, bsdName))
      | (_, False) \<Rightarrow>
          (case strings_CutPrefix line ''Device:'' of
             (value, True) \<Rightarrow> (case st of (records, hardwarePort, _) \<Rightarrow> (records, hardwarePort, strings_TrimSpace value))
           | (_, False) \<Rightarrow> st))"

definition parseNetworkSetupHardwarePorts :: "unicode_tables \<Rightarrow> string \<Rightarrow> InterfaceEvidenceRecord list" where
  "parseNetworkSetupHardwarePorts uc output =
     fst (ports_flush uc (foldl (ports_line uc) ([], '''', '''') (fst (bufio_lines output))))"

text \<open>The loop of \<^verbatim>\<open>splitIORegistryBlocks\<close> on the blocks so far and the current one.\<close>

definition block_line :: "string list \<times> string \<Rightarrow> string \<Rightarrow> string list \<times> string" where
  "block_line = (\<lambda>(blocks, current) line.
     let (blocks, current) = (if strings_Contains line ''+-o '' \<and> 0 < length current then (blocks @ [current], '''') else (blocks, current))
     in (blocks, current @ line @ [newline]))"

definition splitIORegistryBlocks :: "string \<Rightarrow> string list" where
  "splitIORegistryBlocks output =
     (case foldl block_line ([], '''') (strings_Split output newline) of
        (blocks, current) \<Rightarrow> if 0 < length current then blocks @ [current] else blocks)"

fun quoted_line :: "string \<Rightarrow> string list \<Rightarrow> string" where
  "quoted_line pre [] = ''''"
| "quoted_line pre (text # lines) =
     (let line = strings_TrimSpace text in
      if \<not> prefix pre line then quoted_line pre lines
      else case strings_Cut (drop (length pre) line) (CHR 0x22) of
        (before, _, True) \<Rightarrow> before
      | (_, _, False) \<Rightarrow> quoted_line pre lines)"

definition ioregQuotedProperty :: "string \<Rightarrow> string \<Rightarrow> string" where
  "ioregQuotedProperty block key =
     quoted_line ([CHR 0x22] @ key @ [CHR 0x22] @ '' = '' @ [CHR 0x22]) (strings_Split block newline)"

definition blockHasAndroidUSBTetherEvidence :: "unicode_tables \<Rightarrow> string \<Rightarrow> bool" where
  "blockHasAndroidUSBTetherEvidence uc block =
     (let normalised = normaliseEvidenceToken uc block
      in strings_Contains normalised ''android'' \<and>
         (strings_Contains normalised ''rndis'' \<or> strings_Contains normalised ''tether''))"

definition parseIORegistryEthernetInterfaces :: "unicode_tables \<Rightarrow> string \<Rightarrow> InterfaceEvidenceRecord list" where
  "parseIORegistryEthernetInterfaces uc output =
     concat (map (\<lambda>block.
       let bsdName = ioregQuotedProperty block ''BSD Name'' in
       if bsdName = '''' \<or> \<not> blockHasAndroidUSBTetherEvidence uc block then []
       else [\<lparr>ier_BSDName = bsdName, ier_Evidence =
              [\<lparr>ev_Source = EvidenceSourceIORegistry, ev_Key = EvidenceKeyUSBTransport, ev_Value = EvidenceValueAndroidRNDIS\<rparr>]\<rparr>])
       (splitIORegistryBlocks output))"

definition usbClassWirelessController :: int where "usbClassWirelessController = 224"
definition usbSubclassRNDIS :: int where "usbSubclassRNDIS = 1"
definition usbProtocolRNDIS :: int where "usbProtocolRNDIS = 3"

fun int_line :: "string \<Rightarrow> string list \<Rightarrow> int option" where
  "int_line pre [] = None"
| "int_line pre (text # lines) =
     (case strings_CutPrefix (strings_TrimSpace text) pre of
        (_, False) \<Rightarrow> int_line pre lines
      | (value, True) \<Rightarrow> strconv_Atoi (strings_TrimSpace value))"

definition ioregIntProperty :: "string \<Rightarrow> string \<Rightarrow> int option" where
  "ioregIntProperty block key =
     int_line ([CHR 0x22] @ key @ [CHR 0x22] @ '' = '') (strings_Split block newline)"

definition blockIsAndroidRNDISControl :: "string \<Rightarrow> bool" where
  "blockIsAndroidRNDISControl block \<longleftrightarrow>
     ioregIntProperty block ''bInterfaceClass'' = Some usbClassWirelessController \<and>
     ioregIntProperty block ''bInterfaceSubClass'' = Some usbSubclassRNDIS \<and>
     ioregIntProperty block ''bInterfaceProtocol'' = Some usbProtocolRNDIS"

record USBTetherFunction =
  fn_Transport :: string
  fn_HostDriverClaimed :: bool

definition parseUSBHostInterfaceFunctions :: "string \<Rightarrow> USBTetherFunction list" where
  "parseUSBHostInterfaceFunctions output =
     map (\<lambda>_. \<lparr>fn_Transport = EvidenceValueAndroidRNDIS, fn_HostDriverClaimed = False\<rparr>)
       (filter blockIsAndroidRNDISControl (splitIORegistryBlocks output))"

section \<open>Command sources\<close>

text \<open>A \<^verbatim>\<open>CommandRunner\<close>: command name and arguments to output or error. A nil runner means the system's.\<close>

type_synonym CommandRunner = "string \<Rightarrow> string list \<Rightarrow> (darwin_error, string) result"

definition runner_or :: "CommandRunner \<Rightarrow> CommandRunner option \<Rightarrow> CommandRunner" where
  "runner_or os runner = (case runner of None \<Rightarrow> os | Some r \<Rightarrow> r)"

definition SystemConfiguration_InterfaceEvidence ::
  "unicode_tables \<Rightarrow> CommandRunner \<Rightarrow> CommandRunner option \<Rightarrow> (darwin_error, InterfaceEvidenceRecord list) result" where
  "SystemConfiguration_InterfaceEvidence uc os runner =
     res_bind (wrap_error ''networksetup list hardware ports'' (runner_or os runner ''networksetup'' [''-listallhardwareports'']))
       (\<lambda>output. Inr (parseNetworkSetupHardwarePorts uc output))"

definition IORegistry_InterfaceEvidence ::
  "unicode_tables \<Rightarrow> CommandRunner \<Rightarrow> CommandRunner option \<Rightarrow> (darwin_error, InterfaceEvidenceRecord list) result" where
  "IORegistry_InterfaceEvidence uc os runner =
     res_bind (wrap_error ''ioreg ethernet interfaces'' (runner_or os runner ''ioreg'' [''-r'', ''-c'', ''IOEthernetInterface'', ''-l'']))
       (\<lambda>output. Inr (parseIORegistryEthernetInterfaces uc output))"

definition TetherFunctions ::
  "CommandRunner \<Rightarrow> CommandRunner option \<Rightarrow> (darwin_error, USBTetherFunction list) result" where
  "TetherFunctions os runner =
     res_bind (wrap_error ''ioreg usb host interfaces'' (runner_or os runner ''ioreg'' [''-r'', ''-c'', ''IOUSBHostInterface'', ''-l'']))
       (\<lambda>output. Inr (parseUSBHostInterfaceFunctions output))"

definition MacOSProductVersion :: "CommandRunner \<Rightarrow> CommandRunner option \<Rightarrow> (darwin_error, string) result" where
  "MacOSProductVersion os runner =
     res_bind (wrap_error ''sw_vers product version'' (runner_or os runner ''sw_vers'' [''-productVersion'']))
       (\<lambda>out. Inr (strings_TrimSpace out))"

text \<open>
  \<^verbatim>\<open>CombinedInterfaceSource\<close>: the state source and the evidence sources (nil is \<^term>\<open>None\<close>), each the answer
  of its only method. The map collects the evidence of all sources by interface name.
\<close>

type_synonym evidence_map = "string \<rightharpoonup> Evidence list"

definition evidence_at :: "evidence_map \<Rightarrow> string \<Rightarrow> Evidence list" where
  "evidence_at m name = (case m name of None \<Rightarrow> [] | Some es \<Rightarrow> es)"

definition add_evidence :: "evidence_map \<Rightarrow> InterfaceEvidenceRecord \<Rightarrow> evidence_map" where
  "add_evidence m r =
     (if ier_BSDName r = '''' then m
      else m(ier_BSDName r \<mapsto> evidence_at m (ier_BSDName r) @ ier_Evidence r))"

fun collect_evidence ::
  "(darwin_error, InterfaceEvidenceRecord list) result option list \<Rightarrow> evidence_map \<Rightarrow> (darwin_error, evidence_map) result" where
  "collect_evidence [] m = Inr m"
| "collect_evidence (None # sources) m = collect_evidence sources m"
| "collect_evidence (Some answer # sources) m =
     res_bind (wrap_error ''collect interface evidence'' answer) (\<lambda>records. collect_evidence sources (foldl add_evidence m records))"

definition Combined_Interfaces ::
  "InterfaceSource \<Rightarrow> (darwin_error, InterfaceEvidenceRecord list) result option list \<Rightarrow> (darwin_error, InterfaceRecord list) result" where
  "Combined_Interfaces state sources =
     (case state of
        None \<Rightarrow> Inl ErrNilInterfaceSource
      | Some answer \<Rightarrow>
          res_bind (wrap_error ''collect base interface state'' answer) (\<lambda>records.
          res_bind (collect_evidence sources Map.empty) (\<lambda>evidenceByBSDName.
          Inr (map (\<lambda>r. r\<lparr>rec_Evidence := rec_Evidence r @ evidence_at evidenceByBSDName (rec_BSDName r)\<rparr>) records))))"

definition LiveEvidenceInterfaceSnapshots ::
  "unicode_tables \<Rightarrow> ip_parsers \<Rightarrow> CommandRunner \<Rightarrow> (darwin_error, net_Interface list) result \<Rightarrow>
   (darwin_error, InterfaceSnapshot list) result" where
  "LiveEvidenceInterfaceSnapshots uc net os interfaces =
     CollectInterfaceSnapshots uc net (Some (Combined_Interfaces (Some (NetInterfaceSource_Interfaces interfaces))
       [Some (SystemConfiguration_InterfaceEvidence uc os (Some os)), Some (IORegistry_InterfaceEvidence uc os (Some os))]))"

definition LiveUSBTetherFunctions :: "CommandRunner \<Rightarrow> (darwin_error, USBTetherFunction list) result" where
  "LiveUSBTetherFunctions os = TetherFunctions os (Some os)"

definition LiveMacOSProductVersion :: "CommandRunner \<Rightarrow> (darwin_error, string) result" where
  "LiveMacOSProductVersion os = MacOSProductVersion os (Some os)"

section \<open>Tokens in ASCII\<close>

definition alnum :: "char \<Rightarrow> bool" where
  "alnum c \<longleftrightarrow> (let n = of_char c :: nat in 65 \<le> n \<and> n \<le> 90 \<or> 97 \<le> n \<and> n \<le> 122 \<or> 48 \<le> n \<and> n \<le> 57)"

definition lower :: "char \<Rightarrow> char" where
  "lower c = (let n = of_char c :: nat in if 65 \<le> n \<and> n \<le> 90 then char_of (n + 32) else c)"

lemma space_not_alnum: "c \<in> space_chars \<Longrightarrow> \<not> alnum c"
  by (auto simp: space_chars_def space_strings_def alnum_def)

lemma lower_of:
  assumes "of_char c < (128 :: nat)"
  shows "char_of (unicode_ToLower uc (of_char c)) = lower c"
    and "unicode_IsLetter uc (of_char (lower c)) \<or> unicode_IsDigit uc (of_char (lower c)) \<longleftrightarrow> alnum c"
  using assms by (auto simp: unicode_ToLower_def lower_def Let_def ascii_char_of unicode_IsLetter_def unicode_IsDigit_def alnum_def)

lemma normalise_ascii:
  assumes "ascii s"
  shows "normaliseEvidenceToken uc s = map lower (filter alnum s)"
proof -
  obtain l r where s: "s = l @ strings_TrimSpace s @ r" and lr: "set l \<subseteq> space_chars" "set r \<subseteq> space_chars"
    by (rule TrimSpace_split)
  define t where "t = strings_TrimSpace s"
  have t: "ascii t" using assms arg_cong [OF s, of ascii] by (simp add: t_def)
  then have lt: "\<forall>c \<in> set t. of_char c < (128 :: nat)" by (simp add: ascii_def list_all_iff)
  have low: "strings_ToLower uc t = map lower t" "ascii (map lower t)"
    using ToLower_ascii [OF t, of uc] lt by (simp_all add: lower_of(1) cong: map_cong)
  then have lt': "\<forall>c \<in> set t. of_char (lower c) < (128 :: nat)" by (simp add: ascii_def list_all_iff)
  have "filter (\<lambda>r. unicode_IsLetter uc r \<or> unicode_IsDigit uc r) (map of_char (map lower t)) =
      map of_char (map lower (filter alnum t))"
    using lt by (simp add: filter_map comp_def lower_of(2) cong: filter_cong)
  then have "normaliseEvidenceToken uc s = encode_runes (map of_char (map lower (filter alnum t)))"
    using low by (simp add: normaliseEvidenceToken_def runes_ascii flip: t_def)
  also have "\<dots> = map lower (filter alnum t)"
    using lt' by (subst encode_runes_ascii) (auto simp: comp_def char_of_char)
  also have "filter alnum t = filter alnum s"
    using lr space_not_alnum arg_cong [OF s, of "filter alnum"] by (auto simp: t_def subset_iff filter_empty_conv)
  finally show ?thesis .
qed

lemma matches_self: "c \<in> set canonical \<Longrightarrow> matchesEvidenceToken uc c canonical"
  by (auto simp: matchesEvidenceToken_def Let_def list_ex_iff)

section \<open>Both sides share one vocabulary\<close>

abbreviation wifi_record :: "string \<Rightarrow> InterfaceEvidenceRecord" where
  "wifi_record name \<equiv> \<lparr>ier_BSDName = name, ier_Evidence =
     [\<lparr>ev_Source = EvidenceSourceSystemConfiguration, ev_Key = EvidenceKeyInterfaceType, ev_Value = EvidenceValueWiFi\<rparr>]\<rparr>"

abbreviation android_record :: "string \<Rightarrow> InterfaceEvidenceRecord" where
  "android_record name \<equiv> \<lparr>ier_BSDName = name, ier_Evidence =
     [\<lparr>ev_Source = EvidenceSourceIORegistry, ev_Key = EvidenceKeyUSBTransport, ev_Value = EvidenceValueAndroidRNDIS\<rparr>]\<rparr>"

lemma evidence_append [simp]:
  "hasWiFiEvidence uc (es @ fs) \<longleftrightarrow> hasWiFiEvidence uc es \<or> hasWiFiEvidence uc fs"
  "hasAndroidUSBTetherEvidence uc (es @ fs) \<longleftrightarrow> hasAndroidUSBTetherEvidence uc es \<or> hasAndroidUSBTetherEvidence uc fs"
  "\<not> hasWiFiEvidence uc []" "\<not> hasAndroidUSBTetherEvidence uc []"
  by (simp_all add: hasWiFiEvidence_def hasAndroidUSBTetherEvidence_def)

lemma vocabulary [simp]:
  "hasWiFiEvidence uc (ier_Evidence (wifi_record n))" "\<not> hasAndroidUSBTetherEvidence uc (ier_Evidence (wifi_record n))"
  "hasAndroidUSBTetherEvidence uc (ier_Evidence (android_record n))" "\<not> hasWiFiEvidence uc (ier_Evidence (android_record n))"
  by (simp_all add: hasWiFiEvidence_def hasAndroidUSBTetherEvidence_def isWiFiEvidenceValue_def
      isAndroidUSBTetherEvidenceValue_def matches_self)

lemma ports_foldl_records:
  "list_all (\<lambda>r. \<exists>n. n \<noteq> '''' \<and> r = wifi_record n) (fst st) \<Longrightarrow>
   list_all (\<lambda>r. \<exists>n. n \<noteq> '''' \<and> r = wifi_record n) (fst (ports_flush uc (foldl (ports_line uc) st ls)))"
proof (induction ls arbitrary: st)
  case Nil
  then show ?case by (auto simp: ports_flush_def split: prod.splits)
next
  case (Cons l ls)
  have "list_all (\<lambda>r. \<exists>n. n \<noteq> '''' \<and> r = wifi_record n) (fst (ports_line uc st l))"
    using Cons.prems by (auto simp: ports_line_def ports_flush_def Let_def split: prod.splits bool.splits)
  with Cons.IH show ?case by simp
qed

lemma parsed_ports: "r \<in> set (parseNetworkSetupHardwarePorts uc output) \<Longrightarrow> ier_BSDName r \<noteq> '''' \<and> r = wifi_record (ier_BSDName r)"
  using ports_foldl_records [of "([], '''', '''')" uc "fst (bufio_lines output)"]
  by (auto simp: parseNetworkSetupHardwarePorts_def list_all_iff)

lemma parsed_ioreg: "r \<in> set (parseIORegistryEthernetInterfaces uc output) \<Longrightarrow> ier_BSDName r \<noteq> '''' \<and> r = android_record (ier_BSDName r)"
  by (auto simp: parseIORegistryEthernetInterfaces_def Let_def split: if_splits)

lemma add_evidence_at:
  "hasWiFiEvidence uc (evidence_at (foldl add_evidence m rs) n) \<longleftrightarrow>
     hasWiFiEvidence uc (evidence_at m n) \<or> (\<exists>r \<in> set rs. ier_BSDName r \<noteq> '''' \<and> ier_BSDName r = n \<and> hasWiFiEvidence uc (ier_Evidence r))"
  "hasAndroidUSBTetherEvidence uc (evidence_at (foldl add_evidence m rs) n) \<longleftrightarrow>
     hasAndroidUSBTetherEvidence uc (evidence_at m n) \<or>
     (\<exists>r \<in> set rs. ier_BSDName r \<noteq> '''' \<and> ier_BSDName r = n \<and> hasAndroidUSBTetherEvidence uc (ier_Evidence r))"
  by (induction rs arbitrary: m) (auto simp: add_evidence_def evidence_at_def)

text \<open>The names a command's output gives evidence for.\<close>

definition wifi_names :: "unicode_tables \<Rightarrow> string \<Rightarrow> string set" where
  "wifi_names uc output = ier_BSDName ` set (parseNetworkSetupHardwarePorts uc output)"

definition android_names :: "unicode_tables \<Rightarrow> string \<Rightarrow> string set" where
  "android_names uc output = ier_BSDName ` set (parseIORegistryEthernetInterfaces uc output)"

lemma collected_kind:
  fixes uc ports reg
  defines "m \<equiv> foldl add_evidence (foldl add_evidence Map.empty (parseNetworkSetupHardwarePorts uc ports))
                  (parseIORegistryEthernetInterfaces uc reg)"
  shows "LinkKindFromEvidence uc (evidence_at m n) =
     (if n \<in> wifi_names uc ports \<and> n \<notin> android_names uc reg then LinkKindWiFi
      else if n \<in> android_names uc reg \<and> n \<notin> wifi_names uc ports then LinkKindAndroidUSBTether
      else LinkKindUnknown)"
proof -
  have e: "\<not> hasWiFiEvidence uc (evidence_at Map.empty n)" "\<not> hasAndroidUSBTetherEvidence uc (evidence_at Map.empty n)"
    by (simp_all add: evidence_at_def)
  have p: "hasWiFiEvidence uc (ier_Evidence r) \<and> \<not> hasAndroidUSBTetherEvidence uc (ier_Evidence r) \<and> ier_BSDName r \<noteq> ''''"
    if "r \<in> set (parseNetworkSetupHardwarePorts uc ports)" for r
    using parsed_ports [OF that] vocabulary(1,2) by metis
  have i: "hasAndroidUSBTetherEvidence uc (ier_Evidence r) \<and> \<not> hasWiFiEvidence uc (ier_Evidence r) \<and> ier_BSDName r \<noteq> ''''"
    if "r \<in> set (parseIORegistryEthernetInterfaces uc reg)" for r
    using parsed_ioreg [OF that] vocabulary(3,4) by metis
  have "hasWiFiEvidence uc (evidence_at m n) \<longleftrightarrow> n \<in> wifi_names uc ports"
    unfolding m_def add_evidence_at(1) wifi_names_def using e(1) p i by auto
  moreover have "hasAndroidUSBTetherEvidence uc (evidence_at m n) \<longleftrightarrow> n \<in> android_names uc reg"
    unfolding m_def add_evidence_at(2) android_names_def using e(2) p i by auto
  ultimately show ?thesis by (simp add: LinkKindFromEvidence_def Let_def)
qed

lemma net_records_plain:
  "net_records ifaces = Inr records \<Longrightarrow> r \<in> set records \<Longrightarrow> rec_Kind r = LinkKindUnknown \<and> rec_Evidence r = []"
proof (induction ifaces arbitrary: records)
  case (Cons i ifaces)
  obtain name flags addrs where i: "i = (name, flags, addrs)" by (cases i)
  from Cons.prems(1) obtain cidrs rest where rest: "net_records ifaces = Inr rest"
    and records: "records = \<lparr>rec_BSDName = name, rec_DisplayName = '''', rec_Flags = flags, rec_AddressCIDRs = cidrs,
           rec_Kind = LinkKindUnknown, rec_Evidence = []\<rparr> # rest"
    unfolding i by (auto simp: result_iff)
  with Cons.prems(2) Cons.IH [OF rest] show ?case by auto
qed simp

lemma NetInterface_plain:
  assumes "NetInterfaceSource_Interfaces interfaces = Inr records" and "r \<in> set records"
  shows "rec_Kind r = LinkKindUnknown" and "rec_Evidence r = []"
  using assms net_records_plain
  by (auto simp: NetInterfaceSource_Interfaces_def result_iff wrap_error_def split: sum.splits)

text \<open>
  The live collection reports the interfaces of the system in their order, and gives an interface the
  kind Wi-Fi exactly when \<^verbatim>\<open>networksetup\<close> lists its name as a Wi-Fi port and \<^verbatim>\<open>ioreg\<close> shows no Android tether
  under that name, Android exactly in the opposite case, and unknown on missing or conflicting evidence. The
  parsers that produce evidence and the rules that read it therefore agree on every token.
\<close>

theorem live_kinds_exact:
  assumes "os ''networksetup'' [''-listallhardwareports''] = Inr ports"
    and "os ''ioreg'' [''-r'', ''-c'', ''IOEthernetInterface'', ''-l''] = Inr reg"
    and "NetInterfaceSource_Interfaces interfaces = Inr records"
  shows "\<exists>snapshots. LiveEvidenceInterfaceSnapshots uc net os interfaces = Inr snapshots \<and>
     map snap_BSDName snapshots = map rec_BSDName records \<and>
     map snap_Kind snapshots = map (\<lambda>r.
        if rec_BSDName r \<in> wifi_names uc ports \<and> rec_BSDName r \<notin> android_names uc reg then LinkKindWiFi
        else if rec_BSDName r \<in> android_names uc reg \<and> rec_BSDName r \<notin> wifi_names uc ports then LinkKindAndroidUSBTether
        else LinkKindUnknown) records"
proof -
  let ?m = "foldl add_evidence (foldl add_evidence Map.empty (parseNetworkSetupHardwarePorts uc ports))
              (parseIORegistryEthernetInterfaces uc reg)"
  let ?snap = "\<lambda>r. snapshotFromInterfaceRecord uc net
      (r\<lparr>rec_Evidence := rec_Evidence r @ evidence_at ?m (rec_BSDName r)\<rparr>)"
  have live: "LiveEvidenceInterfaceSnapshots uc net os interfaces = Inr (map ?snap records)"
    by (simp add: LiveEvidenceInterfaceSnapshots_def CollectInterfaceSnapshots_def Combined_Interfaces_def assms
        SystemConfiguration_InterfaceEvidence_def IORegistry_InterfaceEvidence_def runner_or_def wrap_error_def)
  have name: "snap_BSDName (?snap r) = rec_BSDName r" for r
    by (simp add: snapshotFromInterfaceRecord_def Let_def)
  have kind: "snap_Kind (?snap r) = LinkKindFromEvidence uc (evidence_at ?m (rec_BSDName r))" if "r \<in> set records" for r
    using NetInterface_plain [OF assms(3) that] by (simp add: snapshotFromInterfaceRecord_def Let_def)
  show ?thesis unfolding live using name kind by (simp add: collected_kind cong: map_cong)
qed

section \<open>Blocks of the registry dump\<close>

abbreviation node_line :: "string \<Rightarrow> bool" where
  "node_line l \<equiv> strings_Contains l ''+-o ''"

fun group_lines :: "string list \<Rightarrow> string list \<Rightarrow> string list list" where
  "group_lines cur [] = (if cur = [] then [] else [cur])"
| "group_lines cur (l # ls) = (if node_line l \<and> cur \<noteq> [] then cur # group_lines [l] ls else group_lines (cur @ [l]) ls)"

lemma blocks_group:
  "(case foldl block_line (blocks, unlines cur) ls of (bs, c) \<Rightarrow> if 0 < length c then bs @ [c] else bs) =
     blocks @ map unlines (group_lines cur ls)"
proof (induction ls arbitrary: blocks cur)
  case (Cons l ls)
  have "block_line (blocks, unlines cur) l =
      (if node_line l \<and> cur \<noteq> [] then (blocks @ [unlines cur], unlines [l]) else (blocks, unlines (cur @ [l])))"
    by (simp add: block_line_def)
  then show ?case
    using Cons.IH [of "blocks @ [unlines cur]" "[l]"] Cons.IH [of blocks "cur @ [l]"] by (simp del: unlines_simps)
qed simp

lemma group_lines_ok:
  assumes "\<not> list_ex node_line (tl cur)"
  shows "concat (group_lines cur ls) = cur @ ls"
    and "list_all (\<lambda>g. g \<noteq> [] \<and> \<not> list_ex node_line (tl g)) (group_lines cur ls)"
    and "cur \<noteq> [] \<Longrightarrow> \<exists>g gs. group_lines cur ls = (cur @ g) # gs \<and> list_all (\<lambda>g. node_line (hd g)) gs"
    and "list_all (\<lambda>g. node_line (hd g)) (tl (group_lines cur ls))"
proof -
  show "concat (group_lines cur ls) = cur @ ls" by (induction cur ls rule: group_lines.induct) auto
  show "list_all (\<lambda>g. g \<noteq> [] \<and> \<not> list_ex node_line (tl g)) (group_lines cur ls)"
    using assms
  proof (induction cur ls rule: group_lines.induct)
    case (2 cur l ls)
    then show ?case by (cases cur) auto
  qed simp
  have hd: "\<exists>g gs. group_lines cur ls = (cur @ g) # gs \<and> list_all (\<lambda>g. node_line (hd g)) gs" if "cur \<noteq> []" for cur ls
    using that
  proof (induction cur ls rule: group_lines.induct)
    case (2 cur l ls)
    show ?case
    proof (cases "node_line l")
      case True
      with 2 obtain g gs where "group_lines [l] ls = ([l] @ g) # gs" "list_all (\<lambda>g. node_line (hd g)) gs" by auto
      with True 2 show ?thesis by simp
    next
      case False
      with 2 obtain g gs where "group_lines (cur @ [l]) ls = ((cur @ [l]) @ g) # gs" "list_all (\<lambda>g. node_line (hd g)) gs" by auto
      with False show ?thesis by simp
    qed
  qed simp
  then show "cur \<noteq> [] \<Longrightarrow> \<exists>g gs. group_lines cur ls = (cur @ g) # gs \<and> list_all (\<lambda>g. node_line (hd g)) gs" .
  show "list_all (\<lambda>g. node_line (hd g)) (tl (group_lines cur ls))"
  proof (cases "cur = []")
    case True
    then show ?thesis using hd [of "[hd ls]" "tl ls"] by (cases ls) auto
  next
    case False
    then show ?thesis using hd [of cur ls] by auto
  qed
qed

lemma unlines_concat: "concat (map unlines groups) = unlines (concat groups)"
  by (induction groups) simp_all

text \<open>
  Splitting a registry dump loses nothing, whatever the length of its lines: the blocks are the dump's
  lines, each ended by a line feed, in order. A new block starts at every line that introduces a node and
  nowhere else.
\<close>

theorem blocks_exact:
  "\<exists>groups. splitIORegistryBlocks output = map unlines groups \<and> concat groups = strings_Split output newline \<and>
     concat (splitIORegistryBlocks output) = output @ [newline] \<and>
     list_all (\<lambda>g. g \<noteq> [] \<and> \<not> list_ex node_line (tl g)) groups \<and> list_all (\<lambda>g. node_line (hd g)) (tl groups)"
proof -
  let ?groups = "group_lines [] (strings_Split output newline)"
  have "splitIORegistryBlocks output = map unlines ?groups"
    using blocks_group [of "[]" "[]" "strings_Split output newline"] by (simp add: splitIORegistryBlocks_def)
  moreover note g = group_lines_ok [of "[]" "strings_Split output newline"]
  moreover have "concat (map unlines ?groups) = output @ [newline]" using g(1) by (simp add: unlines_concat unlines_Split)
  ultimately show ?thesis by (intro exI [of _ ?groups]) simp
qed

section \<open>The list of hardware ports\<close>

text \<open>A port as \<^verbatim>\<open>networksetup -listallhardwareports\<close> prints it.\<close>

record hw_port =
  hw_Port :: string
  hw_Device :: string
  hw_Address :: string

definition port_lines :: "hw_port \<Rightarrow> string list" where
  "port_lines p = ['''', ''Hardware Port: '' @ hw_Port p, ''Device: '' @ hw_Device p, ''Ethernet Address: '' @ hw_Address p]"

text \<open>A field that fits on a line and has no space at its ends.\<close>

definition field_ok :: "string \<Rightarrow> bool" where
  "field_ok s \<longleftrightarrow> s \<noteq> '''' \<and> newline \<notin> set s \<and> CHR 0x0D \<notin> set s \<and> length s < 60000 \<and>
     hd s \<notin> space_chars \<and> last s \<notin> space_chars"

definition port_ok :: "hw_port \<Rightarrow> bool" where
  "port_ok p \<longleftrightarrow> field_ok (hw_Port p) \<and> field_ok (hw_Device p) \<and> field_ok (hw_Address p)"

lemma TrimSpace_field: "field_ok s \<Longrightarrow> strings_TrimSpace s = s"
  by (simp add: field_ok_def TrimSpace_id)

lemma TrimSpace_leading:
  assumes "field_ok s"
  shows "strings_TrimSpace (CHR '' '' # s) = s"
proof -
  have "find (\<lambda>p. p \<noteq> [] \<and> prefix p (CHR '' '' # s)) space_strings = Some [CHR '' '']"
    by (simp add: space_strings_def)
  then have "strip_front space_strings (CHR '' '' # s) = strip_front space_strings s"
    by (subst strip_front.simps) simp
  moreover have "hd s \<notin> hd ` set space_strings"
    using assms by (auto simp: field_ok_def space_chars_def space_strings_def)
  then have "strip_front space_strings s = s" by (simp add: strip_front_none)
  ultimately have "strings_TrimSpace (CHR '' '' # s) = strings_TrimSpace s" by (simp add: strings_TrimSpace_def)
  with TrimSpace_field [OF assms] show ?thesis by simp
qed

lemma TrimSpace_prefixed:
  assumes "field_ok s" and "w \<noteq> ''''" and "hd w \<notin> space_chars"
  shows "strings_TrimSpace (w @ s) = w @ s"
  using assms by (intro TrimSpace_id) (auto simp: field_ok_def)

lemma ports_line_port:
  assumes "port_ok p"
  shows "foldl (ports_line uc) st (port_lines p) = (fst (ports_flush uc st), hw_Port p, hw_Device p)"
proof -
  have f: "field_ok (hw_Port p)" "field_ok (hw_Device p)" "field_ok (hw_Address p)"
    using assms by (simp_all add: port_ok_def)
  have trim: "strings_TrimSpace [] = []" by (simp add: TrimSpace_id)
  have t: "strings_TrimSpace (''Hardware Port: '' @ hw_Port p) = ''Hardware Port:'' @ CHR '' '' # hw_Port p"
    "strings_TrimSpace (''Device: '' @ hw_Device p) = ''Device:'' @ CHR '' '' # hw_Device p"
    "strings_TrimSpace (''Ethernet Address: '' @ hw_Address p) = ''Ethernet Address: '' @ hw_Address p"
    using f by (simp_all add: TrimSpace_prefixed eval_space del: append_Cons)
  have 1: "ports_line uc st '''' = (fst (ports_flush uc st), '''', '''')"
    by (simp add: ports_line_def trim ports_flush_def split_beta)
  have 2: "ports_line uc (rs, '''', '''') (''Hardware Port: '' @ hw_Port p) = (rs, hw_Port p, '''')" for rs
    unfolding ports_line_def Let_def t(1) by (simp add: strings_CutPrefix_def ports_flush_def TrimSpace_leading f)
  have 3: "ports_line uc (rs, hp, '''') (''Device: '' @ hw_Device p) = (rs, hp, hw_Device p)" for rs hp
    unfolding ports_line_def Let_def t(2) by (simp add: strings_CutPrefix_def TrimSpace_leading f)
  have 4: "ports_line uc st (''Ethernet Address: '' @ hw_Address p) = st" for st
    unfolding ports_line_def Let_def t(3) by (simp add: strings_CutPrefix_def)
  show ?thesis by (simp only: port_lines_def foldl.simps 1 2 3 4)
qed

lemma ports_foldl:
  "\<forall>p \<in> set ps. port_ok p \<Longrightarrow> fst (ports_flush uc (foldl (ports_line uc) st (concat (map port_lines ps)))) =
     fst (ports_flush uc st) @ map (\<lambda>p. wifi_record (hw_Device p)) (filter (\<lambda>p. isWiFiHardwarePort uc (hw_Port p)) ps)"
proof (induction ps arbitrary: st)
  case (Cons p ps)
  then have "port_ok p" by simp
  moreover from this have "hw_Device p \<noteq> ''''" by (simp add: port_ok_def field_ok_def)
  ultimately show ?case using Cons by (simp add: ports_line_port ports_flush_def)
qed simp

lemma parse_port_lines:
  assumes "\<forall>p \<in> set ps. port_ok p"
  shows "parseNetworkSetupHardwarePorts uc (unlines (concat (map port_lines ps))) =
     map (\<lambda>p. wifi_record (hw_Device p)) (filter (\<lambda>p. isWiFiHardwarePort uc (hw_Port p)) ps)"
proof -
  have "newline \<notin> set l \<and> CHR 0x0D \<notin> set l \<and> length l < MaxScanTokenSize"
    if "l \<in> set (concat (map port_lines ps))" for l
  proof -
    from that assms obtain p where "port_ok p" "l \<in> set (port_lines p)" by auto
    then show ?thesis by (auto simp: port_lines_def port_ok_def field_ok_def MaxScanTokenSize_def)
  qed
  then have "bufio_lines (unlines (concat (map port_lines ps))) = (concat (map port_lines ps), False)"
    by (rule bufio_lines_unlines)
  then show ?thesis
    using ports_foldl [OF assms, of uc "([], '''', '''')"]
    by (simp add: parseNetworkSetupHardwarePorts_def ports_flush_def)
qed

definition demo_ports :: "hw_port list" where
  "demo_ports = [\<lparr>hw_Port = ''Ethernet'', hw_Device = ''en1'', hw_Address = ''N/A''\<rparr>,
                 \<lparr>hw_Port = ''Wi-Fi'', hw_Device = ''en0'', hw_Address = ''N/A''\<rparr>]"

lemma demo_ports_ok: "\<forall>p \<in> set demo_ports. port_ok p"
  by (simp add: demo_ports_def port_ok_def field_ok_def eval_space)

lemma wifi_port_names: "isWiFiHardwarePort uc ''Wi-Fi''" "isWiFiHardwarePort uc ''AirPort''" "\<not> isWiFiHardwarePort uc ''Ethernet''"
  by (simp_all add: isWiFiHardwarePort_def isWiFiEvidenceValue_def matchesEvidenceToken_def EvidenceValueWiFi_def normalise_ascii
      alnum_def lower_def char_of_def bit_iff_odd)

definition demo_tables :: unicode_tables where
  "demo_tables = \<lparr>tab_letter = \<lambda>_. False, tab_digit = \<lambda>_. False, tab_lower = \<lambda>r. r\<rparr>"

text \<open>
  Reading back the printed list of hardware ports yields the Wi-Fi ports, each with its device name and
  Wi-Fi evidence, in order, and nothing for any other port.
\<close>

theorem hardware_ports_roundtrip:
  assumes "\<forall>p \<in> set ps. port_ok p"
  shows "parseNetworkSetupHardwarePorts uc (unlines (concat (map port_lines ps))) =
     map (\<lambda>p. wifi_record (hw_Device p)) (filter (\<lambda>p. isWiFiHardwarePort uc (hw_Port p)) ps)"
  by (rule parse_port_lines [OF assms])

definition demo_lines :: "string list" where
  "demo_lines = [''+-o en7'', ''Android RNDIS'', [CHR 0x22] @ ''BSD Name'' @ [CHR 0x22] @ '' = '' @ [CHR 0x22] @ ''en7'' @ [CHR 0x22]]"

lemma demo_lines_Split: "strings_Split (unlines demo_lines) newline = demo_lines @ ['''']"
  "strings_Split (unlines (demo_lines @ [''''])) newline = demo_lines @ ['''', '''']"
  using Split_unlines [of demo_lines] Split_unlines [of "demo_lines @ ['''']"] by (auto simp: demo_lines_def)

lemma demo_blocks: "splitIORegistryBlocks (unlines demo_lines) = [unlines (demo_lines @ [''''])]"
  using blocks_group [of "[]" "[]" "demo_lines @ ['''']"]
  by (simp add: splitIORegistryBlocks_def demo_lines_Split) (simp add: demo_lines_def)

lemma demo_name: "ioregQuotedProperty (unlines (demo_lines @ [''''])) ''BSD Name'' = ''en7''"
proof -
  have "strings_TrimSpace l = l" if "l \<in> set (demo_lines @ ['''', ''''])" for l
    using that by (intro TrimSpace_id) (auto simp: demo_lines_def eval_space)
  then show ?thesis
    unfolding ioregQuotedProperty_def demo_lines_Split(2) by (simp add: demo_lines_def Let_def)
qed

lemma demo_evidence: "blockHasAndroidUSBTetherEvidence uc (unlines (demo_lines @ ['''']))"
proof -
  have "normaliseEvidenceToken uc (unlines (demo_lines @ [''''])) = ''oen7androidrndisbsdnameen7''"
    by (subst normalise_ascii) (simp_all add: demo_lines_def alnum_def lower_def char_of_def bit_iff_odd)
  then show ?thesis by (simp add: blockHasAndroidUSBTetherEvidence_def Let_def)
qed

lemma demo_android_names: "android_names uc (unlines demo_lines) = {''en7''}"
  by (simp add: android_names_def parseIORegistryEthernetInterfaces_def demo_blocks demo_name demo_evidence del: unlines_simps)

lemma demo_wifi_names: "wifi_names uc (unlines (concat (map port_lines demo_ports))) = {''en0''}"
  unfolding wifi_names_def parse_port_lines [OF demo_ports_ok] by (simp add: demo_ports_def wifi_port_names)

definition demo_os :: CommandRunner where
  "demo_os name args =
     (if name = ''networksetup'' then Inr (unlines (concat (map port_lines demo_ports)))
      else if name = ''ioreg'' then Inr (unlines demo_lines)
      else Inl (ErrSystem name))"

definition demo_net :: ip_parsers where
  "demo_net = \<lparr>ParseCIDR = (\<lambda>s. if s = ''192.0.2.7/24'' then Some [192, 0, 2, 7] else None), ParseIP = Map.empty\<rparr>"

definition demo_interfaces :: "net_Interface list" where
  "demo_interfaces = [(''en0'', 33, Inr [''192.0.2.7/24'']), (''en7'', 33, Inr [''192.0.2.7/24'']), (''lo0'', 37, Inr [])]"

end
