(* ===== verification/Diagnostics.thy ===== *)
theory Diagnostics
  imports Darwin_Evidence
begin

text \<open>
  \<^verbatim>\<open>internal/diagnostics\<close>: the compatibility verdict a user sees before installing and the evidence report of
  the Stage-1 probe, both pure functions of the collected snapshots and USB functions.
\<close>

section \<open>The verdict (\<^verbatim>\<open>compatibility.go\<close>)\<close>

definition CompatibilityReportType :: string where "CompatibilityReportType = ''stage-1-compatibility''"
definition minMacOSMajor :: int where "minMacOSMajor = 11"

datatype CompatibilityVerdict =
  VerdictSupported | VerdictNeedsAndroid | VerdictNeedsWiFi | VerdictNeedsBoth | VerdictUnsupportedMacOS

fun verdict_string :: "CompatibilityVerdict \<Rightarrow> string" where
  "verdict_string VerdictSupported = ''supported''"
| "verdict_string VerdictNeedsAndroid = ''needs-android''"
| "verdict_string VerdictNeedsWiFi = ''needs-wifi''"
| "verdict_string VerdictNeedsBoth = ''needs-both''"
| "verdict_string VerdictUnsupportedMacOS = ''unsupported-macos''"

definition TetherModeNone :: string where "TetherModeNone = ''none''"
definition TetherModeNativeNCM :: string where "TetherModeNativeNCM = ''native-ncm''"
definition TetherModeAppDriverRNDIS :: string where "TetherModeAppDriverRNDIS = ''app-driver-rndis''"

record AndroidTetherSupport =
  ats_Present :: bool
  ats_Usable :: bool
  ats_Mode :: string

record CompatibilityReport =
  cr_Type :: string
  cr_Verdict :: CompatibilityVerdict
  cr_Ready :: bool
  cr_MacOSVersion :: string
  cr_MacOSSupported :: bool
  cr_WiFi :: bool
  cr_AndroidTether :: AndroidTetherSupport
  cr_NextStep :: string

definition Summary :: "CompatibilityReport \<Rightarrow> string" where
  "Summary r = verdict_string (cr_Verdict r) @ '': '' @ cr_NextStep r"

text \<open>The em dash of the source is the three bytes of its UTF-8 encoding.\<close>

definition em_dash :: string where "em_dash = [CHR 0xE2, CHR 0x80, CHR 0x94]"

definition ShareReport :: "CompatibilityReport \<Rightarrow> string" where
  "ShareReport r = joined newline
     [''Gemina VPN compatibility report (redacted '' @ em_dash @ '' safe to share)'',
      ''  verdict:        '' @ verdict_string (cr_Verdict r),
      ''  macOS:          '' @ cr_MacOSVersion r,
      ''  android tether: '' @ ats_Mode (cr_AndroidTether r),
      ''  --- you fill these in when submitting to the catalogue ---'',
      ''  phone model:    (e.g. OnePlus 12R, Pixel 8 '' @ em_dash @ '' your call what to share)'',
      ''  notes:          '']"

definition androidTetherSupport :: "Classification \<Rightarrow> USBTetherFunction list \<Rightarrow> AndroidTetherSupport" where
  "androidTetherSupport classification deviceFunctions =
     (if Candidate_for classification RoleAndroidUSBTether \<noteq> None
      then \<lparr>ats_Present = True, ats_Usable = True, ats_Mode = TetherModeNativeNCM\<rparr>
      else if list_ex (\<lambda>fn. fn_Transport fn = EvidenceValueAndroidRNDIS) deviceFunctions
      then \<lparr>ats_Present = True, ats_Usable = False, ats_Mode = TetherModeAppDriverRNDIS\<rparr>
      else \<lparr>ats_Present = False, ats_Usable = False, ats_Mode = TetherModeNone\<rparr>)"

definition decideVerdict :: "bool \<Rightarrow> bool \<Rightarrow> bool \<Rightarrow> CompatibilityVerdict" where
  "decideVerdict macOSSupported wifi androidPresent =
     (if \<not> macOSSupported then VerdictUnsupportedMacOS
      else if wifi \<and> androidPresent then VerdictSupported
      else if wifi \<and> \<not> androidPresent then VerdictNeedsAndroid
      else if \<not> wifi \<and> androidPresent then VerdictNeedsWiFi
      else VerdictNeedsBoth)"

fun nextStep :: "CompatibilityVerdict \<Rightarrow> int \<Rightarrow> bool \<Rightarrow> string" where
  "nextStep VerdictSupported _ _ = ''You'' @ [CHR 0x27] @ ''re good to go: Wi-Fi and an Android tether are both available.''"
| "nextStep VerdictNeedsAndroid _ _ = ''Connect your Android phone by USB and turn on USB tethering.''"
| "nextStep VerdictNeedsWiFi _ _ = ''Join a Wi-Fi network so there is a second path to bond with.''"
| "nextStep VerdictNeedsBoth _ _ = ''Connect to Wi-Fi and plug in your Android phone with USB tethering on.''"
| "nextStep VerdictUnsupportedMacOS macOSMajor macOSOK =
     (if \<not> macOSOK then ''Could not determine your macOS version; this product needs macOS 11 (Big Sur) or later.''
      else ''Update macOS to 11 (Big Sur) or later to use this product.'')"

definition parseMacOSMajor :: "string \<Rightarrow> int \<times> bool" where
  "parseMacOSMajor v =
     (let version = strings_TrimSpace v in
      if version = '''' then (0, False)
      else case strings_Cut version (CHR ''.'') of
        (major, _, _) \<Rightarrow> (case strconv_Atoi major of None \<Rightarrow> (0, False) | Some n \<Rightarrow> (n, True)))"

definition BuildCompatibilityReport ::
  "InterfaceSnapshot list \<Rightarrow> USBTetherFunction list \<Rightarrow> string \<Rightarrow> CompatibilityReport" where
  "BuildCompatibilityReport snapshots deviceFunctions macOSVersion =
     (let classification = Classify (ObservationsFromSnapshots snapshots);
          wifi = (Candidate_for classification RoleWiFi \<noteq> None);
          tether = androidTetherSupport classification deviceFunctions;
          (macOSMajor, macOSOK) = parseMacOSMajor macOSVersion;
          macOSSupported = (macOSOK \<and> minMacOSMajor \<le> macOSMajor);
          verdict = decideVerdict macOSSupported wifi (ats_Present tether)
      in \<lparr>cr_Type = CompatibilityReportType, cr_Verdict = verdict, cr_Ready = (verdict = VerdictSupported),
          cr_MacOSVersion = macOSVersion, cr_MacOSSupported = macOSSupported, cr_WiFi = wifi,
          cr_AndroidTether = tether, cr_NextStep = nextStep verdict macOSMajor macOSOK\<rparr>)"

section \<open>The evidence report (\<^verbatim>\<open>darwin_evidence.go\<close>)\<close>

definition DarwinEvidenceReportType :: string where "DarwinEvidenceReportType = ''stage-1-darwin-evidence''"
definition IssueCodeTetherPresentNotUsable :: string where "IssueCodeTetherPresentNotUsable = ''tether-present-not-usable''"

record DiagnosticDeviceFunction =
  ddf_Transport :: string
  ddf_HostDriverClaimed :: bool
  ddf_Usable :: bool

record DiagnosticEvidence =
  de_Source :: string
  de_Key :: string
  de_Value :: string

record DiagnosticInterface =
  di_BSDName :: string
  di_Kind :: string
  di_Usable :: bool
  di_Up :: bool
  di_Running :: bool
  di_Loopback :: bool
  di_HasIPv4 :: bool
  di_Evidence :: "DiagnosticEvidence list"

record DiagnosticCandidate =
  dc_Role :: string
  dc_BSDName :: string
  dc_Kind :: string

record DiagnosticIssue =
  dis_Code :: string
  dis_Role :: string
  dis_Count :: int

record DarwinEvidenceReport =
  der_Type :: string
  der_Stage :: string
  der_Claim :: string
  der_ClassificationStatus :: string
  der_Complete :: bool
  der_Interfaces :: "DiagnosticInterface list"
  der_Candidates :: "DiagnosticCandidate list"
  der_DeviceFunctions :: "DiagnosticDeviceFunction list"
  der_Issues :: "DiagnosticIssue list"

definition diagnosticDeviceFunctions :: "USBTetherFunction list \<Rightarrow> DiagnosticDeviceFunction list" where
  "diagnosticDeviceFunctions = map (\<lambda>fn. \<lparr>ddf_Transport = fn_Transport fn, ddf_HostDriverClaimed = fn_HostDriverClaimed fn,
     ddf_Usable = fn_HostDriverClaimed fn\<rparr>)"

definition roleForTransport :: "string \<Rightarrow> PathRole option" where
  "roleForTransport transport = (if transport = EvidenceValueAndroidRNDIS then Some RoleAndroidUSBTether else None)"

definition deviceFunctionIssues :: "Classification \<Rightarrow> USBTetherFunction list \<Rightarrow> DiagnosticIssue list" where
  "deviceFunctionIssues classification functions =
     concat (map (\<lambda>fn.
       if fn_HostDriverClaimed fn then []
       else case roleForTransport (fn_Transport fn) of
         None \<Rightarrow> []
       | Some role \<Rightarrow>
           if Candidate_for classification role \<noteq> None then []
           else [\<lparr>dis_Code = IssueCodeTetherPresentNotUsable, dis_Role = PathRole_String role, dis_Count = 0\<rparr>]) functions)"

definition diagnosticEvidence :: "Evidence list \<Rightarrow> DiagnosticEvidence list" where
  "diagnosticEvidence = map (\<lambda>item. \<lparr>de_Source = EvidenceSource_String (ev_Source item), de_Key = ev_Key item, de_Value = ev_Value item\<rparr>)"

definition diagnosticInterfaces :: "InterfaceSnapshot list \<Rightarrow> DiagnosticInterface list" where
  "diagnosticInterfaces = map (\<lambda>snapshot.
     \<lparr>di_BSDName = snap_BSDName snapshot, di_Kind = LinkKind_String (snap_Kind snapshot),
      di_Usable = Usable (snapshot_Observation snapshot), di_Up = snap_Up snapshot, di_Running = snap_Running snapshot,
      di_Loopback = snap_Loopback snapshot, di_HasIPv4 = snap_HasIPv4 snapshot,
      di_Evidence = diagnosticEvidence (snap_Evidence snapshot)\<rparr>)"

definition diagnosticCandidates :: "Candidate list \<Rightarrow> DiagnosticCandidate list" where
  "diagnosticCandidates = map (\<lambda>candidate.
     \<lparr>dc_Role = PathRole_String (cand_Role candidate), dc_BSDName = obs_ID (cand_Observation candidate),
      dc_Kind = LinkKind_String (obs_Kind (cand_Observation candidate))\<rparr>)"

definition diagnosticIssues :: "Issue list \<Rightarrow> DiagnosticIssue list" where
  "diagnosticIssues = map (\<lambda>issue. \<lparr>dis_Code = IssueCode_String (issue_Code issue), dis_Role = PathRole_String (issue_Role issue),
     dis_Count = issue_Count issue\<rparr>)"

definition BuildDarwinEvidenceReport :: "InterfaceSnapshot list \<Rightarrow> USBTetherFunction list \<Rightarrow> DarwinEvidenceReport" where
  "BuildDarwinEvidenceReport snapshots deviceFunctions =
     (let observations = ObservationsFromSnapshots snapshots;
          classification = Classify observations;
          complete = Complete classification;
          status = (if complete then ''complete'' else ''incomplete'');
          issues = diagnosticIssues (Issues classification) @ deviceFunctionIssues classification deviceFunctions
      in \<lparr>der_Type = DarwinEvidenceReportType, der_Stage = ''stage-1-probe'', der_Claim = ''diagnostic-only-not-path-success'',
          der_ClassificationStatus = status, der_Complete = complete, der_Interfaces = diagnosticInterfaces snapshots,
          der_Candidates = diagnosticCandidates (Candidates classification),
          der_DeviceFunctions = diagnosticDeviceFunctions deviceFunctions, der_Issues = issues\<rparr>)"

section \<open>The commands (\<^verbatim>\<open>cmd/geminactl/preflight.go\<close>, \<^verbatim>\<open>main.go\<close>)\<close>

text \<open>The JSON encoder is an argument.\<close>

definition writePreflight :: "(CompatibilityReport \<Rightarrow> string) \<Rightarrow> CompatibilityReport \<Rightarrow> bool \<Rightarrow> bool \<Rightarrow> string" where
  "writePreflight json report asJSON share =
     (if asJSON then json report
      else if share then ShareReport report @ [newline]
      else Summary report @ [newline])"

definition runPreflight ::
  "unicode_tables \<Rightarrow> ip_parsers \<Rightarrow> CommandRunner \<Rightarrow> (darwin_error, net_Interface list) result \<Rightarrow> (CompatibilityReport \<Rightarrow> string) \<Rightarrow>
   bool \<Rightarrow> bool \<Rightarrow> (darwin_error, string) result" where
  "runPreflight uc net os interfaces json asJSON share =
     res_bind (LiveEvidenceInterfaceSnapshots uc net os interfaces) (\<lambda>snapshots.
     res_bind (LiveUSBTetherFunctions os) (\<lambda>deviceFunctions.
     res_bind (LiveMacOSProductVersion os) (\<lambda>version.
       Inr (writePreflight json (BuildCompatibilityReport snapshots deviceFunctions version) asJSON share))))"

definition runDarwinEvidence ::
  "unicode_tables \<Rightarrow> ip_parsers \<Rightarrow> CommandRunner \<Rightarrow> (darwin_error, net_Interface list) result \<Rightarrow> (DarwinEvidenceReport \<Rightarrow> string) \<Rightarrow>
   (darwin_error, string) result" where
  "runDarwinEvidence uc net os interfaces json =
     res_bind (LiveEvidenceInterfaceSnapshots uc net os interfaces) (\<lambda>snapshots.
     res_bind (LiveUSBTetherFunctions os) (\<lambda>deviceFunctions.
       Inr (json (BuildDarwinEvidenceReport snapshots deviceFunctions))))"

section \<open>The report reveals no identifier\<close>

text \<open>What the verdict may depend on: kind and usability of an interface, but neither its names nor its evidence.\<close>

definition coarse :: "InterfaceSnapshot \<Rightarrow> LinkKind \<times> bool" where
  "coarse snapshot = (snap_Kind snapshot, Usable (snapshot_Observation snapshot))"

lemma fits_coarse: "fits role (snapshot_Observation s) \<longleftrightarrow> coarse s = (kind_of role, True)"
  by (auto simp: fits_def coarse_def snapshot_Observation_def)

lemma present_coarse:
  "Candidate_for (Classify (ObservationsFromSnapshots snapshots)) role \<noteq> None \<longleftrightarrow>
     count (image_mset coarse (mset snapshots)) (kind_of role, True) = 1"
proof -
  have "length (filter (fits role) (ObservationsFromSnapshots snapshots)) = length (filter (\<lambda>s. coarse s = (kind_of role, True)) snapshots)"
    by (simp add: ObservationsFromSnapshots_def filter_map comp_def fits_coarse)
  also have "\<dots> = count (image_mset coarse (mset snapshots)) (kind_of role, True)"
    by (induction snapshots) auto
  finally show ?thesis by (simp only: Candidate_for_unique)
qed

lemma report_parts:
  assumes "image_mset coarse (mset snapshots) = image_mset coarse (mset snapshots')"
  shows "BuildCompatibilityReport snapshots fns v = BuildCompatibilityReport snapshots' fns v"
    and "ShareReport (BuildCompatibilityReport snapshots fns v) = ShareReport (BuildCompatibilityReport snapshots' fns v)"
    and "cr_Ready (BuildCompatibilityReport snapshots fns v) \<longleftrightarrow>
           snd (parseMacOSMajor v) \<and> 11 \<le> fst (parseMacOSMajor v) \<and>
           count (image_mset coarse (mset snapshots')) (LinkKindWiFi, True) = 1 \<and>
           (count (image_mset coarse (mset snapshots')) (LinkKindAndroidUSBTether, True) = 1 \<or>
            EvidenceValueAndroidRNDIS \<in> fn_Transport ` set fns)"
proof -
  note p = present_coarse [of snapshots RoleWiFi] present_coarse [of snapshots RoleAndroidUSBTether]
    present_coarse [of snapshots' RoleWiFi] present_coarse [of snapshots' RoleAndroidUSBTether]
  show eq: "BuildCompatibilityReport snapshots fns v = BuildCompatibilityReport snapshots' fns v"
    unfolding BuildCompatibilityReport_def Let_def androidTetherSupport_def p assms ..
  then show "ShareReport (BuildCompatibilityReport snapshots fns v) = ShareReport (BuildCompatibilityReport snapshots' fns v)"
    by (rule arg_cong)
  show "cr_Ready (BuildCompatibilityReport snapshots fns v) \<longleftrightarrow>
           snd (parseMacOSMajor v) \<and> 11 \<le> fst (parseMacOSMajor v) \<and>
           count (image_mset coarse (mset snapshots')) (LinkKindWiFi, True) = 1 \<and>
           (count (image_mset coarse (mset snapshots')) (LinkKindAndroidUSBTether, True) = 1 \<or>
            EvidenceValueAndroidRNDIS \<in> fn_Transport ` set fns)"
    unfolding eq unfolding BuildCompatibilityReport_def Let_def androidTetherSupport_def p
    by (auto simp: decideVerdict_def minMacOSMajor_def split_beta list_ex_iff image_iff dest: sym)
qed

text \<open>
  C40. The compatibility report, and with it the summary line and the shared text, depends on the interfaces
  only through how many of each kind are usable: two machines whose interfaces differ in device names, display
  names, addresses, evidence or order get the same report. It says ready exactly when the macOS version is
  readable and at least 11, one usable Wi-Fi interface is present, and so is one usable Android tether or an
  RNDIS function on the bus.
\<close>

theorem report_reveals_no_identifier:
  assumes "image_mset coarse (mset snapshots) = image_mset coarse (mset snapshots')"
  shows "BuildCompatibilityReport snapshots fns v = BuildCompatibilityReport snapshots' fns v \<and>
     ShareReport (BuildCompatibilityReport snapshots fns v) = ShareReport (BuildCompatibilityReport snapshots' fns v) \<and>
     (cr_Ready (BuildCompatibilityReport snapshots fns v) \<longleftrightarrow>
           snd (parseMacOSMajor v) \<and> 11 \<le> fst (parseMacOSMajor v) \<and>
           count (image_mset coarse (mset snapshots')) (LinkKindWiFi, True) = 1 \<and>
           (count (image_mset coarse (mset snapshots')) (LinkKindAndroidUSBTether, True) = 1 \<or>
            EvidenceValueAndroidRNDIS \<in> fn_Transport ` set fns))"
  using report_parts [OF assms] by blast

definition demo_snapshot :: "string \<Rightarrow> LinkKind \<Rightarrow> Evidence list \<Rightarrow> InterfaceSnapshot" where
  "demo_snapshot name kind evidence = \<lparr>snap_BSDName = name, snap_DisplayName = name, snap_Kind = kind, snap_Up = True,
     snap_Running = True, snap_Loopback = False, snap_HasIPv4 = True, snap_Evidence = evidence\<rparr>"

definition demo_machines :: "InterfaceSnapshot list \<times> InterfaceSnapshot list" where
  "demo_machines =
     ([demo_snapshot ''en0'' LinkKindWiFi [], demo_snapshot ''en7'' LinkKindAndroidUSBTether []],
      [demo_snapshot ''anon'' LinkKindAndroidUSBTether [], demo_snapshot ''office'' LinkKindWiFi
        [\<lparr>ev_Source = EvidenceSourceIORegistry, ev_Key = ''serial'', ev_Value = ''12345''\<rparr>]])"

theorem report_reveals_no_identifier_witness:
  "BuildCompatibilityReport (fst demo_machines) [] ''14.5'' = BuildCompatibilityReport (snd demo_machines) [] ''14.5'' \<and>
   cr_Ready (BuildCompatibilityReport (fst demo_machines) [] ''14.5'')"
proof -
  have same: "image_mset coarse (mset (fst demo_machines)) = image_mset coarse (mset (snd demo_machines))"
    by (simp add: demo_machines_def coarse_def demo_snapshot_def snapshot_Observation_def Usable_def)
  have n: "count (image_mset coarse (mset (snd demo_machines))) (LinkKindWiFi, True) = 1"
    "count (image_mset coarse (mset (snd demo_machines))) (LinkKindAndroidUSBTether, True) = 1"
    by (simp_all add: demo_machines_def coarse_def demo_snapshot_def snapshot_Observation_def Usable_def)
  have "parseMacOSMajor ''14.5'' = (14, True)"
    by (simp add: parseMacOSMajor_def TrimSpace_id eval_space strconv_Atoi_def ParseInt_def is_digit_def digits_value_def
        max_int64_def min_int64_def)
  with n report_reveals_no_identifier [OF same, of "[]" "''14.5''"] show ?thesis by auto
qed

text \<open>
  A USB function that only exists on the bus is never reported as a path: candidates, completeness, status
  and interfaces of the evidence report do not depend on the USB functions, a function is marked usable only
  when a host driver claimed it, and it adds one issue exactly when it is an unclaimed RNDIS function on a
  machine without an Android candidate.
\<close>

theorem device_function_never_path:
  "der_Candidates (BuildDarwinEvidenceReport snapshots fns) = der_Candidates (BuildDarwinEvidenceReport snapshots []) \<and>
   der_Complete (BuildDarwinEvidenceReport snapshots fns) = der_Complete (BuildDarwinEvidenceReport snapshots []) \<and>
   der_ClassificationStatus (BuildDarwinEvidenceReport snapshots fns) =
     (if der_Complete (BuildDarwinEvidenceReport snapshots []) then ''complete'' else ''incomplete'') \<and>
   der_Interfaces (BuildDarwinEvidenceReport snapshots fns) = der_Interfaces (BuildDarwinEvidenceReport snapshots []) \<and>
   map ddf_Usable (der_DeviceFunctions (BuildDarwinEvidenceReport snapshots fns)) = map fn_HostDriverClaimed fns \<and>
   der_Issues (BuildDarwinEvidenceReport snapshots fns) =
     der_Issues (BuildDarwinEvidenceReport snapshots []) @
     replicate
       (if list_ex (\<lambda>c. dc_Role c = ''android-usb-tether'') (der_Candidates (BuildDarwinEvidenceReport snapshots [])) then 0
        else length (filter (\<lambda>fn. \<not> fn_HostDriverClaimed fn \<and> fn_Transport fn = EvidenceValueAndroidRNDIS) fns))
       \<lparr>dis_Code = IssueCodeTetherPresentNotUsable, dis_Role = ''android-usb-tether'', dis_Count = 0\<rparr>"
proof -
  let ?c = "Classify (ObservationsFromSnapshots snapshots)"
  have role: "PathRole_String r = ''android-usb-tether'' \<longleftrightarrow> r = RoleAndroidUSBTether" for r by (cases r) simp_all
  have cand: "Candidate_for ?c RoleAndroidUSBTether \<noteq> None \<longleftrightarrow>
      list_ex (\<lambda>c. dc_Role c = ''android-usb-tether'') (diagnosticCandidates (Candidates ?c))"
    by (auto simp: Candidate_for_def find_None_iff diagnosticCandidates_def list_ex_iff role)
  have "deviceFunctionIssues ?c fns = replicate
       (if Candidate_for ?c RoleAndroidUSBTether \<noteq> None then 0
        else length (filter (\<lambda>fn. \<not> fn_HostDriverClaimed fn \<and> fn_Transport fn = EvidenceValueAndroidRNDIS) fns))
       \<lparr>dis_Code = IssueCodeTetherPresentNotUsable, dis_Role = ''android-usb-tether'', dis_Count = 0\<rparr>"
    by (induction fns) (auto simp: deviceFunctionIssues_def roleForTransport_def)
  then show ?thesis
    unfolding cand by (simp add: BuildDarwinEvidenceReport_def Let_def diagnosticDeviceFunctions_def deviceFunctionIssues_def [of _ "[]"])
qed

end
