(* ===== verification/Probe_Server.thy ===== *)
theory Probe_Server
  imports Fifo_Window Metrics
begin

text \<open>
  \<^verbatim>\<open>internal/gateway/server.go\<close>: the Stage-1 probe gateway. It decodes each datagram, asks the
  first-in first-out window whether the identity is new, counts and logs the decision. The theory proves that
  the server never panics and that its counters and metrics are those of a reference gateway over the bounded queue.
\<close>

section \<open>The code\<close>

definition maxDatagram :: nat where "maxDatagram = 1500"
definition summaryEvery :: u64 where "summaryEvery = 1000"

datatype ProbeDecision = ProbeRejected | ProbeFirstCopy | ProbeDuplicate

fun ProbeDecision_String :: "ProbeDecision \<Rightarrow> string" where
  "ProbeDecision_String ProbeFirstCopy = ''first-copy''"
| "ProbeDecision_String ProbeDuplicate = ''duplicate''"
| "ProbeDecision_String ProbeRejected = ''rejected''"

record ProbeRecord =
  pr_Decision :: ProbeDecision
  pr_Path :: PathTag
  pr_FirstPath :: PathTag
  pr_CopyCount :: int

record ProbeStats =
  st_FirstCopies :: u64
  st_Duplicates :: u64
  st_Rejected :: u64

record ProbeServer =
  sv_window :: "Window option"
  sv_firstCopies :: u64
  sv_duplicates :: u64
  sv_rejected :: u64
  sv_metrics :: Registry
  sv_packets :: CounterVec
  sv_rejects :: CounterVec

definition NewServer :: "int \<Rightarrow> (dedup_error, ProbeServer) result" where
  "NewServer capacity =
     res_bind (NewWindow capacity) (\<lambda>window.
       let reg = NewRegistry;
           (packets, reg) = Registry_Counter reg ''gemina_packets_total''
             ''Probe datagrams handled, by decision and path.'' [''decision'', ''path''];
           (rejects, reg) = Registry_Counter reg ''gemina_rejected_total''
             ''Datagrams rejected before dedup, by reason.'' [''reason'']
       in Inr \<lparr>sv_window = Some window, sv_firstCopies = 0, sv_duplicates = 0, sv_rejected = 0,
               sv_metrics = reg, sv_packets = packets, sv_rejects = rejects\<rparr>)"

definition Stats :: "ProbeServer \<Rightarrow> ProbeStats" where
  "Stats s = \<lparr>st_FirstCopies = sv_firstCopies s, st_Duplicates = sv_duplicates s, st_Rejected = sv_rejected s\<rparr>"

fun rejectReason :: "probe_error \<Rightarrow> string" where
  "rejectReason ErrShortProbe = ''short''"
| "rejectReason ErrBadMagic = ''bad-magic''"
| "rejectReason ErrUnsupportedVersion = ''unsupported-version''"
| "rejectReason ErrInvalidProbe = ''invalid-identity''"

fun probe_error_text :: "probe_error \<Rightarrow> string" where
  "probe_error_text ErrShortProbe = ''probe datagram shorter than wire size''"
| "probe_error_text ErrBadMagic = ''probe datagram has wrong magic''"
| "probe_error_text ErrUnsupportedVersion = ''probe datagram has unsupported version''"
| "probe_error_text ErrInvalidProbe = ''probe carries an invalid packet identity''"

definition firstPathTag :: "PathID \<Rightarrow> PathTag" where
  "firstPathTag path =
     (case find (\<lambda>tag. PathTag_String tag = path) [PathWiFi, PathAndroidUSBTether] of
        None \<Rightarrow> PathUnknown | Some tag \<Rightarrow> tag)"

text \<open>The lines the server logs, with their attributes; the debug lines only when that level is enabled.\<close>

datatype log_line =
  LogRejected string string
| LogProbe string string string int
| LogSummary string ProbeStats

definition rejected_record :: ProbeRecord where
  "rejected_record = \<lparr>pr_Decision = ProbeRejected, pr_Path = 0, pr_FirstPath = 0, pr_CopyCount = 0\<rparr>"

definition packets_Inc :: "string list \<Rightarrow> ProbeServer \<Rightarrow> ProbeServer option" where
  "packets_Inc lv s = map_option (\<lambda>reg. s\<lparr>sv_metrics := reg\<rparr>) (on_counter (Counter_Inc lv) (sv_packets s) (sv_metrics s))"

definition rejects_Inc :: "string list \<Rightarrow> ProbeServer \<Rightarrow> ProbeServer option" where
  "rejects_Inc lv s = map_option (\<lambda>reg. s\<lparr>sv_metrics := reg\<rparr>) (on_counter (Counter_Inc lv) (sv_rejects s) (sv_metrics s))"

definition probe_log :: "bool \<Rightarrow> ProbeRecord \<Rightarrow> log_line list" where
  "probe_log debug rec =
     (if debug then [LogProbe (ProbeDecision_String (pr_Decision rec)) (PathTag_String (pr_Path rec))
                       (PathTag_String (pr_FirstPath rec)) (pr_CopyCount rec)]
      else [])"

text \<open>A panic is \<^term>\<open>None\<close>.\<close>

definition ProbeServer_Handle :: "bool \<Rightarrow> ProbeServer \<Rightarrow> bytes \<Rightarrow> (ProbeRecord \<times> log_line list \<times> ProbeServer) option" where
  "ProbeServer_Handle debug s datagram =
     (case UnmarshalProbe datagram of
        Inl err \<Rightarrow> do {
          let s1 = s\<lparr>sv_rejected := sv_rejected s + 1\<rparr>;
          s2 \<leftarrow> packets_Inc [ProbeDecision_String ProbeRejected, PathTag_String PathUnknown] s1;
          s3 \<leftarrow> rejects_Inc [rejectReason err] s2;
          Some (rejected_record,
                if debug then [LogRejected (ProbeDecision_String ProbeRejected) (probe_error_text err)] else [], s3)
        }
      | Inr probe \<Rightarrow> do {
          (result, window) \<leftarrow> Window_Observe (sv_window s) (ID probe) (PathTag_String (Path probe));
          let s1 = s\<lparr>sv_window := window\<rparr>;
          let rec = \<lparr>pr_Decision = ProbeRejected, pr_Path = Path probe, pr_FirstPath = Path probe,
                     pr_CopyCount = res_CopyCount result\<rparr>;
          (case res_Decision result of
             DecisionFirstCopy \<Rightarrow> do {
               let rec1 = rec\<lparr>pr_Decision := ProbeFirstCopy\<rparr>;
               s2 \<leftarrow> packets_Inc [ProbeDecision_String ProbeFirstCopy, PathTag_String (Path probe)]
                      (s1\<lparr>sv_firstCopies := sv_firstCopies s1 + 1\<rparr>);
               Some (rec1, probe_log debug rec1, s2)
             }
           | DecisionDuplicate \<Rightarrow> do {
               let rec1 = rec\<lparr>pr_Decision := ProbeDuplicate, pr_FirstPath := firstPathTag (res_FirstPath result)\<rparr>;
               s2 \<leftarrow> packets_Inc [ProbeDecision_String ProbeDuplicate, PathTag_String (Path probe)]
                      (s1\<lparr>sv_duplicates := sv_duplicates s1 + 1\<rparr>);
               Some (rec1, probe_log debug rec1, s2)
             }
           | DecisionInvalid \<Rightarrow> do {
               s2 \<leftarrow> packets_Inc [ProbeDecision_String ProbeRejected, PathTag_String PathUnknown]
                      (s1\<lparr>sv_rejected := sv_rejected s1 + 1\<rparr>);
               s3 \<leftarrow> rejects_Inc [''invalid-identity''] s2;
               Some (rejected_record, [], s3)
             })
        })"

definition logSummary :: "ProbeServer \<Rightarrow> string \<Rightarrow> log_line" where
  "logSummary s reason = LogSummary reason (Stats s)"

text \<open>
  The loop of \<^verbatim>\<open>Serve\<close> over what the connection returns. A datagram longer than the buffer is cut; a read
  error ends the loop, without an error when the context is done or the connection was closed.
\<close>

datatype probe_read = ProbeDatagram bytes | ProbeReadErr bool

fun ProbeServer_Serve ::
  "bool \<Rightarrow> ProbeServer \<Rightarrow> u64 \<Rightarrow> probe_read list \<Rightarrow> (log_line list \<times> ProbeServer \<times> bool option) option" where
  "ProbeServer_Serve debug s processed [] = Some ([], s, None)"
| "ProbeServer_Serve debug s processed (ProbeReadErr closed # _) = Some ([], s, Some closed)"
| "ProbeServer_Serve debug s processed (ProbeDatagram b # reads) =
     (case ProbeServer_Handle debug s (take maxDatagram b) of
        None \<Rightarrow> None
      | Some (_, logs, s1) \<Rightarrow>
          let processed1 = processed + 1;
              summary = (if processed1 mod summaryEvery = 0 then [logSummary s1 ''interval''] else [])
          in (case ProbeServer_Serve debug s1 processed1 reads of
                None \<Rightarrow> None
              | Some (logs', s2, res) \<Rightarrow> Some (logs @ summary @ logs', s2, res)))"

section \<open>The reference gateway\<close>

text \<open>What the server promises for a datagram, over the bounded queue of identities.\<close>

definition probe_step :: "nat \<Rightarrow> fifo \<Rightarrow> bytes \<Rightarrow> ProbeRecord \<times> fifo" where
  "probe_step C q b =
     (case UnmarshalProbe b of
        Inl _ \<Rightarrow> (rejected_record, q)
      | Inr p \<Rightarrow>
          (case map_of q (ID p) of
             None \<Rightarrow> (\<lparr>pr_Decision = ProbeFirstCopy, pr_Path = Path p, pr_FirstPath = Path p, pr_CopyCount = 1\<rparr>,
                     snd (fifo_observe C q (ID p, PathTag_String (Path p))))
           | Some r \<Rightarrow> (\<lparr>pr_Decision = ProbeDuplicate, pr_Path = Path p, pr_FirstPath = firstPathTag (firstPath r),
                        pr_CopyCount = wrap64 (copyCount r + 1)\<rparr>, bump (ID p) q)))"

fun probe_run :: "nat \<Rightarrow> fifo \<Rightarrow> bytes list \<Rightarrow> ProbeRecord list" where
  "probe_run C q [] = []"
| "probe_run C q (b # bs) = fst (probe_step C q b) # probe_run C (snd (probe_step C q b)) bs"

definition tally :: "ProbeDecision \<Rightarrow> ProbeRecord list \<Rightarrow> nat" where
  "tally d rs = length (filter (\<lambda>r. pr_Decision r = d) rs)"

text \<open>The labels under which a record is counted, and the value of that series.\<close>

definition path_tally :: "ProbeDecision \<Rightarrow> PathTag \<Rightarrow> ProbeRecord list \<Rightarrow> nat" where
  "path_tally d tag rs = length (filter (\<lambda>r. pr_Decision r = d \<and> PathTag_String (pr_Path r) = PathTag_String tag) rs)"

definition packets_series :: "ProbeServer \<Rightarrow> ProbeDecision \<Rightarrow> PathTag \<Rightarrow> int" where
  "packets_series s d tag =
     series_value (rg_counters (sv_metrics s) ! sv_packets s) [ProbeDecision_String d, PathTag_String tag]"

definition sv_inv :: "nat \<Rightarrow> fifo \<Rightarrow> ProbeServer \<Rightarrow> bool" where
  "sv_inv C q s \<longleftrightarrow> sv_packets s = 0 \<and> sv_rejects s = 1 \<and>
     map m_labelNames (rg_counters (sv_metrics s)) = [[''decision'', ''path''], [''reason'']] \<and>
     (\<exists>w. sv_window s = Some w \<and> win_inv w \<and> win_capacity w = C \<and> fifo_abs w = q)"

lemma PathTag_String_cases: "PathTag_String tag \<in> {''wi-fi'', ''android-usb-tether'', ''unknown''}"
  by (simp add: PathTag_String_def)

lemma probe_key:
  "series_key [ProbeDecision_String d, PathTag_String tag] = series_key [ProbeDecision_String d', PathTag_String tag'] \<longleftrightarrow>
     d = d' \<and> PathTag_String tag = PathTag_String tag'"
  using PathTag_String_cases [of tag] PathTag_String_cases [of tag']
  by (cases d; cases d') (auto simp: series_key_def)

lemma packets_Inc_ok:
  assumes "sv_inv C q s"
  shows "\<exists>s'. packets_Inc [ProbeDecision_String d, PathTag_String tag] s = Some s' \<and> sv_inv C q s' \<and> Stats s' = Stats s \<and>
    (\<forall>d' tag'. packets_series s' d' tag' =
       (if d' = d \<and> PathTag_String tag' = PathTag_String tag then wrap64 (packets_series s d' tag' + 1) else packets_series s d' tag'))"
proof -
  from assms have n: "map m_labelNames (rg_counters (sv_metrics s)) = [[''decision'', ''path''], [''reason'']]"
    and p: "sv_packets s = 0" by (simp_all add: sv_inv_def)
  then have l: "0 < length (rg_counters (sv_metrics s))" "m_labelNames (rg_counters (sv_metrics s) ! 0) = [''decision'', ''path'']" by auto
  let ?lv = "[ProbeDecision_String d, PathTag_String tag]"
  from on_counter_Add_series [of 0 "sv_metrics s" ?lv 1] l obtain reg where
    reg: "on_counter (Counter_Add 1 ?lv) 0 (sv_metrics s) = Some reg"
      "map m_labelNames (rg_counters reg) = map m_labelNames (rg_counters (sv_metrics s))"
      "\<And>j lv'. series_value (rg_counters reg ! j) lv' =
       (if j = 0 \<and> series_key lv' = series_key ?lv then wrap64 (series_value (rg_counters (sv_metrics s) ! 0) ?lv + 1)
        else series_value (rg_counters (sv_metrics s) ! j) lv')" by auto
  have key: "packets_series s d' tag' = series_value (rg_counters (sv_metrics s) ! 0) ?lv"
    if "d' = d \<and> PathTag_String tag' = PathTag_String tag" for d' tag'
    using that p by (simp add: packets_series_def)
  have "packets_series (s\<lparr>sv_metrics := reg\<rparr>) d' tag' =
      (if d' = d \<and> PathTag_String tag' = PathTag_String tag then wrap64 (packets_series s d' tag' + 1) else packets_series s d' tag')" for d' tag'
    using reg(3) [of 0 "[ProbeDecision_String d', PathTag_String tag']"] p key [of d' tag'] probe_key [of d' tag' d tag]
    by (cases "d' = d \<and> PathTag_String tag' = PathTag_String tag") (auto simp: packets_series_def)
  moreover have "packets_Inc ?lv s = Some (s\<lparr>sv_metrics := reg\<rparr>)"
    using reg(1) p by (simp add: packets_Inc_def Counter_Inc_def [abs_def])
  moreover have "sv_inv C q (s\<lparr>sv_metrics := reg\<rparr>)" "Stats (s\<lparr>sv_metrics := reg\<rparr>) = Stats s"
    using assms reg(2) by (simp_all add: sv_inv_def Stats_def)
  ultimately show ?thesis by blast
qed

lemma rejects_Inc_ok:
  assumes "sv_inv C q s"
  shows "\<exists>s'. rejects_Inc [r] s = Some s' \<and> sv_inv C q s' \<and> Stats s' = Stats s \<and> packets_series s' = packets_series s"
proof -
  from assms have n: "map m_labelNames (rg_counters (sv_metrics s)) = [[''decision'', ''path''], [''reason'']]"
    and p: "sv_packets s = 0" "sv_rejects s = 1" by (simp_all add: sv_inv_def)
  then have l: "1 < length (rg_counters (sv_metrics s))" "m_labelNames (rg_counters (sv_metrics s) ! 1) = [''reason'']" by auto
  from on_counter_Add_series [of 1 "sv_metrics s" "[r]" 1] l obtain reg where
    reg: "on_counter (Counter_Add 1 [r]) 1 (sv_metrics s) = Some reg"
      "map m_labelNames (rg_counters reg) = map m_labelNames (rg_counters (sv_metrics s))"
      "\<And>lv'. series_value (rg_counters reg ! 0) lv' = series_value (rg_counters (sv_metrics s) ! 0) lv'" by auto
  have "rejects_Inc [r] s = Some (s\<lparr>sv_metrics := reg\<rparr>)"
    using reg(1) p by (simp add: rejects_Inc_def Counter_Inc_def [abs_def])
  moreover have "sv_inv C q (s\<lparr>sv_metrics := reg\<rparr>)" "Stats (s\<lparr>sv_metrics := reg\<rparr>) = Stats s"
    "packets_series (s\<lparr>sv_metrics := reg\<rparr>) = packets_series s"
    using assms reg(2,3) p by (simp_all add: sv_inv_def Stats_def packets_series_def fun_eq_iff)
  ultimately show ?thesis by blast
qed

text \<open>The effect of one decision on the counters.\<close>

definition counted :: "ProbeServer \<Rightarrow> ProbeRecord \<Rightarrow> ProbeServer \<Rightarrow> bool" where
  "counted s rec s' \<longleftrightarrow>
     Stats s' = \<lparr>st_FirstCopies = st_FirstCopies (Stats s) + of_nat (tally ProbeFirstCopy [rec]),
                 st_Duplicates = st_Duplicates (Stats s) + of_nat (tally ProbeDuplicate [rec]),
                 st_Rejected = st_Rejected (Stats s) + of_nat (tally ProbeRejected [rec])\<rparr> \<and>
     (\<forall>d tag k. packets_series s d tag = wrap64 k \<longrightarrow> packets_series s' d tag = wrap64 (k + int (path_tally d tag [rec])))"

lemma wrap64_wrap64_add: "wrap64 (wrap64 k + n) = wrap64 (k + n)"
  by (simp add: wrap64_def mod_simps algebra_simps)

lemma packets_Inc_counted:
  assumes "sv_inv C q s1" and "\<And>d tag. packets_series s1 d tag = packets_series s d tag"
    and "Stats s1 = \<lparr>st_FirstCopies = st_FirstCopies (Stats s) + of_nat (tally ProbeFirstCopy [rec]),
                 st_Duplicates = st_Duplicates (Stats s) + of_nat (tally ProbeDuplicate [rec]),
                 st_Rejected = st_Rejected (Stats s) + of_nat (tally ProbeRejected [rec])\<rparr>"
  shows "\<exists>s2. packets_Inc [ProbeDecision_String (pr_Decision rec), PathTag_String (pr_Path rec)] s1 = Some s2 \<and>
     sv_inv C q s2 \<and> counted s rec s2"
proof -
  from packets_Inc_ok [OF assms(1), of "pr_Decision rec" "pr_Path rec"] assms(2) obtain s2 where
    s2: "packets_Inc [ProbeDecision_String (pr_Decision rec), PathTag_String (pr_Path rec)] s1 = Some s2" "sv_inv C q s2"
      "Stats s2 = Stats s1"
      "\<And>d tag. packets_series s2 d tag = (if d = pr_Decision rec \<and> PathTag_String tag = PathTag_String (pr_Path rec)
         then wrap64 (packets_series s d tag + 1) else packets_series s d tag)" by auto
  have "counted s rec s2" unfolding counted_def s2(3) assms(3) by (auto simp: s2(4) path_tally_def wrap64_wrap64_add)
  with s2(1,2) show ?thesis by blast
qed

lemma path_nonempty: "PathTag_String tag \<noteq> ''''"
  using PathTag_String_cases [of tag] by auto

lemma Handle_reject:
  assumes "sv_inv C q s" and "UnmarshalProbe b = Inl err"
  shows "\<exists>logs s'. ProbeServer_Handle debug s b = Some (rejected_record, logs, s') \<and> sv_inv C q s' \<and> counted s rejected_record s'"
proof -
  let ?s1 = "s\<lparr>sv_rejected := sv_rejected s + 1\<rparr>"
  have "sv_inv C q ?s1" using assms by (simp add: sv_inv_def)
  moreover have "packets_series ?s1 d tag = packets_series s d tag" for d tag by (simp add: packets_series_def)
  ultimately obtain s2 where s2: "packets_Inc [ProbeDecision_String ProbeRejected, PathTag_String PathUnknown] ?s1 = Some s2"
      "sv_inv C q s2" "counted s rejected_record s2"
    using packets_Inc_counted [of C q ?s1 s rejected_record]
    by (auto simp: rejected_record_def tally_def Stats_def PathUnknown_def)
  from rejects_Inc_ok [OF s2(2), of "rejectReason err"] obtain s3 where
    s3: "rejects_Inc [rejectReason err] s2 = Some s3" "sv_inv C q s3" "Stats s3 = Stats s2" "packets_series s3 = packets_series s2" by blast
  then have "counted s rejected_record s3" using s2(3) by (simp add: counted_def)
  with s2(1) s3(1,2) assms(2) show ?thesis by (simp add: ProbeServer_Handle_def)
qed

lemma Handle_sim:
  assumes "sv_inv C q s"
  shows "\<exists>logs s'. ProbeServer_Handle debug s b = Some (fst (probe_step C q b), logs, s') \<and>
     sv_inv C (snd (probe_step C q b)) s' \<and> counted s (fst (probe_step C q b)) s'"
proof (cases "UnmarshalProbe b")
  case (Inl err)
  with Handle_reject [OF assms Inl] show ?thesis by (simp add: probe_step_def)
next
  case (Inr p)
  let ?obs = "fifo_observe C q (ID p, PathTag_String (Path p))"
  from assms obtain w where w: "sv_window s = Some w" "win_inv w" "win_capacity w = C" "fifo_abs w = q" by (auto simp: sv_inv_def)
  from Window_Observe_sim [OF w(2), of "ID p" "PathTag_String (Path p)"] obtain w' where
    w': "Window_Observe (Some w) (ID p) (PathTag_String (Path p)) = Some (fst ?obs, Some w')"
      "win_inv w'" "win_capacity w' = C" "fifo_abs w' = snd ?obs" unfolding w(3,4) by blast
  have valid: "PacketID_Valid (ID p)" using UnmarshalProbe_wf [OF Inr] by simp
  show ?thesis
  proof (cases "map_of q (ID p)")
    case None
    let ?rec = "\<lparr>pr_Decision = ProbeFirstCopy, pr_Path = Path p, pr_FirstPath = Path p, pr_CopyCount = 1\<rparr>"
    let ?s1 = "s\<lparr>sv_window := Some w', sv_firstCopies := sv_firstCopies s + 1\<rparr>"
    have "sv_inv C (snd ?obs) ?s1" "\<And>d tag. packets_series ?s1 d tag = packets_series s d tag"
      using assms w' by (simp_all add: sv_inv_def packets_series_def)
    from packets_Inc_counted [OF this, of ?rec] show ?thesis using Inr None w(1) w'(1) valid path_nonempty
      by (auto simp: ProbeServer_Handle_def probe_step_def fifo_observe_def tally_def Stats_def Let_def)
  next
    case (Some r)
    let ?rec = "\<lparr>pr_Decision = ProbeDuplicate, pr_Path = Path p, pr_FirstPath = firstPathTag (firstPath r),
                 pr_CopyCount = wrap64 (copyCount r + 1)\<rparr>"
    let ?s1 = "s\<lparr>sv_window := Some w', sv_duplicates := sv_duplicates s + 1\<rparr>"
    have "sv_inv C (snd ?obs) ?s1" "\<And>d tag. packets_series ?s1 d tag = packets_series s d tag"
      using assms w' by (simp_all add: sv_inv_def packets_series_def)
    from packets_Inc_counted [OF this, of ?rec] show ?thesis using Inr Some w(1) w'(1) valid path_nonempty
      by (auto simp: ProbeServer_Handle_def probe_step_def fifo_observe_def tally_def Stats_def Let_def)
  qed
qed

lemma counted_trans:
  assumes "counted s rec s1"
    and "Stats s2 = \<lparr>st_FirstCopies = st_FirstCopies (Stats s1) + of_nat (tally ProbeFirstCopy rs),
           st_Duplicates = st_Duplicates (Stats s1) + of_nat (tally ProbeDuplicate rs),
           st_Rejected = st_Rejected (Stats s1) + of_nat (tally ProbeRejected rs)\<rparr>"
  shows "Stats s2 = \<lparr>st_FirstCopies = st_FirstCopies (Stats s) + of_nat (tally ProbeFirstCopy (rec # rs)),
           st_Duplicates = st_Duplicates (Stats s) + of_nat (tally ProbeDuplicate (rec # rs)),
           st_Rejected = st_Rejected (Stats s) + of_nat (tally ProbeRejected (rec # rs))\<rparr>"
  using assms by (auto simp: counted_def tally_def)

lemma path_tally_Cons: "path_tally d tag (r # rs) = path_tally d tag [r] + path_tally d tag rs"
  by (simp add: path_tally_def)

lemma Serve_sim:
  assumes "sv_inv C q s" and "\<And>d tag. packets_series s d tag = wrap64 (k d tag)"
  shows "\<exists>logs s'. ProbeServer_Serve debug s n (map ProbeDatagram bs @ [ProbeReadErr closed]) = Some (logs, s', Some closed) \<and>
     Stats s' = \<lparr>st_FirstCopies = st_FirstCopies (Stats s) + of_nat (tally ProbeFirstCopy (probe_run C q (map (take maxDatagram) bs))),
                 st_Duplicates = st_Duplicates (Stats s) + of_nat (tally ProbeDuplicate (probe_run C q (map (take maxDatagram) bs))),
                 st_Rejected = st_Rejected (Stats s) + of_nat (tally ProbeRejected (probe_run C q (map (take maxDatagram) bs)))\<rparr> \<and>
     (\<forall>d tag. packets_series s' d tag = wrap64 (k d tag + int (path_tally d tag (probe_run C q (map (take maxDatagram) bs)))))"
  using assms
proof (induction bs arbitrary: s q n k)
  case Nil
  then show ?case by (simp add: tally_def path_tally_def)
next
  case (Cons b bs)
  let ?b = "take maxDatagram b" and ?st = "probe_step C q (take maxDatagram b)"
  from Handle_sim [OF Cons.prems(1), of debug ?b] obtain logs s1 where
    s1: "ProbeServer_Handle debug s ?b = Some (fst ?st, logs, s1)" "sv_inv C (snd ?st) s1" "counted s (fst ?st) s1" by blast
  have k: "packets_series s1 d tag = wrap64 (k d tag + int (path_tally d tag [fst ?st]))" for d tag
    using s1(3) Cons.prems(2) by (simp add: counted_def)
  from Cons.IH [OF s1(2) k, of "n + 1"] obtain logs' s2 where
    s2: "ProbeServer_Serve debug s1 (n + 1) (map ProbeDatagram bs @ [ProbeReadErr closed]) = Some (logs', s2, Some closed)"
     "Stats s2 = \<lparr>st_FirstCopies = st_FirstCopies (Stats s1) + of_nat (tally ProbeFirstCopy (probe_run C (snd ?st) (map (take maxDatagram) bs))),
        st_Duplicates = st_Duplicates (Stats s1) + of_nat (tally ProbeDuplicate (probe_run C (snd ?st) (map (take maxDatagram) bs))),
        st_Rejected = st_Rejected (Stats s1) + of_nat (tally ProbeRejected (probe_run C (snd ?st) (map (take maxDatagram) bs)))\<rparr>"
     "\<And>d tag. packets_series s2 d tag = wrap64 (k d tag + int (path_tally d tag [fst ?st]) +
        int (path_tally d tag (probe_run C (snd ?st) (map (take maxDatagram) bs))))" by auto
  note stats = counted_trans [OF s1(3) s2(2)]
  have "packets_series s2 d tag = wrap64 (k d tag + int (path_tally d tag (probe_run C q (map (take maxDatagram) (b # bs)))))" for d tag
    unfolding s2(3)
    using path_tally_Cons [of d tag "fst ?st" "probe_run C (snd ?st) (map (take maxDatagram) bs)"] by (simp only: probe_run.simps list.map of_nat_add add.assoc)
  with stats s1(1) s2(1) show ?case by (simp add: Let_def)
qed

lemma NewServer_inv:
  assumes "NewServer capacity = Inr s"
  shows "sv_inv (nat capacity) [] s" "Stats s = \<lparr>st_FirstCopies = 0, st_Duplicates = 0, st_Rejected = 0\<rparr>"
    "packets_series s d tag = wrap64 0"
proof -
  from assms obtain w where w: "NewWindow capacity = Inr w"
    and s: "s = \<lparr>sv_window = Some w, sv_firstCopies = 0, sv_duplicates = 0, sv_rejected = 0,
      sv_metrics = \<lparr>rg_counters = [new_metric ''gemina_packets_total'' ''Probe datagrams handled, by decision and path.'' [''decision'', ''path''],
         new_metric ''gemina_rejected_total'' ''Datagrams rejected before dedup, by reason.'' [''reason'']], rg_gauges = []\<rparr>,
      sv_packets = 0, sv_rejects = 1\<rparr>"
    by (auto simp: NewServer_def result_iff Registry_Counter_def NewRegistry_def Let_def)
  from NewWindow_sim [OF w] show "sv_inv (nat capacity) [] s" "Stats s = \<lparr>st_FirstCopies = 0, st_Duplicates = 0, st_Rejected = 0\<rparr>"
    "packets_series s d tag = wrap64 0"
    by (auto simp: s sv_inv_def Stats_def packets_series_def series_value_def new_metric_def wrap64_def)
qed

text \<open>
  C35. The probe gateway implements the reference: whatever datagrams arrive, serving them until the connection
  closes never panics, and the counters and the metric per decision and path are the numbers of first copies,
  duplicates and rejections that a bounded queue of identities prescribes for the datagrams cut to the read buffer.
\<close>

theorem probe_gateway_refines:
  assumes "NewServer capacity = Inr s"
  shows "\<exists>logs s'. ProbeServer_Serve debug s 0 (map ProbeDatagram bs @ [ProbeReadErr closed]) = Some (logs, s', Some closed) \<and>
     (let rs = probe_run (nat capacity) [] (map (take maxDatagram) bs) in
      Stats s' = \<lparr>st_FirstCopies = of_nat (tally ProbeFirstCopy rs), st_Duplicates = of_nat (tally ProbeDuplicate rs),
                  st_Rejected = of_nat (tally ProbeRejected rs)\<rparr> \<and>
      (\<forall>d tag. packets_series s' d tag = wrap64 (int (path_tally d tag rs))))"
proof -
  note new = NewServer_inv [OF assms]
  from Serve_sim [OF new(1), of "\<lambda>_ _. 0" debug 0 bs closed] new(2,3) show ?thesis by (simp add: Let_def)
qed

definition demo_probe :: "PathTag \<Rightarrow> bytes" where
  "demo_probe tag = probeMagic @ [ProbeVersion] @ [tag] @ replicate 16 1 @ put_be64 7"

lemma demo_probe_Unmarshal:
  "UnmarshalProbe (demo_probe tag) = Inr \<lparr>ID = \<lparr>Session = replicate 16 1, Number = 7\<rparr>, Path = tag\<rparr>"
  using UnmarshalProbe_Marshal [of "\<lparr>ID = \<lparr>Session = replicate 16 1, Number = 7\<rparr>, Path = tag\<rparr>" "[]"]
  by (simp add: demo_probe_def wf_session_def SessionIDSize_def PacketID_Valid_def SessionID_IsZero_iff)

theorem probe_gateway_refines_witness:
  "\<exists>s logs s'. NewServer 4 = Inr s \<and>
     ProbeServer_Serve True s 0 (map ProbeDatagram [demo_probe 1, [0], demo_probe 2] @ [ProbeReadErr True]) = Some (logs, s', Some True) \<and>
     Stats s' = \<lparr>st_FirstCopies = 1, st_Duplicates = 1, st_Rejected = 1\<rparr>"
proof -
  obtain s where s: "NewServer 4 = Inr s"
    by (auto simp: NewServer_def NewWindow_def Registry_Counter_def Let_def)
  have take: "take maxDatagram (demo_probe tag) = demo_probe tag" for tag
    by (simp add: maxDatagram_def demo_probe_def probeMagic_def put_be64_def)
  have short: "UnmarshalProbe [0] = Inl ErrShortProbe" by (simp add: UnmarshalProbe_def protocol_consts)
  have "PacketID_Valid \<lparr>Session = replicate 16 1, Number = 7\<rparr>"
    using demo_id_valid [of 7] by (simp add: demo_id_def)
  then have "probe_run 4 [] [demo_probe 1, [0], demo_probe 2] =
      [\<lparr>pr_Decision = ProbeFirstCopy, pr_Path = 1, pr_FirstPath = 1, pr_CopyCount = 1\<rparr>, rejected_record,
       \<lparr>pr_Decision = ProbeDuplicate, pr_Path = 2, pr_FirstPath = 1, pr_CopyCount = 2\<rparr>]"
    by (simp add: probe_step_def demo_probe_Unmarshal short fifo_observe_def path_nonempty firstPathTag_def PathTag_String_def PathWiFi_def PathAndroidUSBTether_def wrap64_def)
  with probe_gateway_refines [OF s, of True "[demo_probe 1, [0], demo_probe 2]" True] s take show ?thesis
    by (auto simp: Let_def maxDatagram_def tally_def rejected_record_def)
qed

end
