(* ===== verification/Bridge.thy ===== *)
theory Bridge
  imports Client_Handshake
begin

text \<open>
  \<^verbatim>\<open>bridge/geminacore\<close>: the C interface through which the macOS packet tunnel drives the Go core. Sessions
  and handshakes in flight live in two process-wide registries and are named by opaque handles. Memory the
  C caller passes is a byte list; a caller's output buffer is its contents, returned updated.
\<close>

section \<open>Registries (\<^verbatim>\<open>registry.go\<close>, \<^verbatim>\<open>handshake.go\<close>)\<close>

definition errCodeBadHandle :: int where "errCodeBadHandle = 1"
definition errCodeBufferSize :: int where "errCodeBufferSize = 2"
definition errCodeCore :: int where "errCodeCore = 3"
definition errCodeBadArgs :: int where "errCodeBadArgs = 4"

record registry =
  reg_next :: u64
  reg_sessions :: "u64 \<rightharpoonup> Session"

definition newRegistry :: registry where
  "newRegistry = \<lparr>reg_next = 0, reg_sessions = Map.empty\<rparr>"

definition reg_add :: "registry \<Rightarrow> Session \<Rightarrow> u64 \<times> registry" where
  "reg_add r s = (let h = reg_next r + 1 in (h, r\<lparr>reg_next := h, reg_sessions := (reg_sessions r)(h \<mapsto> s)\<rparr>))"

definition reg_get :: "registry \<Rightarrow> u64 \<Rightarrow> Session option" where
  "reg_get r h = reg_sessions r h"

definition reg_remove :: "registry \<Rightarrow> u64 \<Rightarrow> registry" where
  "reg_remove r h = r\<lparr>reg_sessions := (reg_sessions r)(h := None)\<rparr>"

record hsRegistry =
  hsr_next :: u64
  hsr_pending :: "u64 \<rightharpoonup> ClientHandshake"

definition newHSRegistry :: hsRegistry where
  "newHSRegistry = \<lparr>hsr_next = 0, hsr_pending = Map.empty\<rparr>"

definition hs_add :: "hsRegistry \<Rightarrow> ClientHandshake \<Rightarrow> u64 \<times> hsRegistry" where
  "hs_add r hs = (let h = hsr_next r + 1 in (h, r\<lparr>hsr_next := h, hsr_pending := (hsr_pending r)(h \<mapsto> hs)\<rparr>))"

definition hs_take :: "hsRegistry \<Rightarrow> u64 \<Rightarrow> ClientHandshake option \<times> hsRegistry" where
  "hs_take r h =
     (case hsr_pending r h of
        None \<Rightarrow> (None, r)
      | Some hs \<Rightarrow> (Some hs, r\<lparr>hsr_pending := (hsr_pending r)(h := None)\<rparr>))"

text \<open>The two process-wide variables \<^verbatim>\<open>reg\<close> and \<^verbatim>\<open>hsReg\<close>.\<close>

record bridge =
  br_reg :: registry
  br_hsReg :: hsRegistry

definition bridge_start :: bridge where
  "bridge_start = \<lparr>br_reg = newRegistry, br_hsReg = newHSRegistry\<rparr>"

text \<open>A session is reached through a pointer: an operation on it updates the registered session.\<close>

definition put_session :: "bridge \<Rightarrow> u64 \<Rightarrow> Session \<Rightarrow> bridge" where
  "put_session b h s = b\<lparr>br_reg := (br_reg b)\<lparr>reg_sessions := (reg_sessions (br_reg b))(h \<mapsto> s)\<rparr>\<rparr>"

text \<open>\<^verbatim>\<open>copy(dst, src)\<close>.\<close>

definition copy_into :: "'a list \<Rightarrow> 'a list \<Rightarrow> 'a list" where
  "copy_into dst src = take (length dst) src @ drop (length src) dst"

definition createSession :: "bridge \<Rightarrow> bytes \<Rightarrow> bytes \<Rightarrow> Role \<Rightarrow> int \<Rightarrow> u64 \<times> bridge" where
  "createSession b sid key role capacity =
     (case NewSessionID sid of
        Inl _ \<Rightarrow> (0, b)
      | Inr sid \<Rightarrow>
          (case NewSession sid key role capacity of
             Inl _ \<Rightarrow> (0, b)
           | Inr s \<Rightarrow> (case reg_add (br_reg b) s of (h, r) \<Rightarrow> (h, b\<lparr>br_reg := r\<rparr>))))"

definition outboundInto :: "crypto \<Rightarrow> bridge \<Rightarrow> u64 \<Rightarrow> bytes \<Rightarrow> bytes \<Rightarrow> int \<times> bytes \<times> bridge" where
  "outboundInto C b handle payload out =
     (case reg_get (br_reg b) handle of
        None \<Rightarrow> (- errCodeBadHandle, out, b)
      | Some s \<Rightarrow>
          (case Session_Outbound C s payload of
             (Inl _, s') \<Rightarrow> (- errCodeCore, out, put_session b handle s')
           | (Inr framed, s') \<Rightarrow>
               if length framed > length out then (- errCodeBufferSize, out, put_session b handle s')
               else (int (length framed), copy_into out framed, put_session b handle s')))"

text \<open>The result, the buffer and \<^verbatim>\<open>*deliver\<close>; \<^term>\<open>None\<close> is a panic of the core.\<close>

definition inboundInto :: "crypto \<Rightarrow> bridge \<Rightarrow> u64 \<Rightarrow> bytes \<Rightarrow> bytes \<Rightarrow> (int \<times> bytes \<times> bool \<times> bridge) option" where
  "inboundInto C b handle wire out =
     (case reg_get (br_reg b) handle of
        None \<Rightarrow> Some (- errCodeBadHandle, out, False, b)
      | Some s \<Rightarrow>
          (case Session_Inbound C s wire of
             (Inl e, s') \<Rightarrow> if e = panicIndex then None else Some (- errCodeCore, out, False, put_session b handle s')
           | (Inr (payload, first), s') \<Rightarrow>
               if length payload > length out then Some (- errCodeBufferSize, out, False, put_session b handle s')
               else Some (int (length payload), copy_into out payload, first, put_session b handle s')))"

definition beginHandshake ::
  "crypto \<Rightarrow> go_time \<Rightarrow> bytes option \<Rightarrow> bytes option \<Rightarrow> bridge \<Rightarrow> bytes \<Rightarrow> string \<Rightarrow> bytes \<Rightarrow> int \<times> u64 \<times> bytes \<times> bridge" where
  "beginHandshake C now rndID rndKey b gatewayPub token out =
     (if length gatewayPub \<noteq> PublicKeySize then (- errCodeBadArgs, 0, out, b)
      else case BeginClientHandshake C now rndID rndKey gatewayPub token of
        Inl _ \<Rightarrow> (- errCodeCore, 0, out, b)
      | Inr (hello, hs) \<Rightarrow>
          if length hello > length out then (- errCodeBufferSize, 0, out, b)
          else (case hs_add (br_hsReg b) hs of (h, r) \<Rightarrow> (int (length hello), h, copy_into out hello, b\<lparr>br_hsReg := r\<rparr>)))"

definition completeHandshake :: "crypto \<Rightarrow> bridge \<Rightarrow> u64 \<Rightarrow> bytes \<Rightarrow> int \<Rightarrow> bytes \<Rightarrow> u64 \<times> bytes \<times> bridge" where
  "completeHandshake C b hsHandle serverHello dedupCapacity assignedIPv4Out =
     (case hs_take (br_hsReg b) hsHandle of
        (None, hr) \<Rightarrow> (0, assignedIPv4Out, b\<lparr>br_hsReg := hr\<rparr>)
      | (Some hs, hr) \<Rightarrow>
          let b1 = b\<lparr>br_hsReg := hr\<rparr> in
          (case ClientHandshake_Complete C hs serverHello dedupCapacity of
             Inl _ \<Rightarrow> (0, assignedIPv4Out, b1)
           | Inr session \<Rightarrow>
               let out = (if length assignedIPv4Out \<ge> 4 then copy_into assignedIPv4Out (AssignedIPv4 session) else assignedIPv4Out)
               in (case reg_add (br_reg b1) session of (h, r) \<Rightarrow> (h, out, b1\<lparr>br_reg := r\<rparr>))))"

definition cancelHandshake :: "bridge \<Rightarrow> u64 \<Rightarrow> bridge" where
  "cancelHandshake b hsHandle = b\<lparr>br_hsReg := snd (hs_take (br_hsReg b) hsHandle)\<rparr>"

section \<open>The exported functions (\<^verbatim>\<open>bridge.go\<close>)\<close>

text \<open>
  \<^verbatim>\<open>C.GoBytes\<close> copies the stated number of bytes from the caller's memory, which holds at least that many. A
  scratch buffer of \<^verbatim>\<open>outCap\<close> bytes is allocated (a negative capacity panics) and the bytes
  written are copied to the caller.
\<close>

definition cc_session_new :: "bridge \<Rightarrow> bytes \<Rightarrow> bytes \<Rightarrow> int \<Rightarrow> int \<Rightarrow> u64 \<times> bridge" where
  "cc_session_new b sessionID key role capacity =
     (if role = 0 then createSession b (take 16 sessionID) (take 32 key) RoleInitiator capacity
      else if role = 1 then createSession b (take 16 sessionID) (take 32 key) RoleResponder capacity
      else (0, b))"

definition cc_handshake_begin ::
  "crypto \<Rightarrow> go_time \<Rightarrow> bytes option \<Rightarrow> bytes option \<Rightarrow> bridge \<Rightarrow> bytes \<Rightarrow> string \<Rightarrow> int \<Rightarrow> (int \<times> u64 \<times> bytes \<times> bridge) option" where
  "cc_handshake_begin C now rndID rndKey b gatewayPub token outCap =
     (if outCap < 0 then None
      else case beginHandshake C now rndID rndKey b (take 32 gatewayPub) token (replicate (nat outCap) 0) of
        (n, h, dst, b') \<Rightarrow> Some (n, h, if n < 0 then [] else take (nat n) dst, b'))"

definition cc_handshake_complete ::
  "crypto \<Rightarrow> bridge \<Rightarrow> u64 \<Rightarrow> bytes \<Rightarrow> int \<Rightarrow> u64 \<times> bytes option \<times> bridge" where
  "cc_handshake_complete C b hsHandle wire dedupCapacity =
     (case completeHandshake C b hsHandle wire dedupCapacity (replicate 4 0) of
        (handle, ip, b') \<Rightarrow> (handle, if handle \<noteq> 0 then Some ip else None, b'))"

definition cc_handshake_cancel :: "bridge \<Rightarrow> u64 \<Rightarrow> bridge" where
  "cc_handshake_cancel b hsHandle = cancelHandshake b hsHandle"

definition cc_outbound :: "crypto \<Rightarrow> bridge \<Rightarrow> u64 \<Rightarrow> bytes \<Rightarrow> int \<Rightarrow> (int \<times> bytes \<times> bridge) option" where
  "cc_outbound C b handle payload outCap =
     (if outCap < 0 then None
      else case outboundInto C b handle payload (replicate (nat outCap) 0) of
        (n, dst, b') \<Rightarrow> Some (n, if n < 0 then [] else take (nat n) dst, b'))"

definition cc_inbound :: "crypto \<Rightarrow> bridge \<Rightarrow> u64 \<Rightarrow> bytes \<Rightarrow> int \<Rightarrow> (int \<times> bytes \<times> bool \<times> bridge) option" where
  "cc_inbound C b handle wire outCap =
     (if outCap < 0 then None
      else case inboundInto C b handle wire (replicate (nat outCap) 0) of
        None \<Rightarrow> None
      | Some (n, dst, delivered, b') \<Rightarrow> Some (n, if n < 0 then [] else take (nat n) dst, delivered, b'))"

definition cc_session_free :: "bridge \<Rightarrow> u64 \<Rightarrow> bridge" where
  "cc_session_free b handle = b\<lparr>br_reg := reg_remove (br_reg b) handle\<rparr>"

section \<open>Handles\<close>

text \<open>
  What a registry promises about handles, for both registries: adding an entry names it by the successor of the last
  handle, removing one changes no other.
\<close>

locale handle_table =
  fixes next_handle :: "'r \<Rightarrow> u64"
    and entry :: "'r \<Rightarrow> u64 \<Rightarrow> 'v option"
    and add :: "'r \<Rightarrow> 'v \<Rightarrow> u64 \<times> 'r"
    and drop_entry :: "'r \<Rightarrow> u64 \<Rightarrow> 'r"
  assumes add_handle: "fst (add r v) = next_handle r + 1"
    and add_next: "next_handle (snd (add r v)) = next_handle r + 1"
    and add_entry: "entry (snd (add r v)) h = (if h = next_handle r + 1 then Some v else entry r h)"
    and drop_next: "next_handle (drop_entry r h) = next_handle r"
    and drop_entry_none: "entry (drop_entry r h) h' = (if h' = h then None else entry r h')"
begin

text \<open>No entry beyond the last handle, and no wrap-around within the next \<open>n\<close> additions.\<close>

definition live_below :: "'r \<Rightarrow> bool" where
  "live_below r \<longleftrightarrow> (\<forall>h. entry r h \<noteq> None \<longrightarrow> h \<le> next_handle r)"

lemma next_greater:
  assumes "unat (next_handle r) + 1 < 2 ^ 64"
  shows "unat (next_handle r + 1) = unat (next_handle r) + 1" "next_handle r < next_handle r + 1" "next_handle r + 1 \<noteq> 0"
proof -
  show u: "unat (next_handle r + 1) = unat (next_handle r) + 1"
    using assms by (simp add: unat_word_ariths)
  show "next_handle r < next_handle r + 1" unfolding word_less_nat_alt u by simp
  show "next_handle r + 1 \<noteq> 0" using u by (metis add_is_0 one_neq_zero unat_0)
qed

lemma add_fresh:
  assumes "live_below r" and "unat (next_handle r) + 1 < 2 ^ 64"
  shows "entry r (fst (add r v)) = None" "fst (add r v) \<noteq> 0" "live_below (snd (add r v))"
proof -
  note g = next_greater [OF assms(2)]
  show "entry r (fst (add r v)) = None"
    using assms(1) g(2) unfolding live_below_def add_handle by (metis leD)
  show "fst (add r v) \<noteq> 0" using g(3) by (simp add: add_handle)
  show "live_below (snd (add r v))"
    using assms(1) g(2) unfolding live_below_def by (auto simp: add_entry add_next split: if_splits intro: less_imp_le order_trans)
qed

lemma drop_live: "live_below r \<Longrightarrow> live_below (drop_entry r h)"
  by (auto simp: live_below_def drop_entry_none drop_next split: if_splits)

end

interpretation sess: handle_table reg_next reg_get reg_add reg_remove
  by unfold_locales (auto simp: reg_add_def reg_get_def reg_remove_def Let_def)

interpretation hand: handle_table hsr_next hsr_pending hs_add "\<lambda>r h. snd (hs_take r h)"
  by unfold_locales (auto simp: hs_add_def hs_take_def Let_def split: option.splits)

section \<open>Runs of the bridge\<close>

text \<open>A call of an exported function, with what the clock and the random source answer.\<close>

datatype bridge_op =
  OpNew bytes bytes int int
| OpBegin go_time "bytes option" "bytes option" bytes string int
| OpComplete u64 bytes int
| OpCancel u64
| OpOutbound u64 bytes int
| OpInbound u64 bytes int
| OpFree u64

text \<open>
  One call: the session handle it returned, if any, with the handshake handle it came from. A panic ends the
  process (\<^term>\<open>None\<close>).
\<close>

fun bridge_step :: "crypto \<Rightarrow> bridge \<Rightarrow> bridge_op \<Rightarrow> ((u64 \<times> u64 option) list \<times> bridge) option" where
  "bridge_step C b (OpNew sid key role cap) =
     (case cc_session_new b sid key role cap of (h, b') \<Rightarrow> Some (if h \<noteq> 0 then [(h, None)] else [], b'))"
| "bridge_step C b (OpBegin now r1 r2 pub token outCap) =
     map_option (\<lambda>(n, h, dst, b'). ([], b')) (cc_handshake_begin C now r1 r2 b pub token outCap)"
| "bridge_step C b (OpComplete g wire cap) =
     (case cc_handshake_complete C b g wire cap of (h, ip, b') \<Rightarrow> Some (if h \<noteq> 0 then [(h, Some g)] else [], b'))"
| "bridge_step C b (OpCancel g) = Some ([], cc_handshake_cancel b g)"
| "bridge_step C b (OpOutbound h p outCap) = map_option (\<lambda>(n, dst, b'). ([], b')) (cc_outbound C b h p outCap)"
| "bridge_step C b (OpInbound h w outCap) = map_option (\<lambda>(n, dst, d, b'). ([], b')) (cc_inbound C b h w outCap)"
| "bridge_step C b (OpFree h) = Some ([], cc_session_free b h)"

fun bridge_run :: "crypto \<Rightarrow> bridge \<Rightarrow> bridge_op list \<Rightarrow> ((u64 \<times> u64 option) list \<times> bridge) option" where
  "bridge_run C b [] = Some ([], b)"
| "bridge_run C b (op # ops) =
     (case bridge_step C b op of
        None \<Rightarrow> None
      | Some (ev, b1) \<Rightarrow> (case bridge_run C b1 ops of None \<Rightarrow> None | Some (evs, b2) \<Rightarrow> Some (ev @ evs, b2)))"

text \<open>Capacities are C integers; a buffer's capacity is not negative.\<close>

fun op_ok :: "bridge_op \<Rightarrow> bool" where
  "op_ok (OpNew sid key role cap) \<longleftrightarrow> cap < 2 ^ 31"
| "op_ok (OpBegin now r1 r2 pub token outCap) \<longleftrightarrow> 0 \<le> outCap"
| "op_ok (OpComplete g wire cap) \<longleftrightarrow> cap < 2 ^ 31"
| "op_ok (OpCancel g) \<longleftrightarrow> True"
| "op_ok (OpOutbound h p outCap) \<longleftrightarrow> 0 \<le> outCap"
| "op_ok (OpInbound h w outCap) \<longleftrightarrow> 0 \<le> outCap"
| "op_ok (OpFree h) \<longleftrightarrow> True"

definition br_inv :: "bridge \<Rightarrow> bool" where
  "br_inv b \<longleftrightarrow> sess.live_below (br_reg b) \<and> hand.live_below (br_hsReg b) \<and>
     (\<forall>h s. reg_get (br_reg b) h = Some s \<longrightarrow> session_inv s)"

text \<open>How one call moves the registries.\<close>

definition moved :: "bridge \<Rightarrow> (u64 \<times> u64 option) list \<Rightarrow> bridge \<Rightarrow> bool" where
  "moved b ev b' \<longleftrightarrow>
     (reg_next (br_reg b') = reg_next (br_reg b) \<and> ev = [] \<or>
      reg_next (br_reg b') = reg_next (br_reg b) + 1 \<and>
      (\<exists>g. ev = [(reg_next (br_reg b) + 1, g)] \<and>
         (\<forall>g'. g = Some g' \<longrightarrow> hsr_pending (br_hsReg b) g' \<noteq> None \<and> hsr_pending (br_hsReg b') g' = None))) \<and>
     (hsr_next (br_hsReg b') = hsr_next (br_hsReg b) \<or> hsr_next (br_hsReg b') = hsr_next (br_hsReg b) + 1) \<and>
     (\<forall>g. hsr_pending (br_hsReg b') g \<noteq> None \<longrightarrow>
        hsr_pending (br_hsReg b) g \<noteq> None \<or> g = hsr_next (br_hsReg b) + 1 \<and> hsr_next (br_hsReg b') = g)"

definition room :: "nat \<Rightarrow> bridge \<Rightarrow> bool" where
  "room n b \<longleftrightarrow> unat (reg_next (br_reg b)) + n < 2 ^ 64 \<and> unat (hsr_next (br_hsReg b)) + n < 2 ^ 64"

lemma put_session_simps [simp]:
  "reg_next (br_reg (put_session b h s)) = reg_next (br_reg b)" "br_hsReg (put_session b h s) = br_hsReg b"
  "reg_get (br_reg (put_session b h s)) h' = (if h' = h then Some s else reg_get (br_reg b) h')"
  by (simp_all add: put_session_def reg_get_def)

lemma put_session_moved: "moved b [] (put_session b h s)"
  by (simp add: moved_def)

lemma put_session_inv:
  assumes "br_inv b" and "reg_get (br_reg b) h = Some s" and "session_inv s'"
  shows "br_inv (put_session b h s')"
  using assms by (auto simp: br_inv_def sess.live_below_def)

lemma step_add:
  assumes "br_inv b" and "room 1 b" and "session_inv s" and "reg_add (br_reg b) s = (h, r)"
  shows "h \<noteq> 0" "h = reg_next (br_reg b) + 1" "reg_next r = h" "br_inv (b\<lparr>br_reg := r\<rparr>)"
    "reg_get r h' = (if h' = h then Some s else reg_get (br_reg b) h')"
proof -
  have l: "sess.live_below (br_reg b)" "unat (reg_next (br_reg b)) + 1 < 2 ^ 64" using assms(1,2) by (simp_all add: br_inv_def room_def)
  note f = sess.add_fresh [OF l, of s] and e = sess.add_entry [of "br_reg b" s] sess.add_handle [of "br_reg b" s] sess.add_next [of "br_reg b" s]
  show "h \<noteq> 0" "h = reg_next (br_reg b) + 1" "reg_next r = h" "reg_get r h' = (if h' = h then Some s else reg_get (br_reg b) h')"
    using f e unfolding assms(4) by simp_all
  have "sess.live_below r" "\<And>h'. reg_get r h' = (if h' = reg_next (br_reg b) + 1 then Some s else reg_get (br_reg b) h')"
    using f(3) e(1) unfolding assms(4) by simp_all
  then show "br_inv (b\<lparr>br_reg := r\<rparr>)" using assms(1,3) by (auto simp: br_inv_def)
qed

lemma Complete_inv:
  assumes "ClientHandshake_Complete C hs wire cap = Inr s" and "cap < 2 ^ 31"
  shows "session_inv s"
proof -
  from assms(1) obtain eph sig ip key s0 where d: "DecodeServerHello wire = Inr (hs_sessionID hs, eph, sig, ip)"
    and s: "NewSession (hs_sessionID hs) key RoleInitiator cap = Inr s0" "s = s0\<lparr>s_assignedIPv4 := ip\<rparr>"
    by (auto simp: Complete_Inr)
  have "session_inv s0" using NewSession_inv [OF s(1)] DecodeServerHello_inv(1) [OF d] assms(2) by (simp add: max_int64_def)
  then show ?thesis using DecodeServerHello_inv [OF d] by (simp add: s(2) session_inv_def)
qed

lemma cc_inbound_ok:
  assumes "br_inv b" and "0 \<le> outCap"
  shows "\<exists>n dst d b'. cc_inbound C b h w outCap = Some (n, dst, d, b') \<and> br_inv b' \<and> moved b [] b' \<and>
    (\<forall>h'. reg_get (br_reg b') h' = (if h' = h then map_option (\<lambda>s. snd (Session_Inbound C s w)) (reg_get (br_reg b) h) else reg_get (br_reg b) h'))"
proof (cases "reg_get (br_reg b) h")
  case None
  then show ?thesis using assms by (auto simp: cc_inbound_def inboundInto_def moved_def)
next
  case (Some s)
  then have inv: "session_inv s" using assms(1) by (simp add: br_inv_def)
  have inv': "session_inv (snd (Session_Inbound C s w))"
    using InboundClassified_inv [OF inv, of C w] by (auto simp: Session_Inbound_def split: prod.splits sum.splits)
  have "fst (Session_Inbound C s w) \<noteq> Inl panicIndex"
    by (rule InboundClassified_cases [OF inv, of C w]) (simp_all add: Session_Inbound_def)
  then show ?thesis
    using Some assms put_session_inv [OF assms(1) Some inv'] put_session_moved [of b h]
    by (cases "Session_Inbound C s w") (auto simp: cc_inbound_def inboundInto_def split: sum.splits)
qed

lemma cc_outbound_ok:
  assumes "br_inv b" and "0 \<le> outCap"
  shows "\<exists>n dst b'. cc_outbound C b h p outCap = Some (n, dst, b') \<and> br_inv b' \<and> moved b [] b' \<and>
    (\<forall>h'. reg_get (br_reg b') h' = (if h' = h then map_option (\<lambda>s. snd (Session_Outbound C s p)) (reg_get (br_reg b) h) else reg_get (br_reg b) h'))"
proof (cases "reg_get (br_reg b) h")
  case None
  then show ?thesis using assms by (simp add: cc_outbound_def outboundInto_def moved_def)
next
  case (Some s)
  then have inv: "session_inv s" using assms(1) by (simp add: br_inv_def)
  show ?thesis
    using Some assms put_session_inv [OF assms(1) Some Outbound_inv [OF inv, of C p]] put_session_moved [of b h]
    by (cases "Session_Outbound C s p") (auto simp: cc_outbound_def outboundInto_def split: sum.splits)
qed

lemma complete_ok:
  assumes "br_inv b" and "room 1 b" and "cap < 2 ^ 31"
  shows "\<exists>ev b'. bridge_step C b (OpComplete g wire cap) = Some (ev, b') \<and> br_inv b' \<and> moved b ev b' \<and>
    (\<forall>h'. h' \<noteq> reg_next (br_reg b) + 1 \<longrightarrow> reg_get (br_reg b') h' = reg_get (br_reg b) h')"
proof -
  define hr where "hr = snd (hs_take (br_hsReg b) g)"
  let ?b1 = "b\<lparr>br_hsReg := hr\<rparr>"
  have n: "hsr_next hr = hsr_next (br_hsReg b)" by (simp add: hr_def hand.drop_next)
  have p: "hsr_pending hr g' = (if g' = g then None else hsr_pending (br_hsReg b) g')" for g'
    unfolding hr_def by (rule hand.drop_entry_none)
  have "hand.live_below hr" using assms(1) by (simp add: br_inv_def hr_def hand.drop_live)
  then have inv1: "br_inv ?b1" and room1: "room 1 ?b1" using assms(1,2) by (simp_all add: br_inv_def room_def n)
  have m1: "moved b [] ?b1" by (simp add: moved_def n p)
  show ?thesis
  proof (cases "hsr_pending (br_hsReg b) g")
    case None
    then have "bridge_step C b (OpComplete g wire cap) = Some ([], ?b1)"
      by (simp add: cc_handshake_complete_def completeHandshake_def hr_def hs_take_def)
    then show ?thesis using inv1 m1 by auto
  next
    case (Some hs)
    then have t: "hs_take (br_hsReg b) g = (Some hs, hr)" by (simp add: hs_take_def hr_def)
    show ?thesis
    proof (cases "ClientHandshake_Complete C hs wire cap")
      case (Inl e)
      then have "bridge_step C b (OpComplete g wire cap) = Some ([], ?b1)"
        by (simp add: cc_handshake_complete_def completeHandshake_def t)
      then show ?thesis using inv1 m1 by auto
    next
      case (Inr s)
      obtain h r where a: "reg_add (br_reg ?b1) s = (h, r)" by (cases "reg_add (br_reg ?b1) s")
      note a1 = step_add [OF inv1 room1 Complete_inv [OF Inr assms(3)] a]
      have "bridge_step C b (OpComplete g wire cap) = Some ([(h, Some g)], ?b1\<lparr>br_reg := r\<rparr>)"
        using Inr a a1(1) by (simp add: cc_handshake_complete_def completeHandshake_def t)
      moreover have "moved b [(h, Some g)] (?b1\<lparr>br_reg := r\<rparr>)"
        using a1(2,3) Some by (simp add: moved_def n p)
      ultimately show ?thesis using a1(2,4,5) by auto
    qed
  qed
qed

lemma new_ok:
  assumes "br_inv b" and "room 1 b" and "cap < 2 ^ 31"
  shows "\<exists>ev b'. bridge_step C b (OpNew sid key role cap) = Some (ev, b') \<and> br_inv b' \<and> moved b ev b' \<and>
    (\<forall>h'. h' \<noteq> reg_next (br_reg b) + 1 \<longrightarrow> reg_get (br_reg b') h' = reg_get (br_reg b) h')"
proof -
  have create: "\<exists>ev b'. (case createSession b i k r cap of (h, b') \<Rightarrow> Some (if h \<noteq> 0 then [(h, None)] else [], b')) = Some (ev, b') \<and>
      br_inv b' \<and> moved b ev b' \<and> (\<forall>h'. h' \<noteq> reg_next (br_reg b) + 1 \<longrightarrow> reg_get (br_reg b') h' = reg_get (br_reg b) h')" for i k r
  proof (cases "\<exists>s. NewSessionID i = Inr i \<and> NewSession i k r cap = Inr s")
    case True
    then obtain s where s: "NewSessionID i = Inr i" "NewSession i k r cap = Inr s" by blast
    then have inv: "session_inv s" using NewSession_inv [OF s(2)] assms(3) by (simp add: NewSessionID_Inr max_int64_def)
    obtain h rg where a: "reg_add (br_reg b) s = (h, rg)" by (cases "reg_add (br_reg b) s")
    note n = step_add [OF assms(1,2) inv a]
    then show ?thesis using s a by (auto simp: createSession_def moved_def)
  next
    case False
    then have "createSession b i k r cap = (0, b)"
      by (auto simp: createSession_def NewSessionID_def split: sum.splits if_splits)
    then show ?thesis using assms(1) by (simp add: moved_def)
  qed
  show ?thesis using create assms(1) by (simp add: cc_session_new_def moved_def)
qed

lemma begin_ok:
  assumes "br_inv b" and "room 1 b" and "0 \<le> outCap"
  shows "\<exists>b'. bridge_step C b (OpBegin now r1 r2 pub token outCap) = Some ([], b') \<and> br_inv b' \<and> moved b [] b' \<and> br_reg b' = br_reg b"
proof -
  let ?res = "beginHandshake C now r1 r2 b (take 32 pub) token (replicate (nat outCap) 0)"
  let ?b' = "snd (snd (snd ?res))"
  have cases: "?b' = b \<or> (\<exists>hs. ?b' = b\<lparr>br_hsReg := snd (hs_add (br_hsReg b) hs)\<rparr>)"
    by (simp add: beginHandshake_def split_beta split: sum.split) blast
  have "br_inv ?b' \<and> moved b [] ?b' \<and> br_reg ?b' = br_reg b"
    using cases
  proof
    assume "\<exists>hs. ?b' = b\<lparr>br_hsReg := snd (hs_add (br_hsReg b) hs)\<rparr>"
    then obtain hs where b': "?b' = b\<lparr>br_hsReg := snd (hs_add (br_hsReg b) hs)\<rparr>" ..
    have "hand.live_below (snd (hs_add (br_hsReg b) hs))"
      using assms(1,2) by (intro hand.add_fresh) (simp_all add: br_inv_def room_def)
    then show ?thesis unfolding b' using assms(1) by (simp add: br_inv_def moved_def hand.add_entry hand.add_next)
  qed (use assms(1) in \<open>simp add: moved_def\<close>)
  then show ?thesis using assms(3) by (cases ?res) (auto simp: cc_handshake_begin_def)
qed

text \<open>What a call does to the session under a handle that was issued before it.\<close>

fun op_effect :: "crypto \<Rightarrow> u64 \<Rightarrow> Session option \<Rightarrow> bridge_op \<Rightarrow> Session option" where
  "op_effect C h os (OpOutbound h0 p _) = (if h0 = h then map_option (\<lambda>s. snd (Session_Outbound C s p)) os else os)"
| "op_effect C h os (OpInbound h0 w _) = (if h0 = h then map_option (\<lambda>s. snd (Session_Inbound C s w)) os else os)"
| "op_effect C h os (OpFree h0) = (if h0 = h then None else os)"
| "op_effect C h os _ = os"

lemma step_ok:
  assumes "br_inv b" and "room 1 b" and "op_ok op"
  shows "\<exists>ev b'. bridge_step C b op = Some (ev, b') \<and> br_inv b' \<and> moved b ev b' \<and>
    (\<forall>h. h \<noteq> reg_next (br_reg b) + 1 \<longrightarrow> reg_get (br_reg b') h = op_effect C h (reg_get (br_reg b) h) op)"
proof (cases op)
  case (OpCancel g)
  have "moved b [] (cc_handshake_cancel b g)" "br_inv (cc_handshake_cancel b g)"
    using assms(1) by (auto simp: cc_handshake_cancel_def cancelHandshake_def moved_def br_inv_def hand.drop_next hand.drop_entry_none
        hand.drop_live)
  then show ?thesis using OpCancel by (auto simp: cc_handshake_cancel_def cancelHandshake_def)
next
  case (OpFree h)
  have "moved b [] (cc_session_free b h)" "br_inv (cc_session_free b h)"
    using assms(1) by (auto simp: cc_session_free_def moved_def br_inv_def sess.drop_next sess.drop_entry_none sess.drop_live split: if_splits)
  then show ?thesis using OpFree by (auto simp: cc_session_free_def sess.drop_entry_none)
next
  case (OpNew sid key role cap)
  with new_ok [OF assms(1,2)] assms(3) show ?thesis by simp
next
  case (OpComplete g wire cap)
  with complete_ok [OF assms(1,2)] assms(3) show ?thesis by simp
next
  case (OpBegin now r1 r2 pub token outCap)
  then have "0 \<le> outCap" using assms(3) by simp
  from begin_ok [OF assms(1,2) this, of C now r1 r2 pub token] show ?thesis unfolding OpBegin by (metis op_effect.simps(5))
next
  case (OpOutbound h p outCap)
  then have "0 \<le> outCap" using assms(3) by simp
  from cc_outbound_ok [OF assms(1) this, of C h p] show ?thesis using OpOutbound by auto
next
  case (OpInbound h w outCap)
  then have "0 \<le> outCap" using assms(3) by simp
  from cc_inbound_ok [OF assms(1) this, of C h w] show ?thesis using OpInbound by auto
qed

lemma moved_room:
  assumes "moved b ev b'" and "room (Suc n) b"
  shows "room n b'" "reg_next (br_reg b) \<le> reg_next (br_reg b')" "hsr_next (br_hsReg b) \<le> hsr_next (br_hsReg b')"
    "reg_next (br_reg b) < reg_next (br_reg b) + 1" "hsr_next (br_hsReg b) < hsr_next (br_hsReg b) + 1"
proof -
  have l: "unat (reg_next (br_reg b)) + 1 < 2 ^ 64" "unat (hsr_next (br_hsReg b)) + 1 < 2 ^ 64" using assms(2) by (simp_all add: room_def)
  note g = sess.next_greater [OF l(1)] hand.next_greater [OF l(2)]
  show "reg_next (br_reg b) < reg_next (br_reg b) + 1" "hsr_next (br_hsReg b) < hsr_next (br_hsReg b) + 1"
    using g(2,5) by simp_all
  then show "reg_next (br_reg b) \<le> reg_next (br_reg b')" "hsr_next (br_hsReg b) \<le> hsr_next (br_hsReg b')"
    using assms(1) unfolding moved_def by (metis order.strict_implies_order order_refl)+
  have "unat (reg_next (br_reg b')) \<le> unat (reg_next (br_reg b)) + 1" "unat (hsr_next (br_hsReg b')) \<le> unat (hsr_next (br_hsReg b)) + 1"
    using assms(1) g(1,4) unfolding moved_def by (metis le_add1 order_refl)+
  then show "room n b'" using assms(2) by (simp add: room_def)
qed

definition handshake_of :: "(u64 \<times> u64 option) list \<Rightarrow> u64 list" where
  "handshake_of evs = List.map_filter snd evs"

lemma in_handshake_of: "g \<in> set (handshake_of evs) \<longleftrightarrow> (\<exists>h. (h, Some g) \<in> set evs)"
  by (force simp: handshake_of_def List.map_filter_def)

lemma run_ok:
  assumes "br_inv b" and "room (length ops + n) b" and "list_all op_ok ops"
  shows "\<exists>evs b'. bridge_run C b ops = Some (evs, b') \<and> br_inv b' \<and> room n b' \<and> reg_next (br_reg b) \<le> reg_next (br_reg b') \<and>
    (\<forall>h \<in> set (map fst evs). reg_next (br_reg b) < h \<and> h \<le> reg_next (br_reg b')) \<and> distinct (map fst evs) \<and>
    (\<forall>g \<in> set (handshake_of evs). hsr_pending (br_hsReg b) g \<noteq> None \<or> hsr_next (br_hsReg b) < g) \<and> distinct (handshake_of evs) \<and>
    (\<forall>h. h \<le> reg_next (br_reg b) \<longrightarrow> reg_get (br_reg b') h = foldl (op_effect C h) (reg_get (br_reg b) h) ops)"
  using assms
proof (induction ops arbitrary: b)
  case Nil
  then show ?case by (simp add: handshake_of_def List.map_filter_def)
next
  case (Cons op ops)
  from Cons.prems have r1: "room 1 b" and ok: "op_ok op" "list_all op_ok ops" by (auto simp: room_def)
  from step_ok [OF Cons.prems(1) r1 ok(1), of C] obtain ev b1 where
    s: "bridge_step C b op = Some (ev, b1)" "br_inv b1" and m: "moved b ev b1"
    and e: "\<And>h. h \<noteq> reg_next (br_reg b) + 1 \<Longrightarrow> reg_get (br_reg b1) h = op_effect C h (reg_get (br_reg b) h) op" by blast
  have room: "room (Suc (length ops + n)) b" using Cons.prems(2) by simp
  note mr = moved_room [OF m room]
  from Cons.IH [OF s(2) mr(1) ok(2)] obtain evs b2 where
    r: "bridge_run C b1 ops = Some (evs, b2)" "br_inv b2" "room n b2" "reg_next (br_reg b1) \<le> reg_next (br_reg b2)"
    and h: "\<And>h. h \<in> set (map fst evs) \<Longrightarrow> reg_next (br_reg b1) < h \<and> h \<le> reg_next (br_reg b2)" "distinct (map fst evs)"
    and g: "\<And>g. g \<in> set (handshake_of evs) \<Longrightarrow> hsr_pending (br_hsReg b1) g \<noteq> None \<or> hsr_next (br_hsReg b1) < g" "distinct (handshake_of evs)"
    and f: "\<And>h. h \<le> reg_next (br_reg b1) \<Longrightarrow> reg_get (br_reg b2) h = foldl (op_effect C h) (reg_get (br_reg b1) h) ops" by blast
  have run: "bridge_run C b (op # ops) = Some (ev @ evs, b2)" using s(1) r(1) by simp
  have ev: "ev = [] \<or> (\<exists>x. ev = [(reg_next (br_reg b) + 1, x)] \<and> reg_next (br_reg b1) = reg_next (br_reg b) + 1)"
    using m unfolding moved_def by blast
  have "reg_next (br_reg b1) \<notin> set (map fst evs)" using h(1) by blast
  then have "distinct (map fst ev @ map fst evs)" using ev h(2) by (elim disjE exE conjE) simp_all
  moreover have "\<forall>h \<in> set (map fst ev). reg_next (br_reg b) < h \<and> h \<le> reg_next (br_reg b2)"
    using ev r(4) mr(4) by (elim disjE exE conjE) simp_all
  moreover have "\<forall>h \<in> set (map fst evs). reg_next (br_reg b) < h \<and> h \<le> reg_next (br_reg b2)"
    using h(1) mr(2) by (meson le_less_trans)
  ultimately have "\<forall>h \<in> set (map fst (ev @ evs)). reg_next (br_reg b) < h \<and> h \<le> reg_next (br_reg b2)"
    "distinct (map fst (ev @ evs))" by (simp_all only: map_append set_append ball_Un) 
  note h' = this order_trans [OF mr(2) r(4)]
  have old: "hsr_pending (br_hsReg b) x \<noteq> None \<or> hsr_next (br_hsReg b) < x" if "x \<in> set (handshake_of evs)" for x
    using g(1) [OF that] m mr(3,5) unfolding moved_def by (metis le_less_trans)
  have new: "hsr_pending (br_hsReg b) x \<noteq> None \<and> hsr_pending (br_hsReg b1) x = None" if "x \<in> set (handshake_of ev)" for x
    using that m unfolding moved_def in_handshake_of by fastforce
  have app: "handshake_of (ev @ evs) = handshake_of ev @ handshake_of evs" by (simp add: handshake_of_def List.map_filter_def)
  have "hand.live_below (br_hsReg b)" using Cons.prems(1) by (simp add: br_inv_def)
  then have "x \<le> hsr_next (br_hsReg b1)" if "x \<in> set (handshake_of ev)" for x
    using new [OF that] mr(3) unfolding hand.live_below_def by (meson order_trans)
  with new g(1) have "set (handshake_of ev) \<inter> set (handshake_of evs) = {}" by (meson disjoint_iff leD)
  moreover have "distinct (handshake_of ev)" using ev by (auto simp: handshake_of_def List.map_filter_def)
  ultimately have g': "\<forall>x \<in> set (handshake_of (ev @ evs)). hsr_pending (br_hsReg b) x \<noteq> None \<or> hsr_next (br_hsReg b) < x"
    "distinct (handshake_of (ev @ evs))" using old new g(2) unfolding app by auto
  have "reg_get (br_reg b2) x = foldl (op_effect C x) (reg_get (br_reg b) x) (op # ops)" if "x \<le> reg_next (br_reg b)" for x
    using f [of x] e [of x] that mr(2,4) by (metis foldl_Cons leD order_trans)
  with run r(2,3) h' g' show ?case by blast
qed

lemma bridge_start_ok: "br_inv bridge_start" "length ops < 2 ^ 64 \<Longrightarrow> room (length ops) bridge_start"
  by (simp_all add: br_inv_def bridge_start_def newRegistry_def newHSRegistry_def sess.live_below_def hand.live_below_def reg_get_def room_def)

section \<open>Properties\<close>



text \<open>The handle a call works on.\<close>

fun op_handle :: "bridge_op \<Rightarrow> u64 option" where
  "op_handle (OpOutbound h _ _) = Some h"
| "op_handle (OpInbound h _ _) = Some h"
| "op_handle (OpFree h) = Some h"
| "op_handle _ = None"

lemma op_effect_other: "op_handle op \<noteq> Some h \<Longrightarrow> op_effect C h os op = os"
  by (cases op) auto

lemma foldl_own_ops: "foldl (op_effect C h) os ops = foldl (op_effect C h) os (filter (\<lambda>op. op_handle op = Some h) ops)"
  by (induction ops arbitrary: os) (auto simp: op_effect_other)

text \<open>
  C33. Every handle behaves as a session of its own: after any further calls, the session under an issued handle
  is what the sends, receives and the release that named this handle made of it; calls on other handles, new
  sessions and handshakes in between have no effect on it.
\<close>

theorem bridge_refines_sessions:
  assumes "bridge_run C bridge_start ops = Some (evs, b)" and "h \<in> set (map fst evs)"
    and "length (ops @ ops') < 2 ^ 64" and "list_all op_ok (ops @ ops')"
  shows "\<exists>evs' b'. bridge_run C b ops' = Some (evs', b') \<and>
     reg_get (br_reg b') h = foldl (op_effect C h) (reg_get (br_reg b) h) (filter (\<lambda>op. op_handle op = Some h) ops')"
proof -
  have "room (length ops + length ops') bridge_start" using bridge_start_ok(2) [OF assms(3)] by simp
  from run_ok [OF bridge_start_ok(1) this, of C] assms(1,2,4)
  have b: "br_inv b" "room (length ops' + 0) b" "h \<le> reg_next (br_reg b)" by auto
  from run_ok [OF b(1,2), of C] assms(4) b(3) show ?thesis using foldl_own_ops [of C h _ ops'] by auto
qed

lemma demo_new: "bridge_run demo_crypto bridge_start [OpNew demo_sid demo_key 0 100] =
    Some ([(1, None)], bridge_start\<lparr>br_reg := \<lparr>reg_next = 1, reg_sessions = [1 \<mapsto> demo_session RoleInitiator]\<rparr>\<rparr>)"
  using demo_session_new [of RoleInitiator] demo_sid_wf(1)
  by (simp add: cc_session_new_def createSession_def reg_add_def bridge_start_def newRegistry_def NewSessionID_def wf_session_def
      SessionIDSize_def demo_sid_def demo_key_def)

theorem bridge_refines_sessions_witness:
  "\<exists>b evs' b'. bridge_run demo_crypto bridge_start [OpNew demo_sid demo_key 0 100] = Some ([(1, None)], b) \<and>
     bridge_run demo_crypto b [OpOutbound 1 [7] 1500, OpNew demo_sid demo_key 1 100, OpInbound 2 [] 10] = Some (evs', b') \<and>
     reg_get (br_reg b') 1 = Some (snd (Session_Outbound demo_crypto (demo_session RoleInitiator) [7]))"
proof -
  let ?b = "bridge_start\<lparr>br_reg := \<lparr>reg_next = 1, reg_sessions = [1 \<mapsto> demo_session RoleInitiator]\<rparr>\<rparr>"
  have "reg_get (br_reg ?b) 1 = Some (demo_session RoleInitiator)" by (simp add: reg_get_def)
  moreover have "\<exists>evs' b'. bridge_run demo_crypto ?b [OpOutbound 1 [7] 1500, OpNew demo_sid demo_key 1 100, OpInbound 2 [] 10] = Some (evs', b') \<and>
     reg_get (br_reg b') 1 = foldl (op_effect demo_crypto 1) (reg_get (br_reg ?b) 1)
       (filter (\<lambda>op. op_handle op = Some 1) [OpOutbound 1 [7] 1500, OpNew demo_sid demo_key 1 100, OpInbound 2 [] 10])"
    by (rule bridge_refines_sessions [OF demo_new]) simp_all
  ultimately show ?thesis using demo_new by (simp del: bridge_run.simps)
qed

text \<open>
  C34. A receive into a buffer that is too small loses the packet: the call reports the buffer error and does not
  deliver, but the session has already recorded the packet number, so that no later receive of this datagram on
  the handle delivers it, however large the buffer and whatever else was received in between.
\<close>

theorem small_buffer_loses_packet:
  assumes "br_inv b" and "inboundInto C b h wire out = Some (- errCodeBufferSize, out', d, b1)"
    and "bridge_run C b1 (map (\<lambda>w. OpInbound h w 65535) ws) = Some (evs, b2)"
    and "inboundInto C b2 h wire out2 = Some (n, out3, deliver, b3)"
    and "reg_get (br_reg b) h = Some s" and "fst (Session_Inbound C s wire) = Inr (p, True)"
  shows "\<not> d \<and> \<not> deliver"
proof -
  from assms(2,5,6) have d: "\<not> d" and b1: "b1 = put_session b h (snd (Session_Inbound C s wire))"
    by (cases "Session_Inbound C s wire"; auto simp: inboundInto_def errCodeBufferSize_def split: if_splits)+
  have inv: "session_inv s" using assms(1,5) by (simp add: br_inv_def)
  let ?st = "session_step C"
  have step: "snd (?st s' w) = snd (Session_Inbound C s' w)" for s' w by (simp add: session_step_def split_beta)
  have s1: "reg_get (br_reg b1) h = Some (snd (?st s wire))" by (simp add: b1 step)
  have run: "bridge_run C b' (map (\<lambda>w. OpInbound h w 65535) ws) = Some (evs, b2) \<Longrightarrow> reg_get (br_reg b') h = Some s' \<Longrightarrow>
     reg_get (br_reg b2) h = Some (final_state ?st s' ws)" for b' s' evs
  proof (induction ws arbitrary: b' s' evs)
    case (Cons w ws)
    then show ?case by (auto simp: cc_inbound_def inboundInto_def step split: option.splits sum.splits prod.splits if_splits)
  qed simp
  from run [OF assms(3) s1] have s2: "reg_get (br_reg b2) h = Some (final_state ?st (snd (?st s wire)) ws)" .
  have "fst (?st s wire)" using assms(6) by (simp add: session_step_def split_beta)
  then have "wire_number wire \<notin> set (map wire_number (accepted_run ?st (snd (?st s wire)) (ws @ [wire])))"
    using session_once.accepted_distinct [OF inv, of C "wire # ws @ [wire]"] by (auto simp: Let_def split_beta)
  moreover have "accepted_run ?st s' (ws @ [wire]) = accepted_run ?st s' ws @ (if fst (?st (final_state ?st s' ws) wire) then [wire] else [])" for s'
    by (induction ws arbitrary: s') (simp_all add: Let_def split_beta)
  ultimately have "\<not> fst (?st (final_state ?st (snd (?st s wire)) ws) wire)" by auto
  with s2 assms(4) d show ?thesis
    by (cases "Session_Inbound C (final_state ?st (snd (?st s wire)) ws) wire")
       (auto simp: inboundInto_def session_step_def split: if_splits sum.splits)
qed

definition demo_bridge :: bridge where
  "demo_bridge = bridge_start\<lparr>br_reg := \<lparr>reg_next = 1, reg_sessions = [1 \<mapsto> demo_session RoleResponder]\<rparr>\<rparr>"

lemma demo_bridge_ok: "br_inv demo_bridge" "reg_get (br_reg demo_bridge) 1 = Some (demo_session RoleResponder)"
  by (auto simp: demo_bridge_def br_inv_def bridge_start_def newHSRegistry_def sess.live_below_def hand.live_below_def reg_get_def
      split: if_splits)

theorem small_buffer_loses_packet_witness:
  "\<exists>wire d b1 n out3 deliver b3. inboundInto demo_crypto demo_bridge 1 wire [] = Some (- errCodeBufferSize, [], d, b1) \<and>
     inboundInto demo_crypto b1 1 wire (replicate 1500 0) = Some (n, out3, deliver, b3) \<and> \<not> deliver"
proof -
  let ?s = "demo_session RoleResponder" and ?w = "frame demo_crypto demo_key demo_sid dirInitiator 4 [1, 2]"
  have "frame demo_crypto demo_key demo_sid (peerDir RoleResponder) 4 [1, 2] = ?w" by (simp add: peerDir_def)
  then have first: "fst (Session_Inbound demo_crypto ?s ?w) = Inr ([1, 2], True)"
    using fresh_frame_delivered [OF _ _ demo_session_new, of demo_crypto "[]" RoleResponder 4 "[1, 2]"] by (simp add: max_int64_def)
  then obtain s' where s': "Session_Inbound demo_crypto ?s ?w = (Inr ([1, 2], True), s')" by (cases "Session_Inbound demo_crypto ?s ?w") simp
  let ?b1 = "put_session demo_bridge 1 s'"
  have r1: "inboundInto demo_crypto demo_bridge 1 ?w [] = Some (- errCodeBufferSize, [], False, ?b1)"
    by (simp add: inboundInto_def demo_bridge_ok s')
  have "session_inv s'" using session_once.inv_step [of ?s demo_crypto ?w] s' by (simp add: session_step_def)
  then have "br_inv ?b1" by (rule put_session_inv [OF demo_bridge_ok])
  from cc_inbound_ok [OF this, of 1500 demo_crypto 1 ?w] obtain n out3 deliver b3 where
    r2: "inboundInto demo_crypto ?b1 1 ?w (replicate 1500 0) = Some (n, out3, deliver, b3)"
    by (auto simp: cc_inbound_def split: option.splits)
  have "bridge_run demo_crypto ?b1 (map (\<lambda>w. OpInbound 1 w 65535) []) = Some ([], ?b1)" by simp
  from small_buffer_loses_packet [OF demo_bridge_ok(1) r1 this r2 demo_bridge_ok(2) first] r1 r2 show ?thesis by blast
qed

end
