(* ===== verification/Tun_Device.thy ===== *)
theory Tun_Device
  imports Gemina_Prelude
begin

text \<open>
  Opening the exit device: \<^verbatim>\<open>internal/exit/tun_linux.go\<close>. What the kernel answers is a record of
  arguments, what is asked of it the list of calls; reading, writing and closing the device are calls of the
  kernel alone. The stub of the other platforms, \<^verbatim>\<open>tun_other.go\<close>, is the error of every call.
\<close>

section \<open>The code\<close>

definition tunsetiff :: u64 where "tunsetiff = 0x400454ca"
definition siocsifmtu :: u64 where "siocsifmtu = 0x8922"
definition ifReqSize :: nat where "ifReqSize = 40"

datatype tun_call = OpenDevNetTun | Ioctl u64 bytes | OpenSocket | CloseSocket | CloseTun

datatype tun_error =
    TunOpen string
  | TunSetIff string string
  | TunMTU string mtu_error
  | TunUnsupported
and mtu_error = SocketFailed string | MTUErrno string | NotFoundAfter string

text \<open>
  \<open>tk_mtu\<close> is what \<^verbatim>\<open>net.InterfaceByName\<close> finds before the MTU is set, \<open>tk_visible\<close> whether it finds the
  interface afterwards; the other fields are the error of a call, if it fails.
\<close>

record tun_kernel =
  tk_open :: "string option"
  tk_setiff :: "bytes \<Rightarrow> string option"
  tk_mtu :: "string \<Rightarrow> int option"
  tk_socket :: "string option"
  tk_setmtu :: "bytes \<Rightarrow> string option"
  tk_visible :: "string \<Rightarrow> string option"

text \<open>\<^verbatim>\<open>copy(ifr[:16], name)\<close> on a zeroed array.\<close>

definition ifreq_name :: "string \<Rightarrow> bytes" where
  "ifreq_name name = take 16 (str_bytes name) @ replicate (16 - length name) 0"

definition tun_ifr :: "string \<Rightarrow> bytes" where
  "tun_ifr name =
     (let iffTun = (0x0001 :: u16); iffNoPI = 0x1000; flags = iffTun OR iffNoPI
      in ifreq_name name @ [ucast flags, ucast (drop_bit 8 flags)] @ replicate (ifReqSize - 18) 0)"

definition tunSetIff :: "tun_kernel \<Rightarrow> string \<Rightarrow> (string, unit) result \<times> tun_call list" where
  "tunSetIff K name =
     (case tk_setiff K (tun_ifr name) of
        Some errno \<Rightarrow> (Inl errno, [Ioctl tunsetiff (tun_ifr name)])
      | None \<Rightarrow> (Inr (), [Ioctl tunsetiff (tun_ifr name)]))"

definition mtu_ifr :: "string \<Rightarrow> int \<Rightarrow> bytes" where
  "mtu_ifr name mtu =
     (let m = (word_of_int mtu :: u32)
      in ifreq_name name @ [ucast m, ucast (drop_bit 8 m), ucast (drop_bit 16 m), ucast (drop_bit 24 m)] @
         replicate (ifReqSize - 20) 0)"

definition setMTU :: "tun_kernel \<Rightarrow> string \<Rightarrow> int \<Rightarrow> (mtu_error, unit) result \<times> tun_call list" where
  "setMTU K name mtu =
     (if tk_mtu K name = Some mtu then (Inr (), [])
      else case tk_socket K of
        Some e \<Rightarrow> (Inl (SocketFailed e), [OpenSocket])
      | None \<Rightarrow>
          let calls = [OpenSocket, Ioctl siocsifmtu (mtu_ifr name mtu), CloseSocket] in
          (case tk_setmtu K (mtu_ifr name mtu) of
             Some errno \<Rightarrow> (Inl (MTUErrno errno), calls)
           | None \<Rightarrow>
               (case tk_visible K name of
                  Some e \<Rightarrow> (Inl (NotFoundAfter e), calls)
                | None \<Rightarrow> (Inr (), calls))))"

definition OpenTUN :: "tun_kernel \<Rightarrow> string \<Rightarrow> int \<Rightarrow> (tun_error, unit) result \<times> tun_call list" where
  "OpenTUN K name mtu =
     (case tk_open K of
        Some e \<Rightarrow> (Inl (TunOpen e), [OpenDevNetTun])
      | None \<Rightarrow>
          (case tunSetIff K name of
             (Inl errno, c1) \<Rightarrow> (Inl (TunSetIff name errno), OpenDevNetTun # c1 @ [CloseTun])
           | (Inr _, c1) \<Rightarrow>
               (case setMTU K name mtu of
                  (Inl e, c2) \<Rightarrow> (Inl (TunMTU name e), OpenDevNetTun # c1 @ c2 @ [CloseTun])
                | (Inr _, c2) \<Rightarrow> (Inr (), OpenDevNetTun # c1 @ c2))))"

text \<open>On other platforms.\<close>

definition OpenTUN_other :: "string \<Rightarrow> int \<Rightarrow> (tun_error, unit) result" where
  "OpenTUN_other name mtu = Inl TunUnsupported"

section \<open>Requests\<close>

text \<open>How the kernel reads a request: a name up to the first zero byte, and a little-endian number after it.\<close>

definition req_name :: "bytes \<Rightarrow> string" where
  "req_name b = bytes_str (takeWhile (\<lambda>x. x \<noteq> 0) (take 16 b))"

definition req_le16 :: "bytes \<Rightarrow> u16" where
  "req_le16 b = ucast (b ! 16) OR push_bit 8 (ucast (b ! 17))"

definition req_le32 :: "bytes \<Rightarrow> u32" where
  "req_le32 b = ucast (b ! 16) OR push_bit 8 (ucast (b ! 17)) OR push_bit 16 (ucast (b ! 18)) OR push_bit 24 (ucast (b ! 19))"

lemma length_ifreq_name [simp]: "length (ifreq_name name) = 16"
  by (simp add: ifreq_name_def)

lemma req_name_ifreq:
  assumes "length name \<le> 15" and "CHR 0x00 \<notin> set name"
  shows "req_name (ifreq_name name @ rest) = name"
proof -
  have nz: "0 \<notin> set (str_bytes name)"
  proof
    assume "0 \<in> set (str_bytes name)"
    then have "char_of (unat (0 :: byte)) \<in> set (bytes_str (str_bytes name))" unfolding bytes_str_def set_map by (rule imageI)
    then show False using assms(2) by (simp add: char_of_def)
  qed
  have "takeWhile (\<lambda>x. x \<noteq> 0) (str_bytes name @ replicate (16 - length name) 0) = str_bytes name"
    using nz assms(1) by (subst takeWhile_append2) (auto simp: takeWhile_replicate)
  then show ?thesis using assms(1) by (simp add: req_name_def ifreq_name_def)
qed

lemma tun_ifr_request:
  "length (tun_ifr name) = ifReqSize" "req_le16 (tun_ifr name) = 0x1001"
  by (simp_all add: tun_ifr_def Let_def ifReqSize_def req_le16_def nth_append)

lemma le32_bytes: "(ucast (ucast m :: byte) OR push_bit 8 (ucast (ucast (drop_bit 8 m) :: byte)) OR
    push_bit 16 (ucast (ucast (drop_bit 16 m) :: byte)) OR push_bit 24 (ucast (ucast (drop_bit 24 m) :: byte)) :: u32) = m"
proof (rule bit_word_eqI)
  fix n
  assume "n < LENGTH(32)"
  then consider "n < 8" | "8 \<le> n" "n < 16" | "16 \<le> n" "n < 24" | "24 \<le> n" "n < 32" by fastforce
  then show "bit (ucast (ucast m :: byte) OR push_bit 8 (ucast (ucast (drop_bit 8 m) :: byte)) OR
    push_bit 16 (ucast (ucast (drop_bit 16 m) :: byte)) OR push_bit 24 (ucast (ucast (drop_bit 24 m) :: byte)) :: u32) n = bit m n"
    by cases (auto simp: bit_simps)
qed

lemma mtu_ifr_request:
  "length (mtu_ifr name mtu) = ifReqSize" "req_le32 (mtu_ifr name mtu) = word_of_int mtu"
  by (simp_all add: mtu_ifr_def Let_def ifReqSize_def req_le32_def nth_append le32_bytes)

section \<open>Property\<close>

text \<open>
  C24. Opening the device: it succeeds exactly when every call it makes succeeds; a failure after the device was
  opened closes it again, once, and the auxiliary socket is closed on every path that opened it. Requests are 40
  bytes, ask for a raw IP device under the given name (when it fits the kernel's 15 characters), and for the given
  MTU modulo \<open>2 ^ 32\<close>; the privileged MTU request is not made when the interface already has that MTU.
\<close>

theorem open_tun_exact:
  assumes "OpenTUN K name mtu = (res, calls)"
  shows "(res = Inr () \<longleftrightarrow> tk_open K = None \<and> tk_setiff K (tun_ifr name) = None \<and>
       (tk_mtu K name = Some mtu \<or>
        tk_socket K = None \<and> tk_setmtu K (mtu_ifr name mtu) = None \<and> tk_visible K name = None)) \<and>
     count_list calls CloseTun = (if res = Inr () \<or> tk_open K \<noteq> None then 0 else 1) \<and>
     count_list calls CloseSocket = (if tk_socket K = None then count_list calls OpenSocket else 0) \<and>
     (\<forall>req b. Ioctl req b \<in> set calls \<longrightarrow> length b = ifReqSize \<and>
        (length name \<le> 15 \<and> CHR 0x00 \<notin> set name \<longrightarrow> req_name b = name) \<and>
        (req = tunsetiff \<and> req_le16 b = 0x1001 \<or>
         req = siocsifmtu \<and> req_le32 b = word_of_int mtu \<and> tk_mtu K name \<noteq> Some mtu))"
proof -
  have names: "length name \<le> 15 \<and> CHR 0x00 \<notin> set name \<longrightarrow> req_name (tun_ifr name) = name \<and> req_name (mtu_ifr name mtu) = name"
    using req_name_ifreq by (simp add: tun_ifr_def mtu_ifr_def Let_def)
  have iff: "tunSetIff K name = (case tk_setiff K (tun_ifr name) of Some e \<Rightarrow> Inl e | None \<Rightarrow> Inr (), [Ioctl tunsetiff (tun_ifr name)])"
    by (simp add: tunSetIff_def split: option.splits)
  have mtu: "Ioctl req b \<in> set (snd (setMTU K name mtu)) \<Longrightarrow>
      req = siocsifmtu \<and> b = mtu_ifr name mtu \<and> tk_mtu K name \<noteq> Some mtu" for req b
    by (auto simp: setMTU_def Let_def split: if_splits option.splits)
  have sock: "count_list (snd (setMTU K name mtu)) CloseSocket =
        (if tk_socket K = None then count_list (snd (setMTU K name mtu)) OpenSocket else 0)"
    "count_list (snd (setMTU K name mtu)) CloseTun = 0"
    "fst (setMTU K name mtu) = Inr () \<longleftrightarrow> tk_mtu K name = Some mtu \<or>
       tk_socket K = None \<and> tk_setmtu K (mtu_ifr name mtu) = None \<and> tk_visible K name = None"
    by (auto simp: setMTU_def Let_def split: option.splits)
  show ?thesis
  proof (cases "tk_open K = None \<and> tk_setiff K (tun_ifr name) = None")
    case True
    obtain r c2 where m: "setMTU K name mtu = (r, c2)" by fastforce
    have c: "calls = OpenDevNetTun # Ioctl tunsetiff (tun_ifr name) # c2 @ (if r = Inr () then [] else [CloseTun])" "res = Inr () \<longleftrightarrow> r = Inr ()"
      using assms True m by (auto simp: OpenTUN_def iff split: sum.splits)
    have "length b = ifReqSize \<and> (length name \<le> 15 \<and> CHR 0x00 \<notin> set name \<longrightarrow> req_name b = name) \<and>
        (req = tunsetiff \<and> req_le16 b = 0x1001 \<or> req = siocsifmtu \<and> req_le32 b = word_of_int mtu \<and> tk_mtu K name \<noteq> Some mtu)"
      if "Ioctl req b \<in> set calls" for req b
    proof (cases "Ioctl req b \<in> set c2")
      case True
      with mtu [of req b] names mtu_ifr_request [of name mtu] show ?thesis by (simp add: m)
    next
      case False
      with that have "req = tunsetiff" "b = tun_ifr name" by (simp_all add: c(1) split: if_splits)
      with names tun_ifr_request [of name] show ?thesis by simp
    qed
    moreover have "count_list calls CloseTun = (if res = Inr () then 0 else 1)" using sock(2) by (simp add: c m)
    moreover have "count_list calls CloseSocket = (if tk_socket K = None then count_list calls OpenSocket else 0)"
      using sock(1) by (simp add: c(1) m)
    ultimately show ?thesis using True sock(3) by (simp add: c(2) m)
  next
    case False
    with assms names tun_ifr_request [of name] show ?thesis by (auto simp: OpenTUN_def iff split: option.splits)
  qed
qed

definition demo_tun :: tun_kernel where
  "demo_tun = \<lparr>tk_open = None, tk_setiff = (\<lambda>_. None), tk_mtu = (\<lambda>_. Some 1500), tk_socket = None,
     tk_setmtu = (\<lambda>_. Some ''EPERM''), tk_visible = (\<lambda>_. None)\<rparr>"

theorem open_tun_exact_witness:
  "fst (OpenTUN demo_tun ''gemina0'' 1280) \<noteq> Inr () \<and> count_list (snd (OpenTUN demo_tun ''gemina0'' 1280)) CloseTun = 1 \<and>
   fst (OpenTUN demo_tun ''gemina0'' 1500) = Inr ()"
  using open_tun_exact [of demo_tun "''gemina0''" 1280 "fst (OpenTUN demo_tun ''gemina0'' 1280)" "snd (OpenTUN demo_tun ''gemina0'' 1280)"]
    open_tun_exact [of demo_tun "''gemina0''" 1500 "fst (OpenTUN demo_tun ''gemina0'' 1500)" "snd (OpenTUN demo_tun ''gemina0'' 1500)"]
  by (simp add: demo_tun_def)

text \<open>A configured MTU of more than 32 bits is not refused but asks for another one.\<close>

lemma mtu_wraps: "mtu_ifr name (2 ^ 32 + mtu) = mtu_ifr name mtu"
proof -
  have "(word_of_int (2 ^ 32 + mtu) :: u32) = word_of_int mtu" by (simp add: word_of_int_eq_iff take_bit_eq_mod)
  then show ?thesis unfolding mtu_ifr_def Let_def by (simp only:)
qed

end
