(* ===== verification/Startup.thy ===== *)
theory Startup
  imports Go_Text Data_Gateway Probe_Server Tun_Device
begin

text \<open>
  Starting the data gateway: \<^verbatim>\<open>cmd/gateway/main.go\<close>, \<^verbatim>\<open>privdrop.go\<close>, \<^verbatim>\<open>internal/gateway/identity.go\<close> and
  \<^verbatim>\<open>internal/exit/nat_linux.go\<close>. The kernel, the file system and the network are arguments; the order of
  the steps and the state of the process at each of them is explicit.
\<close>

section \<open>Configuration\<close>

definition envOr :: "(string \<Rightarrow> string) \<Rightarrow> string \<Rightarrow> string \<Rightarrow> string" where
  "envOr env key fallback = (if env key \<noteq> '''' then env key else fallback)"

definition envInt :: "(string \<Rightarrow> string) \<Rightarrow> string \<Rightarrow> int \<Rightarrow> int" where
  "envInt env key fallback =
     (if env key = '''' then fallback
      else case strconv_Atoi (env key) of
        None \<Rightarrow> fallback
      | Some n \<Rightarrow> if n \<le> 0 then fallback else n)"

definition defaultAddr :: string where "defaultAddr = '':51820''"
definition defaultCapacity :: int where "defaultCapacity = 8192"
definition defaultReadBuffer :: int where "defaultReadBuffer = 4194304"

section \<open>Dropping privileges\<close>

definition defaultRunAs :: string where "defaultRunAs = ''65532:65532''"
definition runAsKeepRoot :: string where "runAsKeepRoot = ''root''"

datatype id_error = NotANumber | NotPositive
datatype run_as_error = EmptySpec | BadUid string id_error | BadGid string id_error

definition parseID :: "string \<Rightarrow> (id_error, int) result" where
  "parseID s =
     (case strconv_Atoi s of
        None \<Rightarrow> Inl NotANumber
      | Some n \<Rightarrow> if n \<le> 0 then Inl NotPositive else Inr n)"

definition parseRunAs :: "string \<Rightarrow> (run_as_error, int \<times> int) result" where
  "parseRunAs spec0 =
     (let spec = strings_TrimSpace spec0 in
      if spec = '''' then Inl EmptySpec
      else case strings_Cut spec (CHR '':'') of
        (uidStr, gidStr, hasGid) \<Rightarrow>
          (case parseID uidStr of
             Inl e \<Rightarrow> Inl (BadUid uidStr e)
           | Inr uid \<Rightarrow>
               if hasGid then
                 (case parseID gidStr of
                    Inl e \<Rightarrow> Inl (BadGid gidStr e)
                  | Inr gid \<Rightarrow> Inr (uid, gid))
               else Inr (uid, uid)))"

text \<open>\<^verbatim>\<open>strconv.ParseUint(s, 16, 64)\<close>.\<close>

definition hex_number :: "string \<Rightarrow> nat" where
  "hex_number s = foldl (\<lambda>n c. n * 16 + the (hex_value c)) 0 s"

definition ParseUint16 :: "string \<Rightarrow> nat option" where
  "ParseUint16 s =
     (if s = '''' \<or> \<not> list_all (\<lambda>c. hex_value c \<noteq> None) s \<or> 2 ^ 64 \<le> hex_number s then None else Some (hex_number s))"

datatype cap_error = CapParse string string | CapNonZero string nat | CapScan | CapCount nat

definition cap_key :: "string \<Rightarrow> bool" where
  "cap_key key \<longleftrightarrow> \<not> (key \<noteq> ''CapPrm'' \<and> key \<noteq> ''CapEff'' \<and> key \<noteq> ''CapAmb'')"

fun check_caps :: "nat \<Rightarrow> string list \<Rightarrow> (cap_error, nat) result" where
  "check_caps seen [] = Inr seen"
| "check_caps seen (line # lines) =
     (case strings_Cut line (CHR '':'') of
        (key, val, ok) \<Rightarrow>
          if \<not> ok \<or> \<not> cap_key key then check_caps seen lines
          else (case ParseUint16 (strings_TrimSpace val) of
                  None \<Rightarrow> Inl (CapParse key val)
                | Some bits \<Rightarrow> if bits \<noteq> 0 then Inl (CapNonZero key bits) else check_caps (seen + 1) lines))"

text \<open>The stream is its contents and whether reading it ended in an error.\<close>

definition checkNoCapabilities :: "string \<times> bool \<Rightarrow> (cap_error, unit) result" where
  "checkNoCapabilities = (\<lambda>(text, failed).
     res_bind (check_caps 0 (fst (bufio_lines text))) (\<lambda>seen.
       if snd (bufio_lines text) \<or> failed then Inl CapScan
       else if seen \<noteq> 3 then Inl (CapCount seen)
       else Inr ()))"

text \<open>The system calls, on a process state. The first component is success.\<close>

record 'k kernel =
  k_Getuid :: "'k \<Rightarrow> int"
  k_Geteuid :: "'k \<Rightarrow> int"
  k_Getgid :: "'k \<Rightarrow> int"
  k_Getegid :: "'k \<Rightarrow> int"
  k_Setgroups :: "int list \<Rightarrow> 'k \<Rightarrow> bool \<times> 'k"
  k_Setgid :: "int \<Rightarrow> 'k \<Rightarrow> bool \<times> 'k"
  k_Setuid :: "int \<Rightarrow> 'k \<Rightarrow> bool \<times> 'k"
  k_status :: "'k \<Rightarrow> (string \<times> bool) option"

datatype drop_error =
  SetgroupsFailed | SetgidFailed int | SetuidFailed int | BadCredentials int int int int | Recoverable
| StatusOpen | StatusCaps cap_error

definition assertNoCapabilities :: "'k kernel \<Rightarrow> 'k \<Rightarrow> (drop_error, unit) result" where
  "assertNoCapabilities K k =
     (case k_status K k of
        None \<Rightarrow> Inl StatusOpen
      | Some r \<Rightarrow> (case checkNoCapabilities r of Inl e \<Rightarrow> Inl (StatusCaps e) | Inr _ \<Rightarrow> Inr ()))"

definition dropPrivileges :: "'k kernel \<Rightarrow> int \<Rightarrow> int \<Rightarrow> 'k \<Rightarrow> (drop_error, bool) result \<times> 'k" where
  "dropPrivileges K uid gid k =
     (if k_Geteuid K k \<noteq> 0 then (Inr False, k)
      else case k_Setgroups K [] k of
        (False, k1) \<Rightarrow> (Inl SetgroupsFailed, k1)
      | (True, k1) \<Rightarrow>
          (case k_Setgid K gid k1 of
             (False, k2) \<Rightarrow> (Inl (SetgidFailed gid), k2)
           | (True, k2) \<Rightarrow>
               (case k_Setuid K uid k2 of
                  (False, k3) \<Rightarrow> (Inl (SetuidFailed uid), k3)
                | (True, k3) \<Rightarrow>
                    if k_Getuid K k3 \<noteq> uid \<or> k_Geteuid K k3 \<noteq> uid \<or> k_Getgid K k3 \<noteq> gid \<or> k_Getegid K k3 \<noteq> gid
                    then (Inl (BadCredentials (k_Getuid K k3) (k_Geteuid K k3) (k_Getgid K k3) (k_Getegid K k3)), k3)
                    else (case k_Setuid K 0 k3 of
                            (True, k4) \<Rightarrow> (Inl Recoverable, k4)
                          | (False, k4) \<Rightarrow>
                              (case assertNoCapabilities K k4 of
                                 Inl e \<Rightarrow> (Inl e, k4)
                               | Inr _ \<Rightarrow> (Inr True, k4))))))"

section \<open>Identity\<close>

datatype read_error = NotExist | ReadFailed string

datatype identity_error = BadIdentitySize nat | GenerateFailed | WriteFailed | IdentityRead string

text \<open>
  The file system maps paths to contents and permissions. A failing write may leave some contents behind; reading
  an existing file fails when \<open>readErr\<close> says so.
\<close>

type_synonym files = "string \<rightharpoonup> bytes \<times> nat"

datatype write_answer = WriteOk | WriteErr "(bytes \<times> nat) option"

definition ReadFile :: "string option \<Rightarrow> files \<Rightarrow> string \<Rightarrow> (read_error, bytes) result" where
  "ReadFile readErr fs path =
     (case readErr of
        Some e \<Rightarrow> Inl (ReadFailed e)
      | None \<Rightarrow> (case fs path of None \<Rightarrow> Inl NotExist | Some (b, _) \<Rightarrow> Inr b))"

definition LoadOrCreateIdentity ::
  "string option \<Rightarrow> bytes option \<Rightarrow> write_answer \<Rightarrow> files \<Rightarrow> string \<Rightarrow> (identity_error, bytes \<times> bool) result \<times> files" where
  "LoadOrCreateIdentity readErr gen wr fs path =
     (case ReadFile readErr fs path of
        Inr b \<Rightarrow> if length b \<noteq> PrivateKeySize then (Inl (BadIdentitySize (length b)), fs) else (Inr (b, False), fs)
      | Inl NotExist \<Rightarrow>
          (case gen of
             None \<Rightarrow> (Inl GenerateFailed, fs)
           | Some priv \<Rightarrow>
               (case wr of
                  WriteErr left \<Rightarrow> (Inl WriteFailed, fs(path := left))
                | WriteOk \<Rightarrow> (Inr (priv, True), fs(path \<mapsto> (priv, 384)))))
      | Inl (ReadFailed e) \<Rightarrow> (Inl (IdentityRead e), fs))"

section \<open>IP forwarding\<close>

datatype forward_error = ErrIPForwardDisabled | ForwardRead

definition AssertIPForward :: "string option \<Rightarrow> (forward_error, unit) result" where
  "AssertIPForward contents =
     (case contents of
        None \<Rightarrow> Inl ForwardRead
      | Some s \<Rightarrow> if strings_TrimSpace s \<noteq> ''1'' then Inl ErrIPForwardDisabled else Inr ())"

section \<open>Running the gateway\<close>

text \<open>The steps of the start with a visible effect; each is paired with the process state in which it happens.\<close>

datatype start_event =
  EvListen string
| EvReadBuffer int
| EvOpenTUN string int
| EvKeepRoot
| EvDropped int int
| EvUnprivileged
| EvIdentity string
| EvForwardWarning
| EvMetrics string
| EvServe
| EvExit int

text \<open>What the machine answers.\<close>

record 'k host =
  h_env :: "string \<Rightarrow> string"
  h_kernel :: "'k kernel"
  h_listen :: "string \<Rightarrow> bool"
  h_ParsePrefix :: "string \<Rightarrow> Prefix option"
  h_tun :: tun_kernel
  h_readErr :: "string option"
  h_gen :: "bytes option"
  h_write :: write_answer
  h_forward :: "string option"

definition dropToRunAs :: "'k host \<Rightarrow> 'k \<Rightarrow> (start_event \<times> 'k) list \<times> bool \<times> 'k" where
  "dropToRunAs H k =
     (let spec = envOr (h_env H) ''GEMINA_GATEWAY_RUN_AS'' defaultRunAs in
      if spec = runAsKeepRoot then (if k_Geteuid (h_kernel H) k = 0 then [(EvKeepRoot, k)] else [], True, k)
      else case parseRunAs spec of
        Inl _ \<Rightarrow> ([(EvExit 1, k)], False, k)
      | Inr (uid, gid) \<Rightarrow>
          (case dropPrivileges (h_kernel H) uid gid k of
             (Inl _, k1) \<Rightarrow> ([(EvExit 1, k1)], False, k1)
           | (Inr dropped, k1) \<Rightarrow> ([(if dropped then EvDropped uid gid else EvUnprivileged, k1)], True, k1)))"

datatype exit_device_error = BadPool string | PoolError exit_error | TUNError string tun_error

definition openExitDevice :: "'k host \<Rightarrow> (exit_device_error, Allocator \<times> string \<times> int) result" where
  "openExitDevice H =
     (let poolStr = envOr (h_env H) ''GEMINA_GATEWAY_POOL'' ''10.99.0.0/16'' in
      case h_ParsePrefix H poolStr of
        None \<Rightarrow> Inl (BadPool poolStr)
      | Some pool \<Rightarrow>
          (case NewAllocator pool of
             Inl e \<Rightarrow> Inl (PoolError e)
           | Inr alloc \<Rightarrow>
               let tunName = envOr (h_env H) ''GEMINA_GATEWAY_TUN'' ''gemina0'';
                   mtu = envInt (h_env H) ''GEMINA_GATEWAY_TUN_MTU'' 1280
               in case OpenTUN (h_tun H) tunName mtu of
                    (Inl e, _) \<Rightarrow> Inl (TUNError tunName e)
                  | (Inr _, _) \<Rightarrow> Inr (alloc, tunName, mtu)))"

text \<open>\<^verbatim>\<open>enable\<close>: the router over the open device, with a path lifetime of two minutes.\<close>

definition exit_enable :: "'k host \<Rightarrow> 'k \<Rightarrow> Allocator \<Rightarrow> DataGateway \<Rightarrow> (start_event \<times> 'k) list \<times> DataGateway" where
  "exit_enable H k alloc dg =
     ((case AssertIPForward (h_forward H) of Inl _ \<Rightarrow> [(EvForwardWarning, k)] | Inr _ \<Rightarrow> []),
      EnableExit dg \<lparr>rt_alloc = alloc, rt_paths = NewPathSet (120 * nanos_per_second)\<rparr>)"

definition gateway_service :: "(string \<Rightarrow> string) \<Rightarrow> Service option" where
  "gateway_service env =
     (if envOr env ''GEMINA_GATEWAY_TIER'' ''open'' = ''hosted'' then
        (let key = env ''GEMINA_GATEWAY_ENTITLEMENT_KEY'' in
         if key = '''' then None
         else Some \<lparr>sv_Mode = ModeHosted, sv_Key = str_bytes key, sv_Provider = None, sv_TokenTTL = 0\<rparr>)
      else Some \<lparr>sv_Mode = ModeOpen, sv_Key = [], sv_Provider = None, sv_TokenTTL = 0\<rparr>)"

text \<open>The steps after the privilege drop; the gateway is the one handed to \<^verbatim>\<open>Serve\<close>.\<close>

definition afterDrop ::
  "'k host \<Rightarrow> files \<Rightarrow> int \<Rightarrow> (Allocator \<times> string \<times> int) option \<Rightarrow> 'k \<Rightarrow> (start_event \<times> 'k) list \<times> DataGateway option \<times> files" where
  "afterDrop H fs capacity dev k1 =
     (let identityPath = envOr (h_env H) ''GEMINA_GATEWAY_IDENTITY'' ''gateway-identity.key'';
          t2 = [(EvIdentity identityPath, k1)]
      in case LoadOrCreateIdentity (h_readErr H) (h_gen H) (h_write H) fs identityPath of
           (Inl _, fs1) \<Rightarrow> (t2 @ [(EvExit 1, k1)], None, fs1)
         | (Inr (priv, created), fs1) \<Rightarrow>
             (case gateway_service (h_env H) of
                None \<Rightarrow> (t2 @ [(EvExit 1, k1)], None, fs1)
              | Some service \<Rightarrow>
                  let dg = NewDataGateway priv service capacity;
                      (t3, dg1) = (case dev of None \<Rightarrow> ([], dg) | Some (alloc, _, _) \<Rightarrow> exit_enable H k1 alloc dg);
                      metricsAddr = h_env H ''GEMINA_GATEWAY_METRICS_ADDR'';
                      t4 = (if metricsAddr \<noteq> '''' then [(EvMetrics metricsAddr, k1)] else [])
                  in (t2 @ t3 @ t4 @ [(EvServe, k1)], Some dg1, fs1)))"

definition runDataGateway ::
  "'k host \<Rightarrow> files \<Rightarrow> string \<Rightarrow> int \<Rightarrow> int \<Rightarrow> 'k \<Rightarrow> (start_event \<times> 'k) list \<times> DataGateway option \<times> files" where
  "runDataGateway H fs addr capacity readBuffer k =
     (if \<not> h_listen H addr then ([(EvExit 1, k)], None, fs)
      else
        let exitDev = (if envOr (h_env H) ''GEMINA_GATEWAY_EXIT'' ''off'' = ''on'' then map_sum id Some (openExitDevice H) else Inr None)
        in case exitDev of
          Inl _ \<Rightarrow> ([(EvListen addr, k), (EvReadBuffer readBuffer, k), (EvExit 1, k)], None, fs)
        | Inr dev \<Rightarrow>
            let t0 = (EvListen addr, k) # (EvReadBuffer readBuffer, k) # (case dev of None \<Rightarrow> [] | Some (_, tunName, mtu) \<Rightarrow> [(EvOpenTUN tunName mtu, k)]) in
            (case dropToRunAs H k of
               (t1, False, k1) \<Rightarrow> (t0 @ t1, None, fs)
             | (t1, True, k1) \<Rightarrow> (case afterDrop H fs capacity dev k1 of (t2, dg, fs1) \<Rightarrow> (t0 @ t1 @ t2, dg, fs1))))"

text \<open>
  The probe server \<^verbatim>\<open>main\<close> runs otherwise, over what its connection returns: the steps, the lines it logs and the
  statistics it reports when it stops. A panic of the server is \<^term>\<open>None\<close>.
\<close>

definition runProbeServer ::
  "'k host \<Rightarrow> bool \<Rightarrow> string \<Rightarrow> int \<Rightarrow> int \<Rightarrow> probe_read list \<Rightarrow> 'k \<Rightarrow> ((start_event \<times> 'k) list \<times> log_line list \<times> ProbeStats option) option" where
  "runProbeServer H debug addr capacity readBuffer reads k =
     (case NewServer capacity of
        Inl _ \<Rightarrow> Some ([(EvExit 1, k)], [], None)
      | Inr server \<Rightarrow>
          if \<not> h_listen H addr then Some ([(EvExit 1, k)], [], None)
          else
            let metricsAddr = h_env H ''GEMINA_GATEWAY_METRICS_ADDR'';
                t = [(EvListen addr, k), (EvReadBuffer readBuffer, k)] @ (if metricsAddr \<noteq> '''' then [(EvMetrics metricsAddr, k)] else []) @ [(EvServe, k)]
            in (case ProbeServer_Serve debug server 0 reads of
                  None \<Rightarrow> None
                | Some (logs, s, None) \<Rightarrow> Some (t, logs, None)
                | Some (logs, s, Some False) \<Rightarrow> Some (t @ [(EvExit 1, k)], logs, None)
                | Some (logs, s, Some True) \<Rightarrow> Some (t, logs, Some (Stats s))))"

datatype 'k gateway_run =
  DataRun "(start_event \<times> 'k) list" "DataGateway option" files
| ProbeRun "((start_event \<times> 'k) list \<times> log_line list \<times> ProbeStats option) option"

definition gateway_main :: "'k host \<Rightarrow> files \<Rightarrow> probe_read list \<Rightarrow> 'k \<Rightarrow> 'k gateway_run" where
  "gateway_main H fs reads k =
     (let debug = (envOr (h_env H) ''GEMINA_GATEWAY_LOG_LEVEL'' ''info'' = ''debug'');
          addr = envOr (h_env H) ''GEMINA_GATEWAY_ADDR'' defaultAddr;
          capacity = envInt (h_env H) ''GEMINA_GATEWAY_DEDUP_CAPACITY'' defaultCapacity;
          readBuffer = envInt (h_env H) ''GEMINA_GATEWAY_READ_BUFFER'' defaultReadBuffer
      in if envOr (h_env H) ''GEMINA_GATEWAY_MODE'' ''probe'' = ''data''
         then (case runDataGateway H fs addr capacity readBuffer k of (t, dg, fs1) \<Rightarrow> DataRun t dg fs1)
         else ProbeRun (runProbeServer H debug addr capacity readBuffer reads k))"

section \<open>Lemmas\<close>
















text \<open>The gateway that a successful start serves.\<close>

lemma afterDrop_gateway:
  assumes "afterDrop H fs capacity dev k1 = (t, Some dg, fs')"
  obtains priv created svc where
    "LoadOrCreateIdentity (h_readErr H) (h_gen H) (h_write H) fs (envOr (h_env H) ''GEMINA_GATEWAY_IDENTITY'' ''gateway-identity.key'') =
       (Inr (priv, created), fs')"
    "gateway_service (h_env H) = Some svc" "(EvServe, k1) \<in> set t"
    "dg = (case dev of None \<Rightarrow> NewDataGateway priv svc capacity
       | Some (alloc, _, _) \<Rightarrow> EnableExit (NewDataGateway priv svc capacity) \<lparr>rt_alloc = alloc, rt_paths = NewPathSet (120 * nanos_per_second)\<rparr>)"
proof -
  obtain r fs1 where l: "LoadOrCreateIdentity (h_readErr H) (h_gen H) (h_write H) fs
      (envOr (h_env H) ''GEMINA_GATEWAY_IDENTITY'' ''gateway-identity.key'') = (r, fs1)" by fastforce
  from assms l obtain priv created svc where "r = Inr (priv, created)" "gateway_service (h_env H) = Some svc"
    by (cases r) (auto simp: afterDrop_def Let_def split: option.splits prod.splits)
  with assms l that show thesis
    by (cases dev) (auto simp: afterDrop_def Let_def exit_enable_def split: prod.splits)
qed

lemma serving_gateway:
  assumes "runDataGateway H fs addr capacity readBuffer k = (t, Some dg, fs')"
  obtains priv created svc ke where
    "LoadOrCreateIdentity (h_readErr H) (h_gen H) (h_write H) fs (envOr (h_env H) ''GEMINA_GATEWAY_IDENTITY'' ''gateway-identity.key'') =
       (Inr (priv, created), fs')"
    "gateway_service (h_env H) = Some svc" "(EvServe, ke) \<in> set t"
    "dg = NewDataGateway priv svc capacity \<or>
     (\<exists>pool alloc. NewAllocator pool = Inr alloc \<and>
        dg = EnableExit (NewDataGateway priv svc capacity) \<lparr>rt_alloc = alloc, rt_paths = NewPathSet (120 * nanos_per_second)\<rparr>)"
proof -
  let ?x = "if envOr (h_env H) ''GEMINA_GATEWAY_EXIT'' ''off'' = ''on'' then map_sum id Some (openExitDevice H) else Inr None"
  have l: "h_listen H addr" using assms by (auto simp: runDataGateway_def split: if_splits)
  obtain dev where dev: "?x = Inr dev"
  proof (cases ?x)
    case (Inl err)
    have False using assms l by (simp only: runDataGateway_def Let_def Inl) simp
    then show ?thesis ..
  qed
  obtain t1 ok k1 where d: "dropToRunAs H k = (t1, ok, k1)" by (cases "dropToRunAs H k")
  obtain t2 dg2 fs2 where a: "afterDrop H fs capacity dev k1 = (t2, dg2, fs2)" by (metis prod_cases3)
  have "afterDrop H fs capacity dev k1 = (t2, Some dg, fs')" "set t2 \<subseteq> set t"
    using assms l a by (cases ok; simp only: runDataGateway_def Let_def dev d; force)+
  moreover have "\<exists>pool. NewAllocator pool = Inr alloc" if "dev = Some (alloc, n, m)" for alloc n m
    using dev that by (auto simp: openExitDevice_def Let_def split: if_splits option.splits sum.splits prod.splits)
  ultimately show thesis
    using that by (cases dev) (fastforce elim!: afterDrop_gateway)+
qed

lemma envInt_bound: "0 < fallback \<Longrightarrow> fallback \<le> max_int64 \<Longrightarrow> 0 < envInt env key fallback \<and> envInt env key fallback \<le> max_int64"
  by (auto simp: envInt_def strconv_Atoi_def ParseInt_def Let_def split: option.splits if_splits prod.splits)

section \<open>Properties\<close>






text \<open>Three lines of one and the same set pass, although the other two sets are then not looked at.\<close>

lemma repeated_capability_line: "checkNoCapabilities (unlines [''CapPrm:0'', ''CapPrm:0'', ''CapPrm:0''], False) = Inr ()"
proof -
  have "bufio_lines (unlines [''CapPrm:0'', ''CapPrm:0'', ''CapPrm:0'']) = ([''CapPrm:0'', ''CapPrm:0'', ''CapPrm:0''], False)"
    by (rule bufio_lines_unlines) (auto simp: MaxScanTokenSize_def)
  moreover have "strings_TrimSpace ''0'' = ''0''" by (rule TrimSpace_id) (simp add: eval_space)
  ultimately show ?thesis
    by (simp add: checkNoCapabilities_def cap_key_def ParseUint16_def hex_number_def hex_value_def)
qed





text \<open>
  C26. The identity that clients pin survives restarts: after a successful start the file holds exactly the private
  key the gateway uses, every later start with this file loads the same key and changes nothing. A new key is
  only made when the file does not exist, is readable by its owner only, and no other file is touched.
\<close>

theorem identity_persists:
  assumes "LoadOrCreateIdentity readErr gen wr fs path = (Inr (priv, created), fs')"
    and "\<And>p. gen = Some p \<Longrightarrow> length p = PrivateKeySize"
  shows "LoadOrCreateIdentity None gen' wr' fs' path = (Inr (priv, False), fs') \<and>
     (created \<longleftrightarrow> fs path = None) \<and> fs' = (if created then fs(path \<mapsto> (priv, 384)) else fs)"
  using assms
  by (auto simp: LoadOrCreateIdentity_def ReadFile_def split: option.splits sum.splits read_error.splits write_answer.splits if_splits)

theorem identity_persists_witness:
  "LoadOrCreateIdentity None None WriteOk (Map.empty(''k'' \<mapsto> (replicate 64 1, 384))) ''k'' =
     (Inr (replicate 64 1, False), Map.empty(''k'' \<mapsto> (replicate 64 1, 384)))"
proof -
  have "LoadOrCreateIdentity None (Some (replicate 64 1)) WriteOk Map.empty ''k'' =
      (Inr (replicate 64 1, True), Map.empty(''k'' \<mapsto> (replicate 64 1, 384)))"
    by (simp add: LoadOrCreateIdentity_def ReadFile_def)
  from identity_persists [OF this, of None WriteOk] show ?thesis by (simp add: PrivateKeySize_def)
qed

end
