(* ===== verification/Probe_Client.thy ===== *)
theory Probe_Client
  imports Probe_Server Go_Strings
begin

text \<open>
  \<^verbatim>\<open>cmd/geminactl/probe.go\<close>: the command that sends numbered probes over one or two interfaces. With the probe
  server it closes the Stage-1 experiment: what the command sends is what the gateway counts.
\<close>

section \<open>The code\<close>

text \<open>The flag values after parsing, defaults filled in.\<close>

record probe_flags =
  fl_interface :: string
  fl_to :: string
  fl_path :: string
  fl_count :: int
  fl_duplicate :: bool
  fl_interface2 :: string
  fl_path2 :: string

record probeConfig =
  pc_iface :: string
  pc_to :: string
  pc_path :: PathTag
  pc_count :: int
  pc_duplicate :: bool
  pc_iface2 :: string
  pc_path2 :: PathTag

datatype probe_cli_error =
  InterfaceRequired | ToRequired | CountTooSmall | errUnknownPath string
| DialFailed | SecondPathFailed | SessionFailed | MarshalFailed probe_error | SendFailed int string

definition dualPath :: "probeConfig \<Rightarrow> bool" where
  "dualPath c \<longleftrightarrow> pc_iface2 c \<noteq> ''''"

definition parsePathTag :: "string \<Rightarrow> (probe_cli_error, PathTag) result" where
  "parsePathTag name =
     (if name = ''wifi'' \<or> name = ''wi-fi'' then Inr PathWiFi
      else if name = ''usb'' \<or> name = ''android-usb-tether'' \<or> name = ''android-usb-tethering'' then Inr PathAndroidUSBTether
      else Inl (errUnknownPath name))"

definition parseProbeConfig :: "probe_flags \<Rightarrow> (probe_cli_error, probeConfig) result" where
  "parseProbeConfig fs =
     (if fl_interface fs = '''' then Inl InterfaceRequired
      else if fl_to fs = '''' then Inl ToRequired
      else if fl_count fs < 1 then Inl CountTooSmall
      else res_bind (parsePathTag (fl_path fs)) (\<lambda>tag.
        let cfg = \<lparr>pc_iface = fl_interface fs, pc_to = fl_to fs, pc_path = tag, pc_count = fl_count fs,
                   pc_duplicate = fl_duplicate fs, pc_iface2 = '''', pc_path2 = PathUnknown\<rparr>
        in if fl_interface2 fs \<noteq> '''' then
             res_bind (parsePathTag (fl_path2 fs)) (\<lambda>tag2. Inr (cfg\<lparr>pc_iface2 := fl_interface2 fs, pc_path2 := tag2\<rparr>))
           else Inr cfg))"

text \<open>The sixteen random bytes, or an error of the source.\<close>

definition randomSession :: "bytes option \<Rightarrow> (probe_cli_error, SessionID) result" where
  "randomSession rnd =
     (case rnd of
        None \<Rightarrow> Inl SessionFailed
      | Some s \<Rightarrow> if SessionID_IsZero s then Inr (s[0 := 1]) else Inr s)"

text \<open>
  A write is the interface and the datagram; \<open>ok i\<close> is whether the \<open>i\<close>-th write succeeds. The state of the
  loop is the writes so far and the error that ended it.
\<close>

type_synonym probe_writes = "(string \<times> bytes) list \<times> probe_cli_error option"

fun write_copies :: "(nat \<Rightarrow> bool) \<Rightarrow> int \<Rightarrow> string \<Rightarrow> bytes \<Rightarrow> nat \<Rightarrow> (string \<times> bytes) list \<Rightarrow> probe_writes" where
  "write_copies ok n iface wire 0 ws = (ws, None)"
| "write_copies ok n iface wire (Suc k) ws =
     (if ok (length ws) then write_copies ok n iface wire k (ws @ [(iface, wire)]) else (ws, Some (SendFailed n iface)))"

definition send_probe :: "probeConfig \<Rightarrow> SessionID \<Rightarrow> (nat \<Rightarrow> bool) \<Rightarrow> probe_writes \<Rightarrow> int \<Rightarrow> probe_writes" where
  "send_probe cfg session ok st n =
     (case st of
        (ws, Some e) \<Rightarrow> (ws, Some e)
      | (ws, None) \<Rightarrow>
          let pid = \<lparr>Session = session, Number = uint64_of n\<rparr> in
          (case ProbePacket_MarshalBinary \<lparr>ID = pid, Path = pc_path cfg\<rparr> of
             Inl e \<Rightarrow> (ws, Some (MarshalFailed e))
           | Inr wire \<Rightarrow>
               let copies = (if pc_duplicate cfg then 2 else 1) in
               (case write_copies ok n (pc_iface cfg) wire copies ws of
                  (ws1, Some e) \<Rightarrow> (ws1, Some e)
                | (ws1, None) \<Rightarrow>
                    if dualPath cfg then
                      (case ProbePacket_MarshalBinary \<lparr>ID = pid, Path = pc_path2 cfg\<rparr> of
                         Inl e \<Rightarrow> (ws1, Some (MarshalFailed e))
                       | Inr wire2 \<Rightarrow> write_copies ok n (pc_iface2 cfg) wire2 1 ws1)
                    else (ws1, None))))"

definition duplicateNote :: "bool \<Rightarrow> string" where
  "duplicateNote dup = (if dup then '' (each duplicated)'' else '''')"

definition quoted :: "string \<Rightarrow> string" where
  "quoted s = [CHR 0x22] @ s @ [CHR 0x22]"

definition probe_summary :: "probeConfig \<Rightarrow> nat \<Rightarrow> string" where
  "probe_summary cfg sent =
     ''sent '' @ FormatInt (int sent) @ '' datagram(s): '' @ FormatInt (pc_count cfg) @ '' distinct probe(s) over '' @ pc_iface cfg @
     (if dualPath cfg
      then '' ('' @ quoted (PathTag_String (pc_path cfg)) @ '') and '' @ pc_iface2 cfg @ '' ('' @ quoted (PathTag_String (pc_path2 cfg)) @ '')''
      else '' as path '' @ quoted (PathTag_String (pc_path cfg)) @ duplicateNote (pc_duplicate cfg)) @ [CHR 0x0A]"

definition runProbe ::
  "probe_flags \<Rightarrow> (string \<Rightarrow> string \<Rightarrow> bool) \<Rightarrow> bytes option \<Rightarrow> (nat \<Rightarrow> bool) \<Rightarrow>
   (string \<times> bytes) list \<times> (probe_cli_error, string) result" where
  "runProbe fs dial rnd ok =
     (case parseProbeConfig fs of
        Inl e \<Rightarrow> ([], Inl e)
      | Inr cfg \<Rightarrow>
          if \<not> dial (pc_iface cfg) (pc_to cfg) then ([], Inl DialFailed)
          else if dualPath cfg \<and> \<not> dial (pc_iface2 cfg) (pc_to cfg) then ([], Inl SecondPathFailed)
          else (case randomSession rnd of
                  Inl e \<Rightarrow> ([], Inl e)
                | Inr session \<Rightarrow>
                    (case foldl (send_probe cfg session ok) ([], None) [1..pc_count cfg] of
                       (ws, Some e) \<Rightarrow> (ws, Inl e)
                     | (ws, None) \<Rightarrow> (ws, Inr (probe_summary cfg (length ws))))))"

section \<open>What is sent\<close>

definition probe_wire :: "SessionID \<Rightarrow> int \<Rightarrow> PathTag \<Rightarrow> bytes" where
  "probe_wire session n tag = probeMagic @ [ProbeVersion] @ [tag] @ session @ put_be64 (uint64_of n)"

definition probe_copies :: "probeConfig \<Rightarrow> SessionID \<Rightarrow> int \<Rightarrow> (string \<times> bytes) list" where
  "probe_copies cfg session n =
     replicate (if pc_duplicate cfg then 2 else 1) (pc_iface cfg, probe_wire session n (pc_path cfg)) @
     (if dualPath cfg then [(pc_iface2 cfg, probe_wire session n (pc_path2 cfg))] else [])"

lemma write_copies_all: "write_copies (\<lambda>_. True) n iface wire k ws = (ws @ replicate k (iface, wire), None)"
proof (induction k arbitrary: ws)
  case (Suc k)
  then show ?case by (simp add: replicate_append_same)
qed simp

lemma uint64_nonzero: "1 \<le> n \<Longrightarrow> n \<le> max_int64 \<Longrightarrow> uint64_of n \<noteq> 0 \<and> 0 < uint64_of n"
  by (metis int64_uint64 int64_of_def min_int64_def neg_le_0_iff_le not_one_le_zero order_trans sint_0 word_neq_0_conv zero_le_one zero_le_power
      zero_le_numeral)

lemma send_probe_all:
  assumes "\<not> SessionID_IsZero session" and "1 \<le> n" and "n \<le> max_int64"
  shows "send_probe cfg session (\<lambda>_. True) (ws, None) n = (ws @ probe_copies cfg session n, None)"
proof -
  have "PacketID_Valid \<lparr>Session = session, Number = uint64_of n\<rparr>"
    using assms uint64_nonzero [of n] by (simp add: PacketID_Valid_def)
  then show ?thesis
    by (simp add: send_probe_def ProbePacket_MarshalBinary_def write_copies_all probe_copies_def probe_wire_def Let_def
        write_copies_all [of _ _ _ "Suc 0", simplified])
qed

lemma foldl_send_probe:
  assumes "\<not> SessionID_IsZero session" and "\<forall>n \<in> set ns. 1 \<le> n \<and> n \<le> max_int64"
  shows "foldl (send_probe cfg session (\<lambda>_. True)) (ws, None) ns = (ws @ concat (map (probe_copies cfg session) ns), None)"
  using assms(2) by (induction ns arbitrary: ws) (simp_all add: send_probe_all assms(1))

section \<open>What the gateway counts\<close>

abbreviation probe_id :: "SessionID \<Rightarrow> int \<Rightarrow> PacketID" where
  "probe_id session n \<equiv> \<lparr>Session = session, Number = uint64_of n\<rparr>"

lemma probe_id_eq:
  assumes "0 \<le> m" and "m \<le> max_int64" and "0 \<le> n" and "n \<le> max_int64"
  shows "probe_id session m = probe_id session n \<longleftrightarrow> m = n"
proof -
  have "min_int64 \<le> 0" by (simp add: min_int64_def)
  then show ?thesis using assms by (metis PacketID.ext_inject int64_uint64 order_trans)
qed

text \<open>The queue after probes up to number \<open>m\<close>, given in order: only their identities, and the last of them.\<close>

definition seen_upto :: "SessionID \<Rightarrow> int \<Rightarrow> fifo \<Rightarrow> bool" where
  "seen_upto session m q \<longleftrightarrow> (\<forall>i \<in> set (map fst q). \<exists>k. 0 \<le> k \<and> k \<le> m \<and> i = probe_id session k) \<and>
     (m = 0 \<or> probe_id session m \<in> set (map fst q))"

lemma probe_step_ordered:
  assumes "wf_session session" and "\<not> SessionID_IsZero session" and "seen_upto session m q"
    and "0 \<le> m" and "m \<le> n" and "1 \<le> n" and "n \<le> max_int64"
  shows "pr_Decision (fst (probe_step C q (probe_wire session n tag))) = (if n = m then ProbeDuplicate else ProbeFirstCopy)"
    and "seen_upto session n (snd (probe_step C q (probe_wire session n tag)))"
proof -
  let ?p = "\<lparr>ID = probe_id session n, Path = tag\<rparr>"
  have valid: "PacketID_Valid (probe_id session n)" using assms(2,6,7) uint64_nonzero [of n] by (simp add: PacketID_Valid_def)
  then have u: "UnmarshalProbe (probe_wire session n tag) = Inr ?p"
    using UnmarshalProbe_Marshal [of ?p "[]"] assms(1) by (simp add: probe_wire_def)
  have q: "i \<in> set (map fst q) \<Longrightarrow> \<exists>k. 0 \<le> k \<and> k \<le> m \<and> i = probe_id session k" for i using assms(3) by (auto simp: seen_upto_def)
  have "probe_id session n \<in> set (map fst q) \<longleftrightarrow> n = m"
  proof
    assume "probe_id session n \<in> set (map fst q)"
    then obtain k where "0 \<le> k" "k \<le> m" "probe_id session n = probe_id session k" using q by blast
    then have "n = k" using probe_id_eq [of n k session] assms(4-7) by linarith
    then show "n = m" using \<open>k \<le> m\<close> assms(5) by linarith
  qed (use assms(3,6) in \<open>auto simp: seen_upto_def\<close>)
  then have new: "map_of q (probe_id session n) = None \<longleftrightarrow> n \<noteq> m" by (simp add: map_of_eq_None_iff)
  show "pr_Decision (fst (probe_step C q (probe_wire session n tag))) = (if n = m then ProbeDuplicate else ProbeFirstCopy)"
    using new by (auto simp: probe_step_def u split: option.splits)
  show "seen_upto session n (snd (probe_step C q (probe_wire session n tag)))"
  proof (cases "n = m")
    case True
    then obtain r where "map_of q (probe_id session n) = Some r" using new by auto
    then have "snd (probe_step C q (probe_wire session n tag)) = bump (probe_id session n) q" by (simp add: probe_step_def u)
    then show ?thesis using assms(3) True by (simp add: seen_upto_def del: set_map)
  next
    case False
    then have "map_of q (probe_id session n) = None" using new by simp
    then have eq: "snd (probe_step C q (probe_wire session n tag)) =
        (if length q < C then q else tl q) @ [(probe_id session n, \<lparr>firstPath = PathTag_String tag, copyCount = 1\<rparr>)]"
      by (simp add: probe_step_def u fifo_observe_def valid path_nonempty)
    have "\<exists>k. 0 \<le> k \<and> k \<le> n \<and> i = probe_id session k" if "i \<in> set (map fst q)" for i
    proof -
      from q [OF that] obtain k where "0 \<le> k" "k \<le> m" "i = probe_id session k" by blast
      then show ?thesis using assms(5) by (intro exI [of _ k]) simp
    qed
    moreover have "set (map fst (tl q)) \<subseteq> set (map fst q)" by (cases q) auto
    moreover have "\<exists>k. 0 \<le> k \<and> k \<le> n \<and> probe_id session n = probe_id session k" using assms(6) by (intro exI [of _ n]) simp
    ultimately show ?thesis unfolding eq using assms(6) by (auto simp: seen_upto_def simp del: set_map PacketID.ext_inject)
  qed
qed

lemma probe_run_ordered:
  assumes "wf_session session" and "\<not> SessionID_IsZero session" and "seen_upto session m q" and "0 \<le> m"
    and "sorted (m # map fst ps)" and "\<forall>n \<in> set (map fst ps). 1 \<le> n \<and> n \<le> max_int64"
  shows "tally ProbeFirstCopy (probe_run C q (map (\<lambda>(n, tag). probe_wire session n tag) ps)) = card (set (map fst ps) - {m}) \<and>
     tally ProbeDuplicate (probe_run C q (map (\<lambda>(n, tag). probe_wire session n tag) ps)) = length ps - card (set (map fst ps) - {m}) \<and>
     tally ProbeRejected (probe_run C q (map (\<lambda>(n, tag). probe_wire session n tag) ps)) = 0 \<and>
     card (set (map fst ps) - {m}) \<le> length ps"
  using assms(3-6)
proof (induction ps arbitrary: m q)
  case (Cons p ps)
  obtain n tag where p: "p = (n, tag)" by (cases p)
  let ?st = "probe_step C q (probe_wire session n tag)"
  have n: "m \<le> n" "1 \<le> n" "n \<le> max_int64" using Cons.prems by (auto simp: p)
  note step = probe_step_ordered [OF assms(1,2) Cons.prems(1,2) n, of C tag]
  have s: "sorted (n # map fst ps)" "\<forall>k \<in> set (map fst ps). 1 \<le> k \<and> k \<le> max_int64" using Cons.prems(3,4) by (auto simp: p)
  note IH = Cons.IH [OF step(2) _ s]
  have m: "m \<notin> set (map fst ps) - {n}" using s(1) n(1) by (auto simp: dual_order.antisym)
  have "set (map fst (p # ps)) - {m} = (if n = m then set (map fst ps) - {n} else insert n (set (map fst ps) - {n}))"
    using m by (auto simp: p simp del: set_map)
  then have c: "card (set (map fst (p # ps)) - {m}) = (if n = m then 0 else 1) + card (set (map fst ps) - {n})"
    by (simp del: set_map insert_Diff_single)
  show ?case unfolding c using IH n(2) step(1) by (auto simp: p tally_def)
qed (simp add: tally_def)

text \<open>The probes of a run as numbers and tags.\<close>

definition probe_plan :: "probeConfig \<Rightarrow> (string \<times> int \<times> PathTag) list" where
  "probe_plan cfg = concat (map (\<lambda>n.
     replicate (if pc_duplicate cfg then 2 else 1) (pc_iface cfg, n, pc_path cfg) @
     (if dualPath cfg then [(pc_iface2 cfg, n, pc_path2 cfg)] else [])) [1..pc_count cfg])"

lemma probe_copies_plan:
  "concat (map (probe_copies cfg session) [1..pc_count cfg]) =
     map (\<lambda>(iface, n, tag). (iface, probe_wire session n tag)) (probe_plan cfg)"
  unfolding probe_plan_def map_concat map_map
  by (intro arg_cong [where f = concat] map_cong) (simp_all add: probe_copies_def comp_def)

lemma plan_numbers:
  "sorted (map (\<lambda>x. fst (snd x)) (probe_plan cfg))" "\<forall>n \<in> set (map (\<lambda>x. fst (snd x)) (probe_plan cfg)). 1 \<le> n \<and> n \<le> pc_count cfg"
proof -
  let ?b = "\<lambda>n. replicate (if pc_duplicate cfg then 2 else 1) (pc_iface cfg, n, pc_path cfg) @
     (if dualPath cfg then [(pc_iface2 cfg, n, pc_path2 cfg)] else [])"
  have b: "x \<in> set (?b n) \<Longrightarrow> fst (snd x) = n" for x n by (auto split: if_splits)
  have "sorted (map (\<lambda>x. fst (snd x)) (concat (map ?b ns)))" if "sorted ns" for ns
    using that
  proof (induction ns)
    case (Cons n ns)
    have "map (\<lambda>x. fst (snd x)) (?b n) = replicate (length (?b n)) n" by (rule replicate_eqI) (use b in auto)
    moreover have "\<forall>k \<in> set (map (\<lambda>x. fst (snd x)) (concat (map ?b ns))). n \<le> k" using Cons.prems b by fastforce
    ultimately show ?case using Cons by (simp add: sorted_append)
  qed simp
  then show "sorted (map (\<lambda>x. fst (snd x)) (probe_plan cfg))" unfolding probe_plan_def using sorted_upto by blast
  show "\<forall>n \<in> set (map (\<lambda>x. fst (snd x)) (probe_plan cfg)). 1 \<le> n \<and> n \<le> pc_count cfg"
    unfolding probe_plan_def using b by fastforce
qed

lemma runProbe_all:
  assumes "parseProbeConfig fs = Inr cfg" and "randomSession (Some rnd) = Inr session" and "\<not> SessionID_IsZero session"
    and "fl_count fs \<le> max_int64" and "dial (pc_iface cfg) (pc_to cfg)" and "dualPath cfg \<Longrightarrow> dial (pc_iface2 cfg) (pc_to cfg)"
  shows "runProbe fs dial (Some rnd) (\<lambda>_. True) =
     (map (\<lambda>(iface, n, tag). (iface, probe_wire session n tag)) (probe_plan cfg), Inr (probe_summary cfg (length (probe_plan cfg))))"
proof -
  have "pc_count cfg = fl_count fs" using assms(1) by (auto simp: parseProbeConfig_def result_iff Let_def split: if_splits)
  then have "\<forall>n \<in> set [1..pc_count cfg]. 1 \<le> n \<and> n \<le> max_int64" using assms(4) by auto
  from foldl_send_probe [OF assms(3) this, of cfg "[]"] assms(1,2,5,6) show ?thesis
    by (simp add: runProbe_def probe_copies_plan)
qed

lemma randomSession_wf: "randomSession (Some rnd) = Inr session \<Longrightarrow> length rnd = 16 \<Longrightarrow> wf_session session \<and> \<not> SessionID_IsZero session"
  by (cases rnd) (auto simp: randomSession_def wf_session_def SessionIDSize_def split: if_splits)

text \<open>
  C36. The dual-path experiment works: whatever copies of the probes the paths lose, as long as those that arrive
  keep their order, the gateway counts one first copy for every probe of which at least one copy arrived, counts every
  further copy as a duplicate, and rejects nothing. In particular one path may lose everything.
\<close>

theorem probe_experiment_counts:
  assumes "parseProbeConfig fs = Inr cfg" and "fl_count fs \<le> max_int64" and "length rnd = 16" and "NewServer capacity = Inr s"
    and "runProbe fs (\<lambda>_ _. True) (Some rnd) (\<lambda>_. True) = (ws, res)"
  shows "\<exists>session logs s'. randomSession (Some rnd) = Inr session \<and> length ws = length (probe_plan cfg) \<and>
     ProbeServer_Serve debug s 0 (map ProbeDatagram (map snd (nths ws arrived)) @ [ProbeReadErr True]) = Some (logs, s', Some True) \<and>
     (let arrivals = nths (probe_plan cfg) arrived; numbers = set (map (\<lambda>(iface, n, tag). n) arrivals) in
      Stats s' = \<lparr>st_FirstCopies = of_nat (card numbers), st_Duplicates = of_nat (length arrivals - card numbers), st_Rejected = 0\<rparr>)"
proof -
  obtain session where session: "randomSession (Some rnd) = Inr session"
    by (cases "SessionID_IsZero rnd") (simp_all add: randomSession_def)
  note wf = randomSession_wf [OF session assms(3)]
  let ?plan = "nths (probe_plan cfg) arrived" and ?num = "\<lambda>(iface, n, tag). n"
  have ws: "ws = map (\<lambda>(iface, n, tag). (iface, probe_wire session n tag)) (probe_plan cfg)"
    using runProbe_all [OF assms(1) session _ assms(2), of "\<lambda>_ _. True"] wf assms(5) by simp
  let ?ps = "map snd ?plan"
  have ds: "map snd (nths ws arrived) = map (\<lambda>(n, tag). probe_wire session n tag) ?ps"
    unfolding ws nths_map by (simp add: comp_def split_beta)
  have "length (probe_wire session n tag) = 30" for n tag
    using wf by (simp add: probe_wire_def wf_session_def SessionIDSize_def probeMagic_def)
  then have cut: "map (take maxDatagram) (map (\<lambda>(n, tag). probe_wire session n tag) ?ps) = map (\<lambda>(n, tag). probe_wire session n tag) ?ps"
    by (auto simp: maxDatagram_def split_beta)
  have num: "map fst ?ps = map ?num ?plan" by (simp add: split_beta)
  have "pc_count cfg = fl_count fs" using assms(1) by (auto simp: parseProbeConfig_def result_iff Let_def split: if_splits)
  then have range: "\<forall>n \<in> set (map fst ?ps). 1 \<le> n \<and> n \<le> max_int64"
    using plan_numbers(2) [of cfg] set_nths_subset [of "probe_plan cfg" arrived] assms(2) by fastforce
  have "sorted (map fst ?ps)"
    using sorted_nths [OF plan_numbers(1) [of cfg], of arrived] by (simp add: nths_map comp_def)
  then have "sorted (0 # map fst ?ps)" using range by fastforce
  from probe_run_ordered [OF conjunct1 [OF wf] conjunct2 [OF wf] _ _ this range, of "[]" "nat capacity"]
  have t: "tally ProbeFirstCopy (probe_run (nat capacity) [] (map (\<lambda>(n, tag). probe_wire session n tag) ?ps)) = card (set (map fst ?ps) - {0})"
    "tally ProbeDuplicate (probe_run (nat capacity) [] (map (\<lambda>(n, tag). probe_wire session n tag) ?ps)) = length ?plan - card (set (map fst ?ps) - {0})"
    "tally ProbeRejected (probe_run (nat capacity) [] (map (\<lambda>(n, tag). probe_wire session n tag) ?ps)) = 0"
    by (simp_all add: seen_upto_def)
  have zero: "set (map fst ?ps) - {0} = set (map ?num ?plan)" using range unfolding num by force
  note new = NewServer_inv [OF assms(4)]
  from Serve_sim [OF new(1), of "\<lambda>_ _. 0" debug 0 "map (\<lambda>(n, tag). probe_wire session n tag) ?ps" True] new(2,3)
  show ?thesis using session ws unfolding ds cut t zero by (auto simp: Let_def)
qed

definition demo_flags :: probe_flags where
  "demo_flags = \<lparr>fl_interface = ''en0'', fl_to = ''gw:51820'', fl_path = ''wifi'', fl_count = 2, fl_duplicate = False,
     fl_interface2 = ''en7'', fl_path2 = ''usb''\<rparr>"

text \<open>The Wi-Fi copies are lost, the copies of the second path arrive.\<close>

theorem probe_experiment_counts_witness:
  "\<exists>ws res s logs s'. runProbe demo_flags (\<lambda>_ _. True) (Some (replicate 16 1)) (\<lambda>_. True) = (ws, res) \<and> NewServer 1 = Inr s \<and>
     ProbeServer_Serve False s 0 (map ProbeDatagram (map snd (nths ws {1, 3})) @ [ProbeReadErr True]) = Some (logs, s', Some True) \<and>
     Stats s' = \<lparr>st_FirstCopies = 2, st_Duplicates = 0, st_Rejected = 0\<rparr>"
proof -
  let ?cfg = "\<lparr>pc_iface = ''en0'', pc_to = ''gw:51820'', pc_path = PathWiFi, pc_count = 2, pc_duplicate = False,
     pc_iface2 = ''en7'', pc_path2 = PathAndroidUSBTether\<rparr>"
  have cfg: "parseProbeConfig demo_flags = Inr ?cfg" by (simp add: parseProbeConfig_def demo_flags_def parsePathTag_def)
  have "[1..2] = [1, 2 :: int]" by (simp add: upto.simps)
  then have plan: "nths (probe_plan ?cfg) {1, 3} = [(''en7'', 1, PathAndroidUSBTether), (''en7'', 2, PathAndroidUSBTether)]"
    by (simp add: probe_plan_def dualPath_def nths_Cons)
  obtain s where s: "NewServer 1 = Inr s" by (auto simp: NewServer_def NewWindow_def Registry_Counter_def Let_def)
  obtain ws res where r: "runProbe demo_flags (\<lambda>_ _. True) (Some (replicate 16 1)) (\<lambda>_. True) = (ws, res)" by fastforce
  have "fl_count demo_flags \<le> max_int64" by (simp add: demo_flags_def max_int64_def)
  from probe_experiment_counts [OF cfg this _ s r, of False "{1, 3}"] r s show ?thesis
    unfolding plan by (auto simp: Let_def)
qed

end
