(* ===== verification/Path_Dial.thy ===== *)
theory Path_Dial
  imports Probe_Client
begin

text \<open>
  Sockets bound to one interface, \<^verbatim>\<open>internal/transport/pathdial.go\<close> with the binding of macOS
  (\<^verbatim>\<open>pathdial_darwin.go\<close>) and of the other platforms (\<^verbatim>\<open>pathdial_other.go\<close>), and what they give the probe
  command. The answers of the kernel and of the resolver are arguments.
\<close>

section \<open>The code\<close>

text \<open>A socket: the network it was made for, the two \<^verbatim>\<open>BOUND_IF\<close> options and the address it is connected to.\<close>

record udp_socket =
  sk_network :: string
  sk_bound4 :: "int option"
  sk_bound6 :: "int option"
  sk_remote :: "string option"

datatype dial_error =
    ErrNoInterface
  | NoSuchInterface string
  | DialVia string string string

text \<open>
  \<^verbatim>\<open>SetsockoptInt\<close> with \<^verbatim>\<open>IP_BOUND_IF\<close> or \<^verbatim>\<open>IPV6_BOUND_IF\<close>. \<open>setsockopt level opt value\<close> is the error of the
  call, if it fails.
\<close>

definition IPPROTO_IP :: int where "IPPROTO_IP = 0"
definition IPPROTO_IPV6 :: int where "IPPROTO_IPV6 = 41"

definition ipBoundIf :: int where "ipBoundIf = 0x19"
definition ipv6BoundIf :: int where "ipv6BoundIf = 0x7d"

type_synonym setsockopt = "int \<Rightarrow> int \<Rightarrow> int \<Rightarrow> string option"
type_synonym socket_bind = "string \<Rightarrow> int \<Rightarrow> udp_socket \<Rightarrow> (string, unit) result \<times> udp_socket"

definition set4 :: "setsockopt \<Rightarrow> int \<Rightarrow> udp_socket \<Rightarrow> (string, unit) result \<times> udp_socket" where
  "set4 so i s = (case so IPPROTO_IP ipBoundIf i of Some e \<Rightarrow> (Inl e, s) | None \<Rightarrow> (Inr (), s\<lparr>sk_bound4 := Some i\<rparr>))"

definition set6 :: "setsockopt \<Rightarrow> int \<Rightarrow> udp_socket \<Rightarrow> (string, unit) result \<times> udp_socket" where
  "set6 so i s = (case so IPPROTO_IPV6 ipv6BoundIf i of Some e \<Rightarrow> (Inl e, s) | None \<Rightarrow> (Inr (), s\<lparr>sk_bound6 := Some i\<rparr>))"

definition bindToInterface :: "setsockopt \<Rightarrow> socket_bind" where
  "bindToInterface so network ifIndex s =
     (if network \<in> {''udp4'', ''tcp4'', ''ip4''} then set4 so ifIndex s
      else if network \<in> {''udp6'', ''tcp6'', ''ip6''} then set6 so ifIndex s
      else case set4 so ifIndex s of
        (Inl err, s1) \<Rightarrow> (Inl err, s1)
      | (Inr _, s1) \<Rightarrow> set6 so ifIndex s1)"

definition bindToInterface_other :: "string \<Rightarrow> socket_bind" where
  "bindToInterface_other goos network ifIndex s =
     (Inl (''path egress binding unsupported on '' @ goos @ '': per-path egress binding is only implemented on darwin''), s)"

text \<open>
  \<^verbatim>\<open>net.Dialer.Dial\<close> tries the resolved addresses in order, each with a socket of its family on which the
  \<^verbatim>\<open>Control\<close> function runs before the connect; it returns the first connection, or the first error.
\<close>

record dial_address =
  da_network :: string
  da_addr :: string
  da_socket :: "string option"
  da_control :: "string option"
  da_connect :: "string option"

text \<open>\<^verbatim>\<open>Control\<close>: an error of \<^verbatim>\<open>RawConn.Control\<close> itself, or the outcome of the binding.\<close>

definition control :: "socket_bind \<Rightarrow> int \<Rightarrow> dial_address \<Rightarrow> udp_socket \<Rightarrow> (string, unit) result \<times> udp_socket" where
  "control bindf ifIndex a s = (case da_control a of Some err \<Rightarrow> (Inl err, s) | None \<Rightarrow> bindf (da_network a) ifIndex s)"

definition dialOne :: "socket_bind \<Rightarrow> int \<Rightarrow> dial_address \<Rightarrow> (string, udp_socket) result" where
  "dialOne bindf ifIndex a =
     (case da_socket a of
        Some err \<Rightarrow> Inl err
      | None \<Rightarrow>
          (case control bindf ifIndex a \<lparr>sk_network = da_network a, sk_bound4 = None, sk_bound6 = None, sk_remote = None\<rparr> of
             (Inl err, _) \<Rightarrow> Inl err
           | (Inr _, s) \<Rightarrow>
               (case da_connect a of Some err \<Rightarrow> Inl err | None \<Rightarrow> Inr (s\<lparr>sk_remote := Some (da_addr a)\<rparr>))))"

fun dialSerial :: "socket_bind \<Rightarrow> int \<Rightarrow> string option \<Rightarrow> dial_address list \<Rightarrow> (string, udp_socket) result" where
  "dialSerial bindf ifIndex firstErr [] = Inl (case firstErr of None \<Rightarrow> ''missing address'' | Some e \<Rightarrow> e)"
| "dialSerial bindf ifIndex firstErr (a # addrs) =
     (case dialOne bindf ifIndex a of
        Inr s \<Rightarrow> Inr s
      | Inl err \<Rightarrow> dialSerial bindf ifIndex (Some (case firstErr of None \<Rightarrow> err | Some e \<Rightarrow> e)) addrs)"

text \<open>
  \<open>interfaceIndex\<close> is \<^verbatim>\<open>net.InterfaceByName\<close>, \<open>resolve\<close> the resolver. A connection dialled for \<^verbatim>\<open>udp\<close> is a
  \<^verbatim>\<open>*net.UDPConn\<close>, so the type assertion at the end does not fail.
\<close>

definition DialUDP ::
  "socket_bind \<Rightarrow> (string \<Rightarrow> int option) \<Rightarrow> (string \<Rightarrow> (string, dial_address list) result) \<Rightarrow> string \<Rightarrow> string \<Rightarrow>
   (dial_error, udp_socket) result" where
  "DialUDP bindf interfaceIndex resolve iface remote =
     (if iface = '''' then Inl ErrNoInterface
      else case interfaceIndex iface of
        None \<Rightarrow> Inl (NoSuchInterface iface)
      | Some ifIndex \<Rightarrow>
          (case resolve remote of
             Inl err \<Rightarrow> Inl (DialVia remote iface err)
           | Inr addrs \<Rightarrow>
               (case dialSerial bindf ifIndex None addrs of
                  Inl err \<Rightarrow> Inl (DialVia remote iface err)
                | Inr conn \<Rightarrow> Inr conn)))"

section \<open>Lemmas\<close>

text \<open>The option that decides the egress of a socket of this network is set to this interface.\<close>

definition bound_to :: "int \<Rightarrow> udp_socket \<Rightarrow> bool" where
  "bound_to i s \<longleftrightarrow>
     (if sk_network s \<in> {''udp4'', ''tcp4'', ''ip4''} then sk_bound4 s = Some i
      else if sk_network s \<in> {''udp6'', ''tcp6'', ''ip6''} then sk_bound6 s = Some i
      else sk_bound4 s = Some i \<and> sk_bound6 s = Some i)"

lemma bindToInterface_bound:
  "bindToInterface so (sk_network s) i s = (Inr u, s') \<Longrightarrow> bound_to i s' \<and> sk_network s' = sk_network s"
  by (auto simp: bindToInterface_def bound_to_def set4_def set6_def split: if_splits option.splits sum.splits prod.splits)

lemma dialOne_bound:
  assumes "dialOne (bindToInterface so) i a = Inr s"
  shows "bound_to i s \<and> sk_network s = da_network a \<and> sk_remote s = Some (da_addr a)"
proof -
  let ?s0 = "\<lparr>sk_network = da_network a, sk_bound4 = None, sk_bound6 = None, sk_remote = None\<rparr>"
  from assms obtain s1 where "bindToInterface so (da_network a) i ?s0 = (Inr (), s1)" "s = s1\<lparr>sk_remote := Some (da_addr a)\<rparr>"
    by (auto simp: dialOne_def control_def split: option.splits sum.splits prod.splits)
  with bindToInterface_bound [of so ?s0 i "()" s1] show ?thesis by (simp add: bound_to_def)
qed

lemma dialSerial_first: "dialSerial bindf i e addrs = Inr s \<Longrightarrow> \<exists>a \<in> set addrs. dialOne bindf i a = Inr s"
  by (induction addrs arbitrary: e) (auto split: sum.splits)

lemma dialOne_other: "dialOne (bindToInterface_other goos) i a \<noteq> Inr s"
  by (auto simp: dialOne_def control_def bindToInterface_other_def split: option.splits sum.splits prod.splits)

lemma DialUDP_bound:
  assumes "DialUDP (bindToInterface so) interfaceIndex resolve iface remote = Inr s"
  obtains i addrs where "interfaceIndex iface = Some i" "bound_to i s" "resolve remote = Inr addrs"
    "(sk_network s, sk_remote s) \<in> (\<lambda>a. (da_network a, Some (da_addr a))) ` set addrs"
  using assms dialSerial_first dialOne_bound
  by (fastforce simp: DialUDP_def split: if_splits option.splits sum.splits)

lemma DialUDP_other: "DialUDP (bindToInterface_other goos) interfaceIndex resolve iface remote \<noteq> Inr s"
  using dialSerial_first dialOne_other by (fastforce simp: DialUDP_def split: if_splits option.splits sum.splits)

section \<open>The probe command over bound sockets\<close>

definition dials ::
  "socket_bind \<Rightarrow> (string \<Rightarrow> int option) \<Rightarrow> (string \<Rightarrow> (string, dial_address list) result) \<Rightarrow> string \<Rightarrow> string \<Rightarrow> bool" where
  "dials bindf interfaceIndex resolve iface remote =
     (case DialUDP bindf interfaceIndex resolve iface remote of Inl _ \<Rightarrow> False | Inr _ \<Rightarrow> True)"

text \<open>The interfaces a run writes to; a probe carries the tag of its interface.\<close>

definition planned :: "probeConfig \<Rightarrow> string \<Rightarrow> PathTag \<Rightarrow> bool" where
  "planned cfg iface tag \<longleftrightarrow> iface = pc_iface cfg \<and> tag = pc_path cfg \<or> dualPath cfg \<and> iface = pc_iface2 cfg \<and> tag = pc_path2 cfg"

definition tagged :: "probeConfig \<Rightarrow> (string \<times> bytes) list \<Rightarrow> bool" where
  "tagged cfg ws \<longleftrightarrow> (\<forall>(iface, w) \<in> set ws. \<exists>tag. planned cfg iface tag \<and> w ! 5 = tag)"

lemma write_copies_set: "set (fst (write_copies ok n iface wire k ws)) \<subseteq> set ws \<union> {(iface, wire)}"
proof (induction k arbitrary: ws)
  case (Suc k)
  show ?case using Suc.IH [of "ws @ [(iface, wire)]"] by auto
qed auto

lemma write_copies_tagged:
  assumes "tagged cfg ws" and "planned cfg iface tag" and "wire ! 5 = tag" and "write_copies ok n iface wire k ws = (ws', e)"
  shows "tagged cfg ws'"
  using assms write_copies_set [of ok n iface wire k ws] by (fastforce simp: tagged_def)

lemma Marshal_tag: "ProbePacket_MarshalBinary p = Inr w \<Longrightarrow> w ! 5 = Path p"
  by (auto simp: ProbePacket_MarshalBinary_def probeMagic_def split: if_splits)

lemma send_probe_tagged:
  assumes "tagged cfg (fst st)"
  shows "tagged cfg (fst (send_probe cfg session ok st n))"
proof -
  have p: "planned cfg (pc_iface cfg) (pc_path cfg)" "dualPath cfg \<Longrightarrow> planned cfg (pc_iface2 cfg) (pc_path2 cfg)"
    by (simp_all add: planned_def)
  obtain ws e where st: "st = (ws, e)" by fastforce
  show ?thesis
  proof (cases e)
    case None
    let ?pid = "\<lparr>Session = session, Number = uint64_of n\<rparr>"
    show ?thesis
    proof (cases "ProbePacket_MarshalBinary \<lparr>ID = ?pid, Path = pc_path cfg\<rparr>")
      case (Inr wire)
      obtain ws1 e1 where w: "write_copies ok n (pc_iface cfg) wire (if pc_duplicate cfg then 2 else 1) ws = (ws1, e1)" by fastforce
      have t1: "tagged cfg ws1" using write_copies_tagged [OF _ p(1) _ w] assms Marshal_tag [OF Inr] by (simp add: st)
      have "tagged cfg (fst (write_copies ok n (pc_iface2 cfg) wire2 1 ws1))"
        if "dualPath cfg" "ProbePacket_MarshalBinary \<lparr>ID = ?pid, Path = pc_path2 cfg\<rparr> = Inr wire2" for wire2
        using write_copies_tagged [OF t1 p(2), of wire2] Marshal_tag [OF that(2)] that(1) by (metis ProbePacket.select_convs(2) prod.collapse)
      with t1 show ?thesis
        by (auto simp: send_probe_def st None Let_def Inr w split: option.splits sum.splits)
    qed (use assms in \<open>simp add: send_probe_def st None Let_def\<close>)
  qed (use assms in \<open>simp add: send_probe_def st\<close>)
qed

lemma run_tagged: "tagged cfg (fst st) \<Longrightarrow> tagged cfg (fst (foldl (send_probe cfg session ok) st ns))"
  by (induction ns arbitrary: st) (simp_all add: send_probe_tagged)

lemma runProbe_writes:
  assumes "runProbe fs dial rnd ok = (ws, res)" and "(iface, w) \<in> set ws"
  obtains cfg where "parseProbeConfig fs = Inr cfg" "planned cfg iface (w ! 5)" "dial iface (pc_to cfg)"
proof -
  from assms obtain cfg session where c: "parseProbeConfig fs = Inr cfg" "dial (pc_iface cfg) (pc_to cfg)"
      "dualPath cfg \<Longrightarrow> dial (pc_iface2 cfg) (pc_to cfg)"
    and w: "ws = fst (foldl (send_probe cfg session ok) ([], None) [1..pc_count cfg])"
    by (auto simp: runProbe_def split: sum.splits if_splits prod.splits option.splits) (metis fst_conv)+
  have "tagged cfg ws" unfolding w by (rule run_tagged) (simp add: tagged_def)
  with assms(2) have "planned cfg iface (w ! 5)" by (auto simp: tagged_def)
  with c that show thesis by (auto simp: planned_def)
qed

section \<open>Property\<close>

text \<open>
  C37. Every probe leaves over the interface it names: on macOS, whatever addresses the gateway's name resolves to and
  whichever calls fail, each datagram the probe command writes carries the path tag configured for its interface and is
  written to a socket whose egress was bound to the index of that interface before it was connected to a resolved
  address. On other platforms nothing is written at all.
\<close>

theorem probe_egress_bound:
  assumes "runProbe fs (dials (bindToInterface so) interfaceIndex resolve) rnd ok = (ws, res)" and "(iface, w) \<in> set ws"
    and "runProbe fs (dials (bindToInterface_other goos) interfaceIndex resolve) rnd ok = (ws', res')"
  shows "(\<exists>cfg s i addrs. parseProbeConfig fs = Inr cfg \<and>
       (iface = pc_iface cfg \<and> w ! 5 = pc_path cfg \<or> dualPath cfg \<and> iface = pc_iface2 cfg \<and> w ! 5 = pc_path2 cfg) \<and>
       DialUDP (bindToInterface so) interfaceIndex resolve iface (pc_to cfg) = Inr s \<and>
       interfaceIndex iface = Some i \<and> bound_to i s \<and> resolve (pc_to cfg) = Inr addrs \<and>
       sk_remote s \<in> (\<lambda>a. Some (da_addr a)) ` set addrs) \<and> ws' = []"
proof -
  obtain cfg where c: "parseProbeConfig fs = Inr cfg" "planned cfg iface (w ! 5)"
    "dials (bindToInterface so) interfaceIndex resolve iface (pc_to cfg)" by (rule runProbe_writes [OF assms(1,2)])
  then obtain s where d: "DialUDP (bindToInterface so) interfaceIndex resolve iface (pc_to cfg) = Inr s"
    by (auto simp: dials_def split: sum.splits)
  have "\<not> dials (bindToInterface_other goos) interfaceIndex resolve i r" for i r
    using DialUDP_other by (auto simp: dials_def split: sum.splits)
  with runProbe_writes [OF assms(3)] have "(i, b) \<notin> set ws'" for i b by metis
  then have "ws' = []" by (cases ws') force+
  with c d show ?thesis by (auto elim!: DialUDP_bound simp: planned_def image_iff)
qed

definition demo_resolve :: "string \<Rightarrow> (string, dial_address list) result" where
  "demo_resolve remote = Inr [\<lparr>da_network = ''udp6'', da_addr = ''v6'', da_socket = None, da_control = None, da_connect = Some ''unreachable''\<rparr>,
     \<lparr>da_network = ''udp4'', da_addr = ''v4'', da_socket = None, da_control = None, da_connect = None\<rparr>]"

theorem probe_egress_bound_witness:
  "\<exists>s. DialUDP (bindToInterface (\<lambda>_ _ _. None)) [''en0'' \<mapsto> 4] demo_resolve ''en0'' ''gw:51820'' = Inr s \<and> bound_to 4 s \<and>
     sk_remote s \<in> {Some ''v6'', Some ''v4''}"
proof -
  let ?fs = "demo_flags\<lparr>fl_interface2 := []\<rparr>"
  let ?dial = "dials (bindToInterface (\<lambda>_ _ _. None)) [''en0'' \<mapsto> 4] demo_resolve"
  let ?other = "runProbe ?fs (dials (bindToInterface_other ''linux'') [''en0'' \<mapsto> 4] demo_resolve) (Some (replicate 16 1)) (\<lambda>_. True)"
  let ?cfg = "\<lparr>pc_iface = ''en0'', pc_to = ''gw:51820'', pc_path = PathWiFi, pc_count = 2, pc_duplicate = False, pc_iface2 = [], pc_path2 = PathUnknown\<rparr>"
  have cfg: "parseProbeConfig ?fs = Inr ?cfg" by (simp add: parseProbeConfig_def demo_flags_def parsePathTag_def)
  have r: "randomSession (Some (replicate 16 1)) = Inr (replicate 16 1)" "\<not> SessionID_IsZero (replicate 16 1)"
    by (simp_all add: randomSession_def SessionID_IsZero_iff)
  have "?dial ''en0'' ''gw:51820''"
    by (simp add: dials_def DialUDP_def demo_resolve_def dialOne_def control_def bindToInterface_def set4_def set6_def)
  with runProbe_all [OF cfg r, of ?dial] have run: "runProbe ?fs ?dial (Some (replicate 16 1)) (\<lambda>_. True) =
      (map (\<lambda>(iface, n, tag). (iface, probe_wire (replicate 16 1) n tag)) (probe_plan ?cfg), Inr (probe_summary ?cfg (length (probe_plan ?cfg))))"
    by (simp add: demo_flags_def max_int64_def dualPath_def)
  have "(''en0'', probe_wire (replicate 16 1) 1 PathWiFi) \<in> set (map (\<lambda>(iface, n, tag). (iface, probe_wire (replicate 16 1) n tag)) (probe_plan ?cfg))"
    by (force simp: probe_plan_def)
  from probe_egress_bound [OF run this, of "''linux''" "fst ?other" "snd ?other"] cfg show ?thesis
    by (auto simp: demo_resolve_def)
qed

end
