(* ===== verification/Identity_Text.thy ===== *)
theory Identity_Text
  imports Protocol Go_Strings
begin

text \<open>
  The printed form of packet identities (\<^verbatim>\<open>internal/protocol/identity.go\<close>): it determines a valid identity, and no
  valid one prints like an invalid one.
\<close>

definition SessionID_String :: "SessionID \<Rightarrow> string" where
  "SessionID_String sid = hex_EncodeToString sid"

definition PacketID_String :: "PacketID \<Rightarrow> string" where
  "PacketID_String pid =
     (if \<not> PacketID_Valid pid then ''invalid-packet-id''
      else SessionID_String (Session pid) @ '':'' @ FormatInt (uint (Number pid)))"

lemma SessionID_String_inj: "SessionID_String s = SessionID_String t \<longleftrightarrow> s = t"
  unfolding SessionID_String_def by (metis hex_Decode_Encode option.inject)

lemma hex_length: "length (hex_EncodeToString s) = 2 * length s"
  by (induction s) (simp_all add: hex_EncodeToString_def)

lemma uint64_Format_inj:
  fixes m n :: u64
  assumes "FormatInt (uint m) = FormatInt (uint n)"
  shows "m = n"
proof -
  have "nat_digits (nat (uint m)) = nat_digits (nat (uint n))" using assms by (simp add: FormatInt_def)
  then have "nat (uint m) = nat (uint n)" by (metis nat_digits_ok)
  then show ?thesis by (simp add: word_unat_eq_iff)
qed

lemma PacketID_String_inj:
  assumes "wf_session (Session p)" and "wf_session (Session q)" and "PacketID_Valid p" and "PacketID_String p = PacketID_String q"
  shows "p = q"
proof -
  have len: "length (hex_EncodeToString (Session p)) = 32" "length (hex_EncodeToString (Session q)) = 32"
    using assms(1,2) by (simp_all add: hex_length wf_session_def SessionIDSize_def)
  show ?thesis
  proof (cases "PacketID_Valid q")
    case True
    then have "hex_EncodeToString (Session p) = hex_EncodeToString (Session q) \<and>
        FormatInt (uint (Number p)) = FormatInt (uint (Number q))"
      using assms(3,4) len by (simp add: PacketID_String_def SessionID_String_def)
    then have "Session p = Session q \<and> Number p = Number q"
      using SessionID_String_inj uint64_Format_inj by (simp add: SessionID_String_def)
    then show ?thesis by simp
  next
    case False
    then have "length (PacketID_String q) = 17" by (simp add: PacketID_String_def)
    moreover have "length (PacketID_String p) > 32" using assms(3) len by (simp add: PacketID_String_def SessionID_String_def)
    ultimately show ?thesis using assms(4) by simp
  qed
qed

end
