(* ===== verification/Float64.thy ===== *)
theory Float64
  imports Complex_Main "HOL-Library.Log_Nat"
begin

text \<open>
  Go \<^verbatim>\<open>float64\<close> arithmetic on the values the code computes with: a finite value is the rational number it
  stands for, and an operation rounds its exact result to 53 significant bits, to the nearest and halves to even. The
  values here stay far from overflow and from the subnormal numbers, so neither is represented.
\<close>

definition round_even :: "rat \<Rightarrow> int" where
  "round_even x =
     (let f = \<lfloor>x\<rfloor>; d = x - of_int f in
      if d < 1 / 2 then f else if d > 1 / 2 then f + 1 else if even f then f else f + 1)"

text \<open>The exponent of the leading bit of a positive number.\<close>

definition lead_exp :: "rat \<Rightarrow> int" where
  "lead_exp x =
     (case quotient_of x of (n, d) \<Rightarrow>
        let k = int (floorlog 2 (nat n)) - int (floorlog 2 (nat d)) in
        if 2 powi k \<le> x then k else k - 1)"

definition float64 :: "rat \<Rightarrow> rat" where
  "float64 x =
     (if x = 0 then 0
      else let e = lead_exp \<bar>x\<bar> - 52 in of_int (round_even (x / 2 powi e)) * 2 powi e)"

section \<open>Rounding error\<close>

lemma round_even_error: "\<bar>of_int (round_even x) - x\<bar> \<le> 1 / 2"
proof -
  have "0 \<le> x - of_int \<lfloor>x\<rfloor>" "x - of_int \<lfloor>x\<rfloor> < 1" by linarith+
  then show ?thesis by (auto simp: round_even_def Let_def abs_if; linarith)
qed

lemma round_even_int [simp]: "round_even (of_int i) = i"
  by (simp add: round_even_def)

lemma lead_exp_bounds:
  assumes "0 < x"
  shows "2 powi lead_exp x \<le> x" "x < 2 powi (lead_exp x + 1)"
proof -
  obtain n d where q: "quotient_of x = (n, d)" by fastforce
  have x: "x = of_int n / of_int d" "0 < d" using q quotient_of_div quotient_of_denom_pos by blast+
  then have n: "0 < n" using assms by (simp add: zero_less_divide_iff)
  let ?a = "floorlog 2 (nat n)" and ?b = "floorlog 2 (nat d)"
  have pos: "0 < ?a" "0 < ?b" using n x(2) by (simp_all add: floorlog_def)
  have nb: "2 ^ (?a - 1) \<le> nat n" "nat n < 2 ^ ?a" "2 ^ (?b - 1) \<le> nat d" "nat d < 2 ^ ?b"
    using floorlog_bounds [of "nat n" 2] floorlog_bounds [of "nat d" 2] n x(2) by auto
  have cast: "(of_int i :: rat) = of_nat (nat i)" if "0 < i" for i using that by simp
  have p: "(2 :: rat) powi (int ?a - 1) = of_nat (2 ^ (?a - 1))" "(2 :: rat) powi int ?a = of_nat (2 ^ ?a)"
    "(2 :: rat) powi (int ?b - 1) = of_nat (2 ^ (?b - 1))" "(2 :: rat) powi int ?b = of_nat (2 ^ ?b)"
    using pos by (simp_all flip: of_nat_diff power_int_of_nat add: of_nat_diff)
  have b: "2 powi (int ?a - 1) \<le> (of_int n :: rat)" "(of_int n :: rat) < 2 powi int ?a"
      "2 powi (int ?b - 1) \<le> (of_int d :: rat)" "(of_int d :: rat) < 2 powi int ?b"
    unfolding p cast [OF n] cast [OF x(2)] of_nat_le_iff of_nat_less_iff by (rule nb)+
  let ?k = "int ?a - int ?b"
  have up: "x < 2 powi (?k + 1)"
  proof -
    have "x < 2 powi int ?a / 2 powi (int ?b - 1)"
      unfolding x(1) by (rule frac_less) (use b n x(2) in auto)
    also have "\<dots> = 2 powi (?k + 1)" by (simp add: power_int_diff power_int_add)
    finally show ?thesis .
  qed
  have low: "2 powi (?k - 1) \<le> x"
  proof -
    have "2 powi (int ?a - 1) / 2 powi int ?b \<le> x"
      unfolding x(1) by (rule frac_le) (use b n x(2) in auto)
    then show ?thesis by (simp add: power_int_diff power_int_add algebra_simps)
  qed
  show "2 powi lead_exp x \<le> x" "x < 2 powi (lead_exp x + 1)"
    using up low by (auto simp: lead_exp_def q Let_def)
qed

text \<open>The relative error of an operation is at most one part in \<open>2 ^ 53\<close>.\<close>

lemma float64_error: "\<bar>float64 x - x\<bar> \<le> \<bar>x\<bar> / 2 ^ 53"
proof (cases "x = 0")
  case False
  let ?e = "lead_exp \<bar>x\<bar> - 52"
  have "float64 x - x = (of_int (round_even (x / 2 powi ?e)) - x / 2 powi ?e) * 2 powi ?e"
    using False by (simp add: float64_def Let_def algebra_simps)
  then have "\<bar>float64 x - x\<bar> \<le> 1 / 2 * 2 powi ?e"
    using round_even_error [of "x / 2 powi ?e"] by (simp add: abs_mult)
  also have "\<dots> = 2 powi lead_exp \<bar>x\<bar> / 2 ^ 53" by (simp add: power_int_diff)
  also have "\<dots> \<le> \<bar>x\<bar> / 2 ^ 53" using lead_exp_bounds(1) [of "\<bar>x\<bar>"] False by (intro divide_right_mono) auto
  finally show ?thesis .
qed (simp add: float64_def)

definition ulp :: rat where "ulp = 1 / 2 ^ 53"

lemma ulp_range: "0 \<le> ulp" "ulp \<le> 1"
  by (simp_all add: ulp_def)

lemma float64_bounds:
  assumes "0 \<le> x"
  shows "x * (1 - ulp) \<le> float64 x" "float64 x \<le> x * (1 + ulp)" "0 \<le> float64 x"
proof -
  have e: "\<bar>float64 x - x\<bar> \<le> x * ulp" using float64_error [of x] assms by (simp add: ulp_def)
  from abs_le_D1 [OF e] abs_le_D2 [OF e] show b: "x * (1 - ulp) \<le> float64 x" "float64 x \<le> x * (1 + ulp)"
    by (simp_all add: algebra_simps)
  have "0 \<le> x * (1 - ulp)" using assms ulp_range by (intro mult_nonneg_nonneg) auto
  also note b(1)
  finally show "0 \<le> float64 x" .
qed

lemma float64_zero [simp]: "float64 0 = 0"
  by (simp add: float64_def)

text \<open>Integers of at most 53 bits are represented exactly.\<close>

lemma float64_int:
  assumes "\<bar>i\<bar> < 2 ^ 53"
  shows "float64 (of_int i) = of_int i"
proof (cases "i = 0")
  case False
  let ?e = "lead_exp \<bar>of_int i :: rat\<bar> - 52"
  have "2 powi lead_exp \<bar>of_int i :: rat\<bar> \<le> \<bar>of_int i :: rat\<bar>" using lead_exp_bounds(1) [of "\<bar>of_int i :: rat\<bar>"] False by simp
  also have "\<dots> < 2 powi 53" using assms by (simp flip: of_int_abs of_int_power of_int_less_iff add: of_int_less_iff)
  finally have "?e \<le> 0"
    using power_int_increasing [of 53 "lead_exp \<bar>of_int i :: rat\<bar>" "2 :: rat"] by (cases "53 \<le> lead_exp \<bar>of_int i :: rat\<bar>") auto
  then have "of_int i / 2 powi ?e = (of_int (i * 2 ^ nat (- ?e)) :: rat)" by (simp add: power_int_def field_simps)
  then have "round_even (of_int i / 2 powi ?e) = i * 2 ^ nat (- ?e)" by (simp only: round_even_int)
  with \<open>?e \<le> 0\<close> False show ?thesis by (simp add: float64_def Let_def power_int_def field_simps)
qed simp

end
