(* ===== verification/Benchmark.thy ===== *)
theory Benchmark
  imports Float64 Go_Text Data_Gateway
begin

text \<open>
  \<^verbatim>\<open>cmd/geminactl/benchmark.go\<close>: pinging gateways and recommending the best one. The flag values, the
  connections and the clock are arguments; a loss is a \<^verbatim>\<open>float64\<close>, see the theory of that name.
\<close>

section \<open>The code\<close>

record benchmarkStats =
  bs_Label :: string
  bs_Sent :: int
  bs_Received :: int
  bs_LossPercent :: rat
  bs_Min :: duration
  bs_Avg :: duration
  bs_Max :: duration

definition summarise :: "string \<Rightarrow> int \<Rightarrow> duration list \<Rightarrow> benchmarkStats" where
  "summarise label sent rtts =
     (let n = int (length rtts);
          loss = (if sent > 0
                  then float64 (float64 (float64 (of_int (wrap64 (sent - n))) / float64 (of_int sent)) * 100) else 0);
          s = \<lparr>bs_Label = label, bs_Sent = sent, bs_Received = n, bs_LossPercent = loss, bs_Min = 0, bs_Avg = 0, bs_Max = 0\<rparr>
      in if length rtts = 0 then (if sent > 0 then s\<lparr>bs_LossPercent := 100\<rparr> else s)
         else
           let sorted_rtts = sort rtts;
               total = foldl (\<lambda>t d. wrap64 (t + d)) 0 sorted_rtts
           in s\<lparr>bs_Min := hd sorted_rtts, bs_Max := last sorted_rtts, bs_Avg := go_div total n\<rparr>)"

text \<open>The loop of \<^verbatim>\<open>recommend\<close> on its three variables.\<close>

definition recommend_step :: "string \<times> rat \<times> duration \<Rightarrow> benchmarkStats \<Rightarrow> string \<times> rat \<times> duration" where
  "recommend_step = (\<lambda>(best, bestLoss, bestAvg) r.
     if bs_Received r = 0 then (best, bestLoss, bestAvg)
     else if bs_LossPercent r < bestLoss \<or> bs_LossPercent r = bestLoss \<and> bs_Avg r < bestAvg
     then (bs_Label r, bs_LossPercent r, bs_Avg r)
     else (best, bestLoss, bestAvg))"

definition recommend :: "benchmarkStats list \<Rightarrow> string" where
  "recommend results = fst (foldl recommend_step ('''', 101, 0) results)"

text \<open>\<^verbatim>\<open>Duration.Round\<close>, half away from zero and saturating.\<close>

definition Duration_Round :: "duration \<Rightarrow> duration \<Rightarrow> duration" where
  "Duration_Round d m =
     (if m \<le> 0 then d
      else
        let r = \<bar>d\<bar> mod m in
        if d < 0 then
          (if r + r < m then d + r else let d1 = wrap64 (d - m + r) in if d1 < d then d1 else min_int64)
        else (if r + r < m then d - r else let d1 = wrap64 (d + m - r) in if d1 > d then d1 else max_int64))"

text \<open>\<^verbatim>\<open>Duration.String\<close>: the fraction of \<open>v / 10 ^ prec\<close> without trailing zeros, and the integer part before it.\<close>

fun frac_digits :: "nat \<Rightarrow> nat \<Rightarrow> bool \<Rightarrow> string" where
  "frac_digits 0 v started = (if started then ''.'' else '''')"
| "frac_digits (Suc prec) v started =
     (let digit = v mod 10; started' = (started \<or> digit \<noteq> 0)
      in frac_digits prec (v div 10) started' @ (if started' then [char_of (48 + digit)] else ''''))"

definition fmt_frac :: "nat \<Rightarrow> nat \<Rightarrow> string \<times> nat" where
  "fmt_frac v prec = (frac_digits prec v False, v div 10 ^ prec)"

definition Duration_String :: "duration \<Rightarrow> string" where
  "Duration_String d =
     (let u = nat \<bar>d\<bar>;
          body =
            (if u = 0 then ''0s''
             else if u < 10 ^ 9 then
               (let (prec, unit) = (if u < 10 ^ 3 then (0, ''n'') else if u < 10 ^ 6 then (3, [CHR 0xC2, CHR 0xB5]) else (6, ''m''));
                    (f, v) = fmt_frac u prec
                in nat_digits v @ f @ unit @ ''s'')
             else
               let (f, v) = fmt_frac u 9; m = v div 60; h = m div 60 in
               (if m > 0 then (if h > 0 then nat_digits h @ ''h'' else '''') @ nat_digits (m mod 60) @ ''m'' else '''') @
               nat_digits (v mod 60) @ f @ ''s'')
      in (if d < 0 then ''-'' else '''') @ body)"

definition dur :: "duration \<Rightarrow> string" where
  "dur d = (if d = 0 then ''-'' else Duration_String (Duration_Round d 100000))"

text \<open>Padding of \<^verbatim>\<open>fmt\<close> counts runes; the verb \<^verbatim>\<open>%.0f\<close> rounds to the nearest integer, halves to even.\<close>

definition pad_left :: "nat \<Rightarrow> string \<Rightarrow> string" where
  "pad_left n s = replicate (n - length (runes s)) (CHR '' '') @ s"

definition pad_right :: "nat \<Rightarrow> string \<Rightarrow> string" where
  "pad_right n s = s @ replicate (n - length (runes s)) (CHR '' '')"

definition format_0f :: "rat \<Rightarrow> string" where
  "format_0f x = (if x < 0 then ''-'' @ FormatInt (round_even (- x)) else FormatInt (round_even x))"

definition comparison_row :: "string \<Rightarrow> string \<Rightarrow> string \<Rightarrow> string \<Rightarrow> string \<Rightarrow> string" where
  "comparison_row label loss mn av mx =
     pad_right 16 label @ '' '' @ loss @ '' '' @ pad_left 8 mn @ '' '' @ pad_left 8 av @ '' '' @ pad_left 8 mx @ [newline]"

definition formatComparison :: "benchmarkStats list \<Rightarrow> string" where
  "formatComparison results =
     comparison_row ''gateway'' (pad_left 8 ''loss'') ''min'' ''avg'' ''max'' @
     concat (map (\<lambda>r. comparison_row (bs_Label r) (pad_left 7 (format_0f (bs_LossPercent r)) @ ''%'')
       (dur (bs_Min r)) (dur (bs_Avg r)) (dur (bs_Max r))) results) @
     (let best = recommend results in
      if best \<noteq> '''' then [newline] @ ''Recommended: '' @ best @ '' (lowest loss, then lowest latency).'' @ [newline] else '''')"

text \<open>
  What the environment supplies for one ping: the random bytes, whether the write succeeds, what the read within the
  timeout returns, and the time it took.
\<close>

record ping_try =
  pt_random :: bytes
  pt_writeOk :: bool
  pt_read :: "bytes \<Rightarrow> bytes option"
  pt_since :: duration

definition ping_once :: "ping_try \<Rightarrow> duration list" where
  "ping_once p =
     (let nonce = get_be64 (pt_random p) in
      if \<not> pt_writeOk p then []
      else case pt_read p (EncodePing nonce) of
        None \<Rightarrow> []
      | Some b \<Rightarrow>
          (case DecodePing (take 64 b) of
             Inr (isPong, got) \<Rightarrow> if isPong \<and> got = nonce then [pt_since p] else []
           | Inl _ \<Rightarrow> []))"

text \<open>\<open>dial\<close> is the error of \<^verbatim>\<open>net.Dial\<close>, if it fails; \<open>tries\<close> gives the environment of every ping of the loop.\<close>

definition pingTarget :: "string option \<Rightarrow> (nat \<Rightarrow> ping_try) \<Rightarrow> int \<Rightarrow> duration list \<times> string option" where
  "pingTarget dial tries cnt =
     (case dial of
        Some err \<Rightarrow> ([], Some err)
      | None \<Rightarrow> (concat (map (\<lambda>i. ping_once (tries i)) [0..<nat cnt]), None))"

definition multiFlag_String :: "string list \<Rightarrow> string" where
  "multiFlag_String m = (case m of [] \<Rightarrow> '''' | t # ts \<Rightarrow> t @ concat (map (\<lambda>x. '','' @ x) ts))"

definition multiFlag_Set :: "string list \<Rightarrow> string \<Rightarrow> string list" where
  "multiFlag_Set m v = m @ [v]"

datatype benchmark_error = NoTargets | BenchWrite

definition runBenchmark ::
  "string list \<Rightarrow> int \<Rightarrow> (string \<Rightarrow> string option) \<Rightarrow> (string \<Rightarrow> nat \<Rightarrow> ping_try) \<Rightarrow> bool \<Rightarrow>
   string \<times> (benchmark_error, unit) result" where
  "runBenchmark targets cnt dial tries writeOk =
     (if length targets = 0 then ('''', Inl NoTargets)
      else
        let pinged = map (\<lambda>t. (t, pingTarget (dial t) (tries t) cnt)) targets;
            notes = concat (map (\<lambda>(t, _, err). case err of None \<Rightarrow> '''' | Some e \<Rightarrow> t @ '': '' @ e @ [newline]) pinged);
            results = map (\<lambda>(t, rtts, _). summarise t cnt rtts) pinged
        in (notes @ (if writeOk then formatComparison results else ''''), if writeOk then Inr () else Inl BenchWrite))"

section \<open>Losses\<close>

text \<open>The loss as the code computes it, for \<open>k\<close> lost pings out of \<open>n\<close>.\<close>

definition loss_of :: "int \<Rightarrow> int \<Rightarrow> rat" where
  "loss_of n k = float64 (float64 (of_int k / of_int n) * 100)"

lemma loss_of_bounds:
  fixes n k :: int
  assumes "0 \<le> k" and "0 < n"
  shows "100 * (of_int k / of_int n) * (1 - ulp)\<^sup>2 \<le> loss_of n k"
    "loss_of n k \<le> 100 * (of_int k / of_int n) * (1 + ulp)\<^sup>2"
proof -
  define a :: rat where "a = of_int k / of_int n"
  have "0 \<le> a" using assms by (simp add: a_def)
  note A = float64_bounds [OF this]
  then have "0 \<le> float64 a * 100" by simp
  note L = float64_bounds [OF this]
  have "a * (1 - ulp) * (100 * (1 - ulp)) \<le> float64 a * (100 * (1 - ulp))" using A(1) ulp_range by (intro mult_right_mono) auto
  with L(1) show "100 * (of_int k / of_int n) * (1 - ulp)\<^sup>2 \<le> loss_of n k"
    unfolding a_def [symmetric] loss_of_def by (simp add: power2_eq_square algebra_simps)
  have "float64 a * (100 * (1 + ulp)) \<le> a * (1 + ulp) * (100 * (1 + ulp))" using A(2) ulp_range by (intro mult_right_mono) auto
  with L(2) show "loss_of n k \<le> 100 * (of_int k / of_int n) * (1 + ulp)\<^sup>2"
    unfolding a_def [symmetric] loss_of_def by (simp add: power2_eq_square algebra_simps)
qed

text \<open>The rounding never hides a difference: one more lost ping is a strictly larger loss.\<close>

lemma loss_of_strict:
  fixes n :: int
  assumes "0 \<le> k" and "k < k'" and "k' \<le> n" and "n \<le> 2 ^ 32"
  shows "loss_of n k < loss_of n k'"
proof -
  have n: "0 < n" using assms by linarith
  define x y m :: rat where d: "x = of_int k" "y = of_int k'" "m = of_int n"
  have "x \<le> of_int (2 ^ 32)" "x + 1 = of_int (k + 1)" "of_int (k + 1) \<le> y" using assms by (simp_all only: d of_int_le_iff of_int_add of_int_1)
  then have k: "x \<le> 2 ^ 32" "x + 1 \<le> y" by simp_all
  have sq: "0 \<le> (1 - ulp)\<^sup>2" by simp
  have "x * (1 + ulp)\<^sup>2 = x * (1 - ulp)\<^sup>2 + x * (4 * ulp)" by (simp add: power2_eq_square algebra_simps)
  also have "\<dots> \<le> x * (1 - ulp)\<^sup>2 + 2 ^ 32 * (4 * ulp)" using k(1) ulp_range by (intro add_left_mono mult_right_mono) auto
  also have "\<dots> < x * (1 - ulp)\<^sup>2 + (1 - ulp)\<^sup>2"
    by (rule add_strict_left_mono) (simp add: ulp_def power2_eq_square)
  also have "\<dots> = (x + 1) * (1 - ulp)\<^sup>2" by (simp add: algebra_simps)
  also have "\<dots> \<le> y * (1 - ulp)\<^sup>2" using k(2) sq by (rule mult_right_mono)
  finally have "x * (1 + ulp)\<^sup>2 < y * (1 - ulp)\<^sup>2" .
  then have "100 * (x / m) * (1 + ulp)\<^sup>2 < 100 * (y / m) * (1 - ulp)\<^sup>2"
    using n by (simp add: d divide_strict_right_mono)
  with loss_of_bounds [of k n] loss_of_bounds [of k' n] assms n show ?thesis by (simp add: d)
qed

lemma loss_of_less_101:
  fixes n :: int
  assumes "0 \<le> k" and "k \<le> n" and "0 < n"
  shows "loss_of n k < 101"
proof -
  have "of_int k / of_int n \<le> (1 :: rat)" using assms by simp
  then have "100 * (of_int k / of_int n) * (1 + ulp)\<^sup>2 \<le> 100 * 1 * (1 + ulp)\<^sup>2" by (intro mult_right_mono) auto
  moreover have "100 * 1 * (1 + ulp)\<^sup>2 < 101" by (simp add: ulp_def power2_eq_square)
  ultimately show ?thesis using loss_of_bounds(2) [of k n] assms by simp
qed

section \<open>The recommendation\<close>

abbreviation better :: "benchmarkStats \<Rightarrow> benchmarkStats \<Rightarrow> bool" where
  "better r s \<equiv> bs_LossPercent r < bs_LossPercent s \<or> bs_LossPercent r = bs_LossPercent s \<and> bs_Avg r < bs_Avg s"

text \<open>What the loop has found after a prefix: nothing that replied, or the first of the best.\<close>

definition found :: "benchmarkStats list \<Rightarrow> string \<times> rat \<times> duration \<Rightarrow> bool" where
  "found rs st \<longleftrightarrow>
     (\<forall>r \<in> set rs. bs_Received r = 0) \<and> st = ('''', 101, 0) \<or>
     (\<exists>xs r ys. rs = xs @ r # ys \<and> bs_Received r \<noteq> 0 \<and> st = (bs_Label r, bs_LossPercent r, bs_Avg r) \<and>
        (\<forall>x \<in> set xs. bs_Received x \<noteq> 0 \<longrightarrow> better r x) \<and> (\<forall>y \<in> set ys. bs_Received y \<noteq> 0 \<longrightarrow> \<not> better y r))"

lemma found_someI:
  assumes "rs = xs @ r # ys" and "bs_Received r \<noteq> 0" and "st = (bs_Label r, bs_LossPercent r, bs_Avg r)"
    and "\<And>x. x \<in> set xs \<Longrightarrow> bs_Received x \<noteq> 0 \<Longrightarrow> better r x" and "\<And>y. y \<in> set ys \<Longrightarrow> bs_Received y \<noteq> 0 \<Longrightarrow> \<not> better y r"
  shows "found rs st"
  unfolding found_def using assms by blast

lemma found_step:
  assumes "found rs st" and "bs_LossPercent r < 101"
  shows "found (rs @ [r]) (recommend_step st r)"
proof -
  from assms(1) consider (none) "\<forall>r \<in> set rs. bs_Received r = 0" "st = ('''', 101, 0)"
    | (some) xs b ys where "rs = xs @ b # ys" "bs_Received b \<noteq> 0" "st = (bs_Label b, bs_LossPercent b, bs_Avg b)"
      "\<forall>x \<in> set xs. bs_Received x \<noteq> 0 \<longrightarrow> better b x" "\<forall>y \<in> set ys. bs_Received y \<noteq> 0 \<longrightarrow> \<not> better y b"
    by (auto simp: found_def)
  then show ?thesis
  proof cases
    case none
    show ?thesis
    proof (cases "bs_Received r = 0")
      case True
      with none show ?thesis by (simp add: found_def recommend_step_def)
    next
      case False
      with none assms(2) show ?thesis by (intro found_someI [of _ rs r "[]"]) (auto simp: recommend_step_def)
    qed
  next
    case some
    show ?thesis
    proof (cases "bs_Received r \<noteq> 0 \<and> better r b")
      case True
      have "better r x" if "x \<in> set rs" "bs_Received x \<noteq> 0" for x using that some True by force
      then show ?thesis using some(3) True by (intro found_someI [of _ rs r "[]"]) (auto simp: recommend_step_def)
    next
      case False
      then have "recommend_step st r = st" by (auto simp: recommend_step_def some(3))
      moreover have "found (rs @ [r]) st"
        by (rule found_someI [of _ xs b "ys @ [r]"]) (use some False in auto)
      ultimately show ?thesis by simp
    qed
  qed
qed

lemma recommend_found:
  assumes "\<forall>r \<in> set rs. bs_LossPercent r < 101"
  shows "found rs (foldl recommend_step ('''', 101, 0) rs)"
  using assms
proof (induction rs rule: rev_induct)
  case (snoc r rs)
  then show ?case by (simp add: found_step)
qed (simp add: found_def)

text \<open>The summary of a target, when nothing overflows.\<close>

definition mean :: "duration list \<Rightarrow> duration" where
  "mean rtts = sum_list rtts div int (length rtts)"

lemma total_sum:
  assumes "\<forall>d \<in> set ds. 0 \<le> d" and "0 \<le> t" and "t + sum_list ds \<le> max_int64"
  shows "foldl (\<lambda>t d. wrap64 (t + d)) t ds = t + sum_list ds"
  using assms
proof (induction ds arbitrary: t)
  case (Cons d ds)
  have "0 \<le> sum_list ds" using Cons.prems(1) by (simp add: sum_list_nonneg)
  then have "wrap64 (t + d) = t + d" using Cons.prems by (intro wrap64_id) (simp_all add: min_int64_def)
  with Cons show ?case by (simp add: add.assoc)
qed simp

lemma sorted_ends: "sorted ys \<Longrightarrow> ys \<noteq> [] \<Longrightarrow> hd ys = Min (set ys) \<and> last ys = Max (set ys)"
proof
  assume s: "sorted ys" and ne: "ys \<noteq> []"
  then show "hd ys = Min (set ys)" by (cases ys) (auto intro!: Min_eqI [symmetric])
  from s ne show "last ys = Max (set ys)" by (cases ys rule: rev_cases) (auto simp: sorted_append intro!: Max_eqI [symmetric])
qed

lemma summarise_fields:
  assumes "0 < n" and "n \<le> 2 ^ 32" and "int (length rtts) \<le> n" and "rtts \<noteq> []"
    and "\<forall>d \<in> set rtts. 0 \<le> d" and "sum_list rtts \<le> max_int64"
  shows "bs_Label (summarise t n rtts) = t" "bs_Received (summarise t n rtts) = int (length rtts)"
    "bs_LossPercent (summarise t n rtts) = loss_of n (n - int (length rtts))" "bs_Avg (summarise t n rtts) = mean rtts"
    "bs_Min (summarise t n rtts) = Min (set rtts)" "bs_Max (summarise t n rtts) = Max (set rtts)"
proof -
  let ?k = "n - int (length rtts)"
  have w: "wrap64 ?k = ?k" using assms by (intro wrap64_id) (simp_all add: min_int64_def max_int64_def)
  have f: "float64 (of_int ?k) = of_int ?k" "float64 (of_int n) = of_int n" using assms by (intro float64_int; simp)+
  have "sum_list (sort rtts) = sum_list rtts" by (metis mset_sort sum_mset_sum_list)
  then have total: "foldl (\<lambda>t d. wrap64 (t + d)) 0 (sort rtts) = sum_list rtts"
    using total_sum [of "sort rtts" 0] assms(5,6) by simp
  have "0 \<le> sum_list rtts" using assms(5) by (simp add: sum_list_nonneg)
  then have "go_div (sum_list rtts) (int (length rtts)) = mean rtts" using assms(4) by (simp add: mean_def)
  then show "bs_Label (summarise t n rtts) = t" "bs_Received (summarise t n rtts) = int (length rtts)"
    "bs_LossPercent (summarise t n rtts) = loss_of n ?k" "bs_Avg (summarise t n rtts) = mean rtts"
    using assms(1,4) by (simp_all add: summarise_def Let_def w f loss_of_def total del: of_int_diff)
  have "hd (sort rtts) = Min (set rtts)" "last (sort rtts) = Max (set rtts)"
    using sorted_ends [OF sorted_sort, of rtts] assms(4) by (metis set_empty set_sort)+
  then show "bs_Min (summarise t n rtts) = Min (set rtts)" "bs_Max (summarise t n rtts) = Max (set rtts)"
    using assms(1,4) by (simp_all add: summarise_def Let_def)
qed

section \<open>Pings\<close>

lemma ping_once_cases: "ping_once p = [] \<or> ping_once p = [pt_since p]"
  by (auto simp: ping_once_def Let_def split: option.splits sum.splits)

lemma pingTarget_rtts:
  "length (fst (pingTarget dial tries n)) \<le> nat n"
  "\<forall>d \<in> set (fst (pingTarget dial tries n)). \<exists>i. d = pt_since (tries i)"
proof -
  have "length (concat (map (\<lambda>i. ping_once (tries i)) is)) \<le> length is" for "is"
  proof (induction "is")
    case (Cons i "is")
    then show ?case using ping_once_cases [of "tries i"] by auto
  qed simp
  moreover have since: "d = pt_since (tries i)" if "d \<in> set (ping_once (tries i))" for d i
    using ping_once_cases [of "tries i"] that by auto
  ultimately show "length (fst (pingTarget dial tries n)) \<le> nat n"
    by (auto simp: pingTarget_def dest: meta_spec [of _ "[0..<nat n]"] split: option.splits)
  show "\<forall>d \<in> set (fst (pingTarget dial tries n)). \<exists>i. d = pt_since (tries i)"
    using since by (auto simp: pingTarget_def split: option.splits)
qed

text \<open>
  A data gateway answers a ping, whatever its state and without changing it, and the answer counts; an answer to
  another ping does not.
\<close>

lemma gateway_answers_ping: "HandleDatagram C nh nt rnd g (EncodePing n) = (Some (EncodePong n), record_of ''ping'', g)"
proof -
  have "DecodePing (EncodePing n) = Inr (False, n)"
    by (simp add: EncodePing_def DecodePing_encode pingTypePing_def pingTypePong_def)
  with classify_ping [OF this] show ?thesis by (simp add: HandleDatagram_def)
qed

lemma pong_reply: "take 64 (EncodePong n) = EncodePong n" "DecodePing (EncodePong n) = Inr (True, n)"
  by (simp add: EncodePong_def encodePing_def pingMagic_def put_be64_def)
    (simp add: EncodePong_def DecodePing_encode pingTypePing_def pingTypePong_def)

lemma ping_once_gateway:
  assumes "pt_writeOk p" and "pt_read p = (\<lambda>b. fst (HandleDatagram C nh nt rnd g b))"
  shows "ping_once p = [pt_since p]"
  using assms by (simp add: ping_once_def gateway_answers_ping pong_reply)

lemma ping_once_nonce:
  assumes "ping_once p \<noteq> []"
  shows "\<exists>b. pt_read p (EncodePing (get_be64 (pt_random p))) = Some b \<and> take 64 b = EncodePong (get_be64 (pt_random p))"
  using assms DecodePing_inv by (fastforce simp: ping_once_def Let_def split: if_splits option.splits sum.splits prod.splits)

section \<open>Property\<close>

definition rtts_ok :: "int \<Rightarrow> duration list \<Rightarrow> bool" where
  "rtts_ok n r \<longleftrightarrow> 0 < n \<and> n \<le> 2 ^ 32 \<and> int (length r) \<le> n \<and> (\<forall>d \<in> set r. 0 \<le> d) \<and> sum_list r \<le> max_int64"

lemma summarise_loss:
  assumes "rtts_ok n r" and "r \<noteq> []" and "rtts_ok n s" and "s \<noteq> []"
  shows "bs_LossPercent (summarise t n r) < bs_LossPercent (summarise u n s) \<longleftrightarrow> length s < length r"
proof -
  have "bs_LossPercent (summarise t n r) = loss_of n (n - int (length r))"
    "bs_LossPercent (summarise u n s) = loss_of n (n - int (length s))"
    using assms by (simp_all add: rtts_ok_def summarise_fields)
  with loss_of_strict [of "n - int (length r)" "n - int (length s)" n]
    loss_of_strict [of "n - int (length s)" "n - int (length r)" n] assms show ?thesis
    by (cases "length s" "length r" rule: linorder_cases) (auto simp: rtts_ok_def)
qed

lemma summarise_better:
  assumes "rtts_ok n r" and "r \<noteq> []" and "rtts_ok n s" and "s \<noteq> []"
  shows "better (summarise t n r) (summarise u n s) \<longleftrightarrow> length s < length r \<or> length s = length r \<and> mean r < mean s"
proof -
  have "bs_Avg (summarise t n r) = mean r" "bs_Avg (summarise u n s) = mean s"
    using assms by (simp_all add: rtts_ok_def summarise_fields)
  moreover have "bs_LossPercent (summarise t n r) = bs_LossPercent (summarise u n s) \<longleftrightarrow> length s = length r"
    using summarise_loss [OF assms, of t u] summarise_loss [OF assms(3,4,1,2), of u t]
    by (cases "length s" "length r" rule: linorder_cases) auto
  ultimately show ?thesis using summarise_loss [OF assms, of t u] by simp
qed

lemma summarise_received: "bs_Received (summarise t n r) = 0 \<longleftrightarrow> r = []"
  by (auto simp: summarise_def Let_def)

lemma summarise_loss_101:
  assumes "rtts_ok n r"
  shows "bs_LossPercent (summarise t n r) < 101"
proof (cases "r = []")
  case False
  then show ?thesis using assms loss_of_less_101 [of "n - int (length r)" n] by (simp add: rtts_ok_def summarise_fields)
qed (use assms in \<open>simp add: summarise_def rtts_ok_def\<close>)

lemma sum_list_le_times: "\<forall>d \<in> set ds. d \<le> (b :: int) \<Longrightarrow> sum_list ds \<le> int (length ds) * b"
  by (induction ds) (auto simp: algebra_simps)

lemma pingTarget_ok:
  assumes "0 < n" and "n \<le> 2 ^ 32" and "\<And>i. 0 \<le> pt_since (tries i) \<and> pt_since (tries i) < 2 ^ 31"
  shows "rtts_ok n (fst (pingTarget dial tries n))"
proof -
  let ?r = "fst (pingTarget dial tries n)"
  have len: "int (length ?r) \<le> n" using pingTarget_rtts(1) [of dial tries n] assms(1) by simp
  have d: "0 \<le> d \<and> d \<le> 2 ^ 31 - 1" if "d \<in> set ?r" for d
    using pingTarget_rtts(2) [of dial tries n] that assms(3) by (metis zle_diff1_eq)
  then have "sum_list ?r \<le> int (length ?r) * (2 ^ 31 - 1)" by (intro sum_list_le_times) blast
  also have "\<dots> \<le> 2 ^ 32 * (2 ^ 31 - 1)" using len assms(2) by (intro mult_right_mono) auto
  finally have "sum_list ?r \<le> max_int64" by (simp add: max_int64_def)
  with len d assms(1,2) show ?thesis by (simp add: rtts_ok_def)
qed

text \<open>
  The benchmark recommends the best gateway: for up to \<open>2 ^ 32\<close> pings per target of at most about two seconds each, the
  recommendation is empty exactly when no target replied; otherwise it is the target with the most replies, among
  those with equally many the one with the least average round trip, and the first one listed if that is not
  unique. The percentages are rounded floating-point numbers, but the rounding never changes the choice.
\<close>

theorem benchmark_recommends_best:
  assumes "0 < n" and "n \<le> 2 ^ 32" and "\<And>t i. 0 \<le> pt_since (tries t i) \<and> pt_since (tries t i) < 2 ^ 31"
    and "rtts = (\<lambda>t. fst (pingTarget (dial t) (tries t) n))"
  shows "(\<forall>t \<in> set targets. rtts t = []) \<and> recommend (map (\<lambda>t. summarise t n (rtts t)) targets) = '''' \<or>
     (\<exists>xs t ys. targets = xs @ t # ys \<and> recommend (map (\<lambda>t. summarise t n (rtts t)) targets) = t \<and> rtts t \<noteq> [] \<and>
        (\<forall>x \<in> set xs. rtts x \<noteq> [] \<longrightarrow> length (rtts x) < length (rtts t) \<or>
           length (rtts x) = length (rtts t) \<and> mean (rtts t) < mean (rtts x)) \<and>
        (\<forall>y \<in> set ys. rtts y \<noteq> [] \<longrightarrow> length (rtts y) < length (rtts t) \<or>
           length (rtts y) = length (rtts t) \<and> mean (rtts t) \<le> mean (rtts y)))"
proof -
  let ?s = "\<lambda>t. summarise t n (rtts t)"
  have ok: "rtts_ok n (rtts t)" for t using assms by (simp add: pingTarget_ok)
  have "found (map ?s targets) (foldl recommend_step ('''', 101, 0) (map ?s targets))"
    using summarise_loss_101 [OF ok] by (intro recommend_found) auto
  then consider (none) "\<forall>t \<in> set targets. rtts t = []" "recommend (map ?s targets) = ''''"
    | (some) xs r ys where "map ?s targets = xs @ r # ys" "bs_Received r \<noteq> 0" "recommend (map ?s targets) = bs_Label r"
      "\<forall>x \<in> set xs. bs_Received x \<noteq> 0 \<longrightarrow> better r x" "\<forall>y \<in> set ys. bs_Received y \<noteq> 0 \<longrightarrow> \<not> better y r"
    by (auto simp: found_def recommend_def summarise_received)
  then show ?thesis
  proof cases
    case some
    from some(1) obtain us t vs where t: "targets = us @ t # vs" "xs = map ?s us" "r = ?s t" "ys = map ?s vs"
      by (auto simp: map_eq_append_conv)
    have ne: "rtts t \<noteq> []" using some(2) by (simp add: t(3) summarise_received)
    have "recommend (map ?s targets) = t" using some(3) ne ok by (simp add: t(3) summarise_fields rtts_ok_def)
    moreover have "length (rtts x) < length (rtts t) \<or> length (rtts x) = length (rtts t) \<and> mean (rtts t) < mean (rtts x)"
      if "x \<in> set us" "rtts x \<noteq> []" for x
      using some(4) that summarise_better [OF ok ne ok that(2), of t x] by (auto simp: t summarise_received)
    moreover have "length (rtts y) < length (rtts t) \<or> length (rtts y) = length (rtts t) \<and> mean (rtts t) \<le> mean (rtts y)"
      if "y \<in> set vs" "rtts y \<noteq> []" for y
      using some(5) that summarise_better [OF ok that(2) ok ne, of y t] by (auto simp: t summarise_received not_less)
    ultimately show ?thesis using t(1) ne by blast
  qed simp
qed

definition demo_try :: "duration \<Rightarrow> bool \<Rightarrow> ping_try" where
  "demo_try d answers = \<lparr>pt_random = [1, 2, 3, 4, 5, 6, 7, 8], pt_writeOk = True,
     pt_read = (\<lambda>b. if answers then Some (EncodePong (get_be64 [1, 2, 3, 4, 5, 6, 7, 8])) else None), pt_since = d\<rparr>"

lemma demo_tries:
  "pingTarget None (\<lambda>i. demo_try d True) 2 = ([d, d], None)" "pingTarget None (\<lambda>i. demo_try d (i = 0)) 2 = ([d], None)"
  "pingTarget None (\<lambda>i. demo_try d False) 2 = ([], None)"
proof -
  have "ping_once (demo_try d True) = [d]" "ping_once (demo_try d False) = []"
    by (simp_all add: ping_once_def demo_try_def pong_reply)
  then show "pingTarget None (\<lambda>i. demo_try d True) 2 = ([d, d], None)" "pingTarget None (\<lambda>i. demo_try d (i = 0)) 2 = ([d], None)"
    "pingTarget None (\<lambda>i. demo_try d False) 2 = ([], None)" by (simp_all add: pingTarget_def numeral_eq_Suc)
qed

definition demo_targets :: "string \<Rightarrow> nat \<Rightarrow> ping_try" where
  "demo_targets t =
     (if t = ''lossy'' then (\<lambda>i. demo_try 10 (i = 0)) else if t = ''slow'' then (\<lambda>_. demo_try 30 True)
      else if t = ''fast'' then (\<lambda>_. demo_try 20 True) else (\<lambda>_. demo_try 0 False))"

lemma split_four: "[a, b, c, d] = xs @ t # ys \<Longrightarrow> t = a \<and> ys = [b, c, d] \<or> t = b \<and> ys = [c, d] \<or> t = c \<or> t = d"
  by (auto simp: Cons_eq_append_conv)

end
