(* ===== verification/Go_Flags.thy ===== *)
theory Go_Flags
  imports Float64 Go_Text
begin

text \<open>
  What the commands use of the Go packages \<^verbatim>\<open>flag\<close>, \<^verbatim>\<open>strconv\<close> and \<^verbatim>\<open>time\<close> to read their
  arguments: \<^verbatim>\<open>FlagSet.Parse\<close> over string, integer, boolean, duration and repeated flags. A flag set writes
  into the record of its variables; the usage text it prints to the error stream is left out.
\<close>

section \<open>Values\<close>

definition ParseBool :: "string \<Rightarrow> bool option" where
  "ParseBool s =
     (if s \<in> set [''1'', ''t'', ''T'', ''true'', ''TRUE'', ''True''] then Some True
      else if s \<in> set [''0'', ''f'', ''F'', ''false'', ''FALSE'', ''False''] then Some False
      else None)"

text \<open>\<^verbatim>\<open>strconv.ParseInt(s, 0, 64)\<close>: the base is read from the prefix, digits may be separated by underscores.\<close>

definition digit_value :: "char \<Rightarrow> nat option" where
  "digit_value ch =
     (let n = of_char ch :: nat in
      if 48 \<le> n \<and> n \<le> 57 then Some (n - 48)
      else if 97 \<le> n \<and> n \<le> 122 then Some (n - 87)
      else if 65 \<le> n \<and> n \<le> 90 then Some (n - 55)
      else None)"

definition cut_base :: "string \<Rightarrow> nat \<times> string" where
  "cut_base s =
     (case s of
        [] \<Rightarrow> (10, s)
      | z # r \<Rightarrow>
          if z \<noteq> CHR ''0'' then (10, s)
          else if length s \<ge> 3 \<and> hd r \<in> {CHR ''b'', CHR ''B''} then (2, tl r)
          else if length s \<ge> 3 \<and> hd r \<in> {CHR ''o'', CHR ''O''} then (8, tl r)
          else if length s \<ge> 3 \<and> hd r \<in> {CHR ''x'', CHR ''X''} then (16, tl r)
          else (8, r))"

fun underscore_scan :: "bool \<Rightarrow> char \<Rightarrow> string \<Rightarrow> bool" where
  "underscore_scan hex saw [] \<longleftrightarrow> saw \<noteq> CHR ''_''"
| "underscore_scan hex saw (ch # s) \<longleftrightarrow>
     (if (case digit_value ch of Some d \<Rightarrow> d < (if hex then 16 else 10) | None \<Rightarrow> False) then underscore_scan hex (CHR ''0'') s
      else if ch = CHR ''_'' then saw = CHR ''0'' \<and> underscore_scan hex (CHR ''_'') s
      else saw \<noteq> CHR ''_'' \<and> underscore_scan hex (CHR ''!'') s)"

definition underscoreOK :: "string \<Rightarrow> bool" where
  "underscoreOK s =
     (if length s \<ge> 2 \<and> s ! 0 = CHR ''0'' \<and> s ! 1 \<in> set ''bBoOxX''
      then underscore_scan (s ! 1 \<in> set ''xX'') (CHR ''0'') (drop 2 s)
      else underscore_scan False (CHR ''^'') s)"

definition ParseUint0 :: "string \<Rightarrow> nat option" where
  "ParseUint0 s =
     (if s = '''' then None
      else
        let (base, r) = cut_base s;
            ds = map digit_value (filter (\<lambda>ch. ch \<noteq> CHR ''_'') r)
        in if list_all (\<lambda>d. case d of Some n \<Rightarrow> n < base | None \<Rightarrow> False) ds \<and> (CHR ''_'' \<in> set r \<longrightarrow> underscoreOK s)
           then Some (foldl (\<lambda>n d. n * base + the d) 0 ds) else None)"

definition ParseInt0 :: "string \<Rightarrow> int option" where
  "ParseInt0 s =
     (let (neg, r) = (case s of
            [] \<Rightarrow> (False, s)
          | ch # cs \<Rightarrow> if ch = CHR ''+'' then (False, cs) else if ch = CHR ''-'' then (True, cs) else (False, s))
      in case ParseUint0 r of
           None \<Rightarrow> None
         | Some n \<Rightarrow>
             if \<not> neg \<and> n \<ge> 2 ^ 63 \<or> neg \<and> n > 2 ^ 63 then None else Some (if neg then - int n else int n))"

text \<open>\<^verbatim>\<open>time.ParseDuration\<close>, on unsigned 64-bit sums; a fraction is scaled in floating point.\<close>

definition unit_value :: "string \<Rightarrow> nat option" where
  "unit_value u = map_of
     [(''ns'', 1), (''us'', 10 ^ 3), ([CHR 0xC2, CHR 0xB5, CHR ''s''], 10 ^ 3), ([CHR 0xCE, CHR 0xBC, CHR ''s''], 10 ^ 3),
      (''ms'', 10 ^ 6), (''s'', 10 ^ 9), (''m'', 60 * 10 ^ 9), (''h'', 3600 * 10 ^ 9)] u"

fun leadingFraction :: "nat \<Rightarrow> nat \<Rightarrow> bool \<Rightarrow> string \<Rightarrow> nat \<times> nat" where
  "leadingFraction x scale overflow [] = (x, scale)"
| "leadingFraction x scale overflow (ch # s) =
     (let y = x * 10 + (of_char ch - 48) in
      if overflow \<or> x > (2 ^ 63 - 1) div 10 \<or> y > 2 ^ 63 then leadingFraction x scale True s
      else leadingFraction y (scale * 10) False s)"

text \<open>One number with its unit; what follows is returned.\<close>

definition duration_part :: "string \<Rightarrow> (nat \<times> string) option" where
  "duration_part s =
     (let ds = takeWhile is_digit s;
          s1 = dropWhile is_digit s;
          point = (s1 \<noteq> [] \<and> hd s1 = CHR ''.'');
          fs = (if point then takeWhile is_digit (tl s1) else []);
          s2 = (if point then dropWhile is_digit (tl s1) else s1);
          (f, scale) = leadingFraction 0 1 False fs;
          in_unit = (\<lambda>ch. ch \<noteq> CHR ''.'' \<and> \<not> is_digit ch);
          v = digits_value ds
      in if v > 2 ^ 63 \<or> ds = [] \<and> fs = [] then None
         else case unit_value (takeWhile in_unit s2) of
           None \<Rightarrow> None
         | Some unit \<Rightarrow>
             if v > 2 ^ 63 div unit then None
             else
               let v1 = v * unit +
                     (if f > 0 then nat \<lfloor>float64 (float64 (of_nat f) * float64 (of_nat unit / of_nat scale))\<rfloor> else 0)
               in if v1 > 2 ^ 63 then None else Some (v1, dropWhile in_unit s2))"

text \<open>Every part consumes at least its unit, so as many rounds as characters are enough.\<close>

fun duration_sum :: "nat \<Rightarrow> nat \<Rightarrow> string \<Rightarrow> nat option" where
  "duration_sum fuel d [] = Some d"
| "duration_sum 0 d (ch # s) = None"
| "duration_sum (Suc fuel) d (ch # s) =
     (case duration_part (ch # s) of
        None \<Rightarrow> None
      | Some (v, r) \<Rightarrow> let d1 = (d + v) mod 2 ^ 64 in if d1 > 2 ^ 63 then None else duration_sum fuel d1 r)"

definition ParseDuration :: "string \<Rightarrow> int option" where
  "ParseDuration orig =
     (let (neg, s) = (case orig of
            [] \<Rightarrow> (False, orig)
          | ch # cs \<Rightarrow> if ch = CHR ''-'' \<or> ch = CHR ''+'' then (ch = CHR ''-'', cs) else (False, orig))
      in if s = ''0'' then Some 0
         else if s = '''' then None
         else case duration_sum (length s) 0 s of
           None \<Rightarrow> None
         | Some d \<Rightarrow>
             if neg then Some (wrap64 (- wrap64 (int d)))
             else if d > 2 ^ 63 - 1 then None else Some (int d))"

section \<open>Flag sets\<close>

text \<open>A flag is boolean or takes a value; setting it updates the variables, or fails.\<close>

datatype 'r flag_var = BoolFlag "bool \<Rightarrow> 'r \<Rightarrow> 'r" | ValueFlag "string \<Rightarrow> 'r \<Rightarrow> 'r option"

type_synonym 'r flag_set = "string \<Rightarrow> 'r flag_var option"

datatype flag_error =
  BadFlagSyntax string | UndefinedFlag string | ErrHelp | NeedsArgument string | InvalidBool string string | InvalidValue string string

definition StringVar :: "(string \<Rightarrow> 'r \<Rightarrow> 'r) \<Rightarrow> 'r flag_var" where
  "StringVar upd = ValueFlag (\<lambda>s r. Some (upd s r))"

definition IntVar :: "(int \<Rightarrow> 'r \<Rightarrow> 'r) \<Rightarrow> 'r flag_var" where
  "IntVar upd = ValueFlag (\<lambda>s r. map_option (\<lambda>i. upd i r) (ParseInt0 s))"

definition DurationVar :: "(int \<Rightarrow> 'r \<Rightarrow> 'r) \<Rightarrow> 'r flag_var" where
  "DurationVar upd = ValueFlag (\<lambda>s r. map_option (\<lambda>d. upd d r) (ParseDuration s))"

definition flag_name :: "string \<Rightarrow> (flag_error, string option) result" where
  "flag_name s =
     (if length s < 2 \<or> hd s \<noteq> CHR ''-'' \<or> s = ''--'' then Inr None
      else
        let name = (if s ! 1 = CHR ''-'' then drop 2 s else drop 1 s) in
        if name = [] \<or> hd name = CHR ''-'' \<or> hd name = CHR ''='' then Inl (BadFlagSyntax s) else Inr (Some name))"

text \<open>An equals sign in the first place has been refused already.\<close>

definition cut_value :: "string \<Rightarrow> string \<times> string option" where
  "cut_value name =
     (case strings_Cut (tl name) (CHR ''='') of
        (before, after, True) \<Rightarrow> (hd name # before, Some after)
      | (before, after, False) \<Rightarrow> (name, None))"

function flags_Parse :: "'r flag_set \<Rightarrow> 'r \<Rightarrow> string list \<Rightarrow> (flag_error, 'r \<times> string list) result" where
  "flags_Parse formal r [] = Inr (r, [])"
| "flags_Parse formal r (s # args) =
     (case flag_name s of
        Inl e \<Rightarrow> Inl e
      | Inr None \<Rightarrow> Inr (r, if s = ''--'' then args else s # args)
      | Inr (Some full) \<Rightarrow>
          (case cut_value full of (name, val) \<Rightarrow>
             (case formal name of
                None \<Rightarrow> Inl (if name = ''help'' \<or> name = ''h'' then ErrHelp else UndefinedFlag name)
              | Some (BoolFlag upd) \<Rightarrow>
                  (case val of
                     None \<Rightarrow> flags_Parse formal (upd True r) args
                   | Some v \<Rightarrow>
                       (case ParseBool v of
                          None \<Rightarrow> Inl (InvalidBool v name)
                        | Some b \<Rightarrow> flags_Parse formal (upd b r) args))
              | Some (ValueFlag set_value) \<Rightarrow>
                  (case (case val of Some v \<Rightarrow> Some (v, args) | None \<Rightarrow> (case args of [] \<Rightarrow> None | v # rest \<Rightarrow> Some (v, rest))) of
                     None \<Rightarrow> Inl (NeedsArgument name)
                   | Some (v, rest) \<Rightarrow>
                       (case set_value v r of
                          None \<Rightarrow> Inl (InvalidValue v name)
                        | Some r1 \<Rightarrow> flags_Parse formal r1 rest)))))"
  by pat_completeness auto
termination
  by (relation "measure (\<lambda>(formal, r, args). length args)") (auto split: option.splits list.splits)

section \<open>The fuel is enough\<close>

lemma unit_value_nonempty: "unit_value [] = None"
  by (simp add: unit_value_def)

lemma duration_part_shorter:
  assumes "duration_part s = Some (v, r)"
  shows "length r < length s"
proof -
  let ?u = "\<lambda>ch. ch \<noteq> CHR ''.'' \<and> \<not> is_digit ch"
  have "\<exists>s2. length s2 \<le> length s \<and> unit_value (takeWhile ?u s2) \<noteq> None \<and> r = dropWhile ?u s2"
  proof (cases "dropWhile is_digit s \<noteq> [] \<and> hd (dropWhile is_digit s) = CHR ''.''")
    case True
    let ?s2 = "dropWhile is_digit (tl (dropWhile is_digit s))"
    have "length ?s2 \<le> length s"       using length_dropWhile_le [of is_digit "tl (dropWhile is_digit s)"] length_dropWhile_le [of is_digit s] by simp
    with True assms show ?thesis
      by (intro exI [of _ ?s2]) (auto simp: duration_part_def Let_def split: prod.splits if_splits option.splits)
  next
    case False
    with assms show ?thesis
      by (intro exI [of _ "dropWhile is_digit s"]) (auto simp: duration_part_def Let_def length_dropWhile_le split: prod.splits if_splits option.splits)
  qed
  then obtain s2 where s2: "length s2 \<le> length s" "takeWhile ?u s2 \<noteq> []" "r = dropWhile ?u s2" by (metis unit_value_nonempty)
  have "length (takeWhile ?u s2) + length r = length s2" unfolding s2(3) by (metis length_append takeWhile_dropWhile_id)
  with s2(1,2) show ?thesis by (cases "takeWhile ?u s2") auto
qed

lemma duration_sum_fuel: "length s \<le> m \<Longrightarrow> duration_sum (m + k) d s = duration_sum m d s"
proof (induction m arbitrary: d s)
  case (Suc m)
  then show ?case
    by (cases s) (auto simp: Let_def split: option.splits dest!: duration_part_shorter)
qed simp

section \<open>Arguments as they are written\<close>

definition flag_arg :: "string \<Rightarrow> string \<Rightarrow> string" where
  "flag_arg name v = ''-'' @ name @ ''='' @ v"

definition plain_name :: "string \<Rightarrow> bool" where
  "plain_name name \<longleftrightarrow> name \<noteq> [] \<and> hd name \<noteq> CHR ''-'' \<and> CHR ''='' \<notin> set name"

lemma strings_Cut_append: "sep \<notin> set b \<Longrightarrow> strings_Cut (b @ sep # a) sep = (b, a, True)"
  by (induction b) auto

lemma flag_name_arg:
  assumes "plain_name name"
  shows "flag_name (flag_arg name v) = Inr (Some (name @ ''='' @ v))" "cut_value (name @ ''='' @ v) = (name, Some v)"
proof -
  from assms obtain n ns where n: "name = n # ns" "n \<noteq> CHR ''-''" "CHR ''='' \<notin> set (n # ns)"
    by (cases name) (auto simp: plain_name_def)
  then show "flag_name (flag_arg name v) = Inr (Some (name @ ''='' @ v))" by (auto simp: flag_name_def flag_arg_def)
  from n strings_Cut_append [of "CHR ''=''" ns v] show "cut_value (name @ ''='' @ v) = (name, Some v)" by (simp add: cut_value_def)
qed


lemma flags_Parse_stop:
  assumes "args \<noteq> [] \<Longrightarrow> hd args = [] \<or> hd (hd args) \<noteq> CHR ''-''"
  shows "flags_Parse formal r args = Inr (r, args)"
  using assms by (cases args) (auto simp: flag_name_def)

lemma digit_value_digit: "is_digit ch \<Longrightarrow> digit_value ch = Some (of_char ch - 48) \<and> of_char ch - 48 < (10 :: nat)"
  by (auto simp: is_digit_def digit_value_def)

lemma nat_digits_hd: "hd (nat_digits n) = CHR ''0'' \<Longrightarrow> n = 0"
proof (induction n rule: nat_digits.induct)
  case (1 n)
  show ?case
  proof (cases "n < 10")
    case True
    then have "nat_digits n = [char_of (48 + n)]" by (subst nat_digits.simps) simp
    with 1(2) have "of_char (char_of (48 + n) :: char) = (48 :: nat)" by simp
    with True show ?thesis by (simp only: of_char_digit)
  next
    case False
    then have "nat_digits n = nat_digits (n div 10) @ [char_of (48 + n mod 10)]" by (subst nat_digits.simps) simp
    with False 1 nat_digits_ok [of "n div 10"] show ?thesis by simp
  qed
qed

lemma ParseUint0_digits: "ParseUint0 (nat_digits n) = Some n"
proof (cases "n = 0")
  case True
  moreover have "nat_digits 0 = ''0''" by (subst nat_digits.simps) (simp add: char_of_eq_iff)
  ultimately show ?thesis by (simp add: ParseUint0_def cut_base_def)
next
  case False
  let ?s = "nat_digits n"
  note ok = nat_digits_ok [of n]
  have base: "cut_base ?s = (10, ?s)"
    using ok False nat_digits_hd [of n] by (cases ?s) (auto simp: cut_base_def)
  have no: "CHR ''_'' \<notin> set ?s" using ok by (auto simp: list_all_iff is_digit_def)
  have ds: "map digit_value ?s = map (\<lambda>ch. Some (of_char ch - 48)) ?s" "\<forall>ch \<in> set ?s. case digit_value ch of None \<Rightarrow> False | Some n \<Rightarrow> n < 10"
    using ok digit_value_digit by (auto simp: list_all_iff)
  have "foldl (\<lambda>n d. n * 10 + the d) k (map (\<lambda>ch. Some (of_char ch - 48)) cs) = foldl (\<lambda>n c. n * 10 + (of_char c - 48)) k cs" for k :: nat and cs :: string
    by (induction cs arbitrary: k) auto
  moreover have "filter (\<lambda>ch. ch \<noteq> CHR ''_'') ?s = ?s" using no by (auto simp: filter_id_conv)
  ultimately show ?thesis
    using ok no ds(2) by (simp add: ParseUint0_def base ds(1) list.pred_map comp_def list_all_iff digits_value_def)
qed

lemma ParseInt0_Format:
  assumes "min_int64 \<le> i" and "i \<le> max_int64"
  shows "ParseInt0 (FormatInt i) = Some i"
proof (cases "i < 0")
  case True
  have "\<not> nat (- i) > 2 ^ 63" using assms(1) by (simp add: min_int64_def nat_le_iff not_less)
  with True show ?thesis by (simp add: ParseInt0_def FormatInt_def ParseUint0_digits)
next
  case False
  note d = nat_digits_ok [of "nat i"]
  obtain c cs where c: "nat_digits (nat i) = c # cs" using d by (cases "nat_digits (nat i)") auto
  with d have "c \<noteq> CHR ''-''" "c \<noteq> CHR ''+''" using not_digit_sign by auto
  moreover have "\<not> nat i \<ge> 2 ^ 63" using assms(2) False by (simp add: max_int64_def not_le nat_less_iff)
  ultimately show ?thesis using False c ParseUint0_digits [of "nat i"] by (simp add: ParseInt0_def FormatInt_def)
qed

lemma flags_Parse_string:
  assumes "formal name = Some (StringVar upd)" and "plain_name name"
  shows "flags_Parse formal r (flag_arg name v # args) = flags_Parse formal (upd v r) args"
  using flag_name_arg [OF assms(2), of v] assms(1) by (simp add: StringVar_def)

lemma flags_Parse_int:
  assumes "formal name = Some (IntVar upd)" and "plain_name name" and "min_int64 \<le> i" and "i \<le> max_int64"
  shows "flags_Parse formal r (flag_arg name (FormatInt i) # args) = flags_Parse formal (upd i r) args"
  using flag_name_arg [OF assms(2), of "FormatInt i"] assms(1) by (simp add: IntVar_def ParseInt0_Format [OF assms(3,4)])

lemma flags_Parse_bool:
  assumes "formal name = Some (BoolFlag upd)" and "plain_name name"
  shows "flags_Parse formal r (flag_arg name (if b then ''true'' else ''false'') # args) = flags_Parse formal (upd b r) args"
  using flag_name_arg [OF assms(2), of "if b then ''true'' else ''false''"] assms(1) by (simp add: ParseBool_def)

end
