(* ===== verification/Report_Json.thy ===== *)
theory Report_Json
  imports Diagnostics
begin

text \<open>
  The JSON the commands print: the reports of \<^verbatim>\<open>internal/diagnostics\<close> as their struct tags describe them, and
  what \<^verbatim>\<open>encoding/json\<close> makes of them with an indent of two spaces and its default escaping.
\<close>

section \<open>The encoder\<close>

datatype json = JBool bool | JInt int | JString string | JArray "json list" | JObject "(string \<times> json) list"

text \<open>
  An ASCII character of a string: printable ones stand for themselves except the quote, the backslash and the three
  characters that matter in HTML.
\<close>

definition esc :: "string \<Rightarrow> string" where "esc s = CHR 0x5C # s"

definition json_hex :: "nat \<Rightarrow> string" where
  "json_hex n = esc ''u00'' @ [hex_char (n div 16), hex_char (n mod 16)]"

definition json_char :: "nat \<Rightarrow> string" where
  "json_char n =
     (if n = 0x22 \<or> n = 0x5C then esc [char_of n]
      else if n = 8 then esc ''b'' else if n = 12 then esc ''f'' else if n = 10 then esc ''n'' else if n = 13 then esc ''r''
      else if n = 9 then esc ''t''
      else if n < 0x20 \<or> n = 0x3C \<or> n = 0x3E \<or> n = 0x26 then json_hex n
      else [char_of n])"

function json_body :: "nat list \<Rightarrow> string" where
  "json_body [] = ''''"
| "json_body (b # bs) =
     (if b < 0x80 then json_char b @ json_body bs
      else
        let (r, n) = decode_rune b bs; rest = drop (n - 1) bs in
        (if r = RuneError \<and> n = 1 then esc ''ufffd''
         else if r = 0x2028 then esc ''u2028'' else if r = 0x2029 then esc ''u2029''
         else map char_of (b # take (n - 1) bs)) @ json_body rest)"
  by pat_completeness auto
termination
  by (relation "measure length") auto

definition json_string :: "string \<Rightarrow> string" where
  "json_string s = [CHR 0x22] @ json_body (map of_char s) @ [CHR 0x22]"

text \<open>One item per line, two spaces deeper than what encloses it; empty objects and arrays stay on one line.\<close>

definition json_block :: "nat \<Rightarrow> char \<Rightarrow> char \<Rightarrow> string list \<Rightarrow> string" where
  "json_block depth opening closing items =
     (if items = [] then [opening, closing]
      else
        [opening] @ joined (CHR '','') (map (\<lambda>s. [newline] @ replicate (2 * Suc depth) (CHR '' '') @ s) items) @
        [newline] @ replicate (2 * depth) (CHR '' '') @ [closing])"

fun json_text :: "nat \<Rightarrow> json \<Rightarrow> string" where
  "json_text depth (JBool b) = (if b then ''true'' else ''false'')"
| "json_text depth (JInt i) = FormatInt i"
| "json_text depth (JString s) = json_string s"
| "json_text depth (JArray vs) = json_block depth (CHR ''['') (CHR '']'') (map (json_text (Suc depth)) vs)"
| "json_text depth (JObject fs) =
     json_block depth (CHR ''{'') (CHR ''}'') (map (\<lambda>(k, v). json_string k @ '': '' @ json_text (Suc depth) v) fs)"

definition Encode :: "json \<Rightarrow> string" where
  "Encode v = json_text 0 v @ [newline]"

section \<open>The reports\<close>

definition tether_json :: "AndroidTetherSupport \<Rightarrow> json" where
  "tether_json t = JObject
     [(''present'', JBool (ats_Present t)), (''usable'', JBool (ats_Usable t)), (''mode'', JString (ats_Mode t))]"

definition compatibility_json :: "CompatibilityReport \<Rightarrow> json" where
  "compatibility_json r = JObject
     [(''type'', JString (cr_Type r)), (''verdict'', JString (verdict_string (cr_Verdict r))), (''ready'', JBool (cr_Ready r)),
      (''macos_version'', JString (cr_MacOSVersion r)), (''macos_supported'', JBool (cr_MacOSSupported r)),
      (''wifi'', JBool (cr_WiFi r)), (''android_tether'', tether_json (cr_AndroidTether r)), (''next_step'', JString (cr_NextStep r))]"

definition evidence_json :: "DiagnosticEvidence \<Rightarrow> json" where
  "evidence_json e = JObject
     [(''source'', JString (de_Source e)), (''key'', JString (de_Key e)), (''value'', JString (de_Value e))]"

definition interface_json :: "DiagnosticInterface \<Rightarrow> json" where
  "interface_json i = JObject
     [(''bsd_name'', JString (di_BSDName i)), (''kind'', JString (di_Kind i)), (''usable'', JBool (di_Usable i)), (''up'', JBool (di_Up i)),
      (''running'', JBool (di_Running i)), (''loopback'', JBool (di_Loopback i)), (''has_ipv4'', JBool (di_HasIPv4 i)),
      (''evidence'', JArray (map evidence_json (di_Evidence i)))]"

definition candidate_json :: "DiagnosticCandidate \<Rightarrow> json" where
  "candidate_json c = JObject
     [(''role'', JString (dc_Role c)), (''bsd_name'', JString (dc_BSDName c)), (''kind'', JString (dc_Kind c))]"

definition function_json :: "DiagnosticDeviceFunction \<Rightarrow> json" where
  "function_json f = JObject
     [(''transport'', JString (ddf_Transport f)), (''host_driver_claimed'', JBool (ddf_HostDriverClaimed f)), (''usable'', JBool (ddf_Usable f))]"

text \<open>A count of zero is omitted.\<close>

definition issue_json :: "DiagnosticIssue \<Rightarrow> json" where
  "issue_json i = JObject
     ([(''code'', JString (dis_Code i)), (''role'', JString (dis_Role i))] @
      (if dis_Count i = 0 then [] else [(''count'', JInt (dis_Count i))]))"

text \<open>No list of the report is nil, so none is written as \<^verbatim>\<open>null\<close>.\<close>

definition report_json :: "DarwinEvidenceReport \<Rightarrow> json" where
  "report_json r = JObject
     [(''type'', JString (der_Type r)), (''stage'', JString (der_Stage r)), (''claim'', JString (der_Claim r)),
      (''classification_status'', JString (der_ClassificationStatus r)), (''complete'', JBool (der_Complete r)),
      (''interfaces'', JArray (map interface_json (der_Interfaces r))), (''candidates'', JArray (map candidate_json (der_Candidates r))),
      (''device_functions'', JArray (map function_json (der_DeviceFunctions r))), (''issues'', JArray (map issue_json (der_Issues r)))]"

section \<open>Strings can be read back\<close>

text \<open>A reader of the body of a string, up to the closing quote; only the escapes the encoder writes for ASCII.\<close>

fun json_unescape :: "string \<Rightarrow> (string \<times> string) option" where
  "json_unescape [] = None"
| "json_unescape (c # s) =
     (if c = CHR 0x22 then Some ([], s)
      else if c = CHR 0x5C then
        (case s of
           [] \<Rightarrow> None
         | d # t \<Rightarrow>
             if d = CHR ''u'' then
               (case t of
                  z1 # z2 # h # l # r \<Rightarrow>
                    (case (hex_value z1, hex_value z2, hex_value h, hex_value l, json_unescape r) of
                       (Some 0, Some 0, Some a, Some b, Some (v, rest)) \<Rightarrow> Some (char_of (16 * a + b) # v, rest)
                     | _ \<Rightarrow> None)
                | _ \<Rightarrow> None)
             else
               map_option (apfst (Cons (if d = CHR ''b'' then CHR 8 else if d = CHR ''f'' then CHR 12 else if d = CHR ''n'' then CHR 10
                 else if d = CHR ''r'' then CHR 13 else if d = CHR ''t'' then CHR 9 else d))) (json_unescape t))
      else map_option (apfst (Cons c)) (json_unescape s))"

lemma json_unescape_hex:
  assumes "n < 128"
  shows "json_unescape (json_hex n @ t) = map_option (apfst (Cons (char_of n))) (json_unescape t)"
proof -
  have "hex_value (hex_char (n div 16)) = Some (n div 16)" "hex_value (hex_char (n mod 16)) = Some (n mod 16)"
    using assms by (simp_all add: hex_value_char)
  moreover have "16 * (n div 16) + n mod 16 = n" by simp
  moreover have "hex_value (CHR ''0'') = Some 0" by (simp add: hex_value_def)
  ultimately show ?thesis by (simp add: json_hex_def esc_def split: option.splits prod.splits)
qed

lemma json_unescape_char:
  fixes c :: char
  assumes "of_char c < (128 :: nat)"
  shows "json_unescape (json_char (of_char c) @ t) = map_option (apfst (Cons c)) (json_unescape t)"
proof -
  have code: "(of_char c :: nat) = of_char d \<longleftrightarrow> c = d" for d :: char by (rule of_char_eq_iff)
  have named: "(of_char c = (0x22 :: nat)) = (c = CHR 0x22)" "(of_char c = (0x5C :: nat)) = (c = CHR 0x5C)" "(of_char c = (8 :: nat)) = (c = CHR 8)"
    "(of_char c = (12 :: nat)) = (c = CHR 12)" "(of_char c = (10 :: nat)) = (c = CHR 10)" "(of_char c = (13 :: nat)) = (c = CHR 13)"
    "(of_char c = (9 :: nat)) = (c = CHR 9)"
    using code [of "CHR 0x22"] code [of "CHR 0x5C"] code [of "CHR 8"] code [of "CHR 12"] code [of "CHR 10"] code [of "CHR 13"] code [of "CHR 9"]
    by simp_all
  show ?thesis
  proof (cases "c \<in> {CHR 0x22, CHR 0x5C, CHR 8, CHR 12, CHR 10, CHR 13, CHR 9}")
    case True
    moreover have "char_of (34 :: nat) = CHR 0x22" "char_of (92 :: nat) = CHR 0x5C" by (simp_all add: char_of_eq_iff)
    ultimately show ?thesis by (elim insertE emptyE) (simp_all add: json_char_def esc_def)
  next
    case False
    then have "json_char (of_char c) = json_hex (of_char c) \<or> json_char (of_char c) = [c]"
      unfolding json_char_def named by simp
    then show ?thesis
    proof
      assume "json_char (of_char c) = json_hex (of_char c)"
      with json_unescape_hex [OF assms, of t] show ?thesis by (simp only: char_of_char)
    next
      assume "json_char (of_char c) = [c]"
      with False show ?thesis by simp
    qed
  qed
qed

lemma json_string_roundtrip:
  assumes "ascii s"
  shows "json_unescape (tl (json_string s) @ r) = Some (s, r)"
proof -
  have "json_unescape (json_body (map of_char s) @ CHR 0x22 # r) = Some (s, r)"
    using assms
  proof (induction s)
    case (Cons c s)
    then have "(of_char c :: nat) < 128" by (simp add: ascii_def)
    with Cons json_unescape_char [of c "json_body (map of_char s) @ CHR 0x22 # r"] show ?case by (simp add: ascii_def)
  qed simp
  then show ?thesis by (simp add: json_string_def)
qed

end
