(* ===== verification/Geminactl.thy ===== *)
theory Geminactl
  imports Go_Flags Report_Json Path_Dial Benchmark
begin

text \<open>
  \<^verbatim>\<open>cmd/geminactl/main.go\<close> and \<^verbatim>\<open>internal/bootstrap/stage.go\<close>: the command-line tool, from its
  arguments to what it prints, what it sends and its exit code.
\<close>

section \<open>Stage\<close>

definition Stage :: string where "Stage = ''stage-1-probe''"

definition ComponentStage :: "string \<Rightarrow> string" where
  "ComponentStage component = (if component = '''' then Stage else component @ '':'' @ Stage)"

section \<open>Flags of the commands\<close>

definition probe_defaults :: probe_flags where
  "probe_defaults = \<lparr>fl_interface = '''', fl_to = '''', fl_path = ''wifi'', fl_count = 1, fl_duplicate = False,
     fl_interface2 = '''', fl_path2 = ''usb''\<rparr>"

definition probe_formal :: "probe_flags flag_set" where
  "probe_formal =
     [''interface'' \<mapsto> StringVar (\<lambda>s fs. fs\<lparr>fl_interface := s\<rparr>),
      ''to'' \<mapsto> StringVar (\<lambda>s fs. fs\<lparr>fl_to := s\<rparr>),
      ''path'' \<mapsto> StringVar (\<lambda>s fs. fs\<lparr>fl_path := s\<rparr>),
      ''count'' \<mapsto> IntVar (\<lambda>i fs. fs\<lparr>fl_count := i\<rparr>),
      ''duplicate'' \<mapsto> BoolFlag (\<lambda>b fs. fs\<lparr>fl_duplicate := b\<rparr>),
      ''interface2'' \<mapsto> StringVar (\<lambda>s fs. fs\<lparr>fl_interface2 := s\<rparr>),
      ''path2'' \<mapsto> StringVar (\<lambda>s fs. fs\<lparr>fl_path2 := s\<rparr>)]"

record preflight_flags =
  pf_json :: bool
  pf_share :: bool

definition preflight_formal :: "preflight_flags flag_set" where
  "preflight_formal =
     [''json'' \<mapsto> BoolFlag (\<lambda>b fs. fs\<lparr>pf_json := b\<rparr>), ''share'' \<mapsto> BoolFlag (\<lambda>b fs. fs\<lparr>pf_share := b\<rparr>)]"

record benchmark_flags =
  bf_targets :: "string list"
  bf_count :: int
  bf_timeout :: duration

definition benchmark_defaults :: benchmark_flags where
  "benchmark_defaults = \<lparr>bf_targets = [], bf_count = 10, bf_timeout = nanos_per_second\<rparr>"

definition benchmark_formal :: "benchmark_flags flag_set" where
  "benchmark_formal =
     [''to'' \<mapsto> ValueFlag (\<lambda>s fs. Some (fs\<lparr>bf_targets := multiFlag_Set (bf_targets fs) s\<rparr>)),
      ''count'' \<mapsto> IntVar (\<lambda>i fs. fs\<lparr>bf_count := i\<rparr>),
      ''timeout'' \<mapsto> DurationVar (\<lambda>d fs. fs\<lparr>bf_timeout := d\<rparr>)]"

section \<open>The tool\<close>

datatype ctl_error = FlagFailed flag_error | DarwinFailed darwin_error | ProbeFailed probe_cli_error | BenchmarkFailed benchmark_error

text \<open>What the machine answers to the commands.\<close>

record ctl_host =
  ct_unicode :: unicode_tables
  ct_net :: ip_parsers
  ct_os :: CommandRunner
  ct_interfaces :: "(darwin_error, net_Interface list) result"
  ct_dial :: "string \<Rightarrow> string \<Rightarrow> bool"
  ct_random :: "bytes option"
  ct_write :: "nat \<Rightarrow> bool"
  ct_ping_dial :: "string \<Rightarrow> string option"
  ct_ping :: "duration \<Rightarrow> string \<Rightarrow> nat \<Rightarrow> ping_try"
  ct_stdout_ok :: bool

text \<open>
  A run: what it printed, the datagrams it sent and how it ended. The usage line and the error line go to the error
  stream; with no argument at all, not even the program's name, the index panics.
\<close>

datatype ctl_end = Done | Failed string ctl_error | Usage string | IndexPanic

fun exit_code :: "ctl_end \<Rightarrow> int" where
  "exit_code Done = 0"
| "exit_code (Failed _ _) = 1"
| "exit_code (Usage _) = 2"
| "exit_code IndexPanic = 2"

record ctl_run =
  cr_stdout :: string
  cr_sent :: "(string \<times> bytes) list"
  cr_end :: ctl_end

definition printed :: "string \<Rightarrow> (ctl_error, string) result \<Rightarrow> ctl_run" where
  "printed command r =
     (case r of
        Inl e \<Rightarrow> \<lparr>cr_stdout = '''', cr_sent = [], cr_end = Failed command e\<rparr>
      | Inr s \<Rightarrow> \<lparr>cr_stdout = s, cr_sent = [], cr_end = Done\<rparr>)"

definition ctl_evidence :: "ctl_host \<Rightarrow> ctl_run" where
  "ctl_evidence H = printed ''darwin-evidence''
     (map_sum DarwinFailed id
       (runDarwinEvidence (ct_unicode H) (ct_net H) (ct_os H) (ct_interfaces H) (\<lambda>r. Encode (report_json r))))"

definition ctl_preflight :: "ctl_host \<Rightarrow> string list \<Rightarrow> ctl_run" where
  "ctl_preflight H args =
     (case flags_Parse preflight_formal \<lparr>pf_json = False, pf_share = False\<rparr> args of
        Inl e \<Rightarrow> printed ''preflight'' (Inl (FlagFailed e))
      | Inr (fs, _) \<Rightarrow> printed ''preflight''
          (map_sum DarwinFailed id
            (runPreflight (ct_unicode H) (ct_net H) (ct_os H) (ct_interfaces H) (\<lambda>r. Encode (compatibility_json r))
              (pf_json fs) (pf_share fs))))"

definition ctl_probe :: "ctl_host \<Rightarrow> string list \<Rightarrow> ctl_run" where
  "ctl_probe H args =
     (case flags_Parse probe_formal probe_defaults args of
        Inl e \<Rightarrow> printed ''probe'' (Inl (FlagFailed e))
      | Inr (fs, _) \<Rightarrow>
          (case runProbe fs (ct_dial H) (ct_random H) (ct_write H) of
             (ws, res) \<Rightarrow> (printed ''probe'' (map_sum ProbeFailed id res))\<lparr>cr_sent := ws\<rparr>))"

definition ctl_benchmark :: "ctl_host \<Rightarrow> string list \<Rightarrow> ctl_run" where
  "ctl_benchmark H args =
     (case flags_Parse benchmark_formal benchmark_defaults args of
        Inl e \<Rightarrow> printed ''benchmark'' (Inl (FlagFailed e))
      | Inr (fs, _) \<Rightarrow>
          (case runBenchmark (bf_targets fs) (bf_count fs) (ct_ping_dial H) (ct_ping H (bf_timeout fs)) (ct_stdout_ok H) of
             (out, Inl e) \<Rightarrow> \<lparr>cr_stdout = out, cr_sent = [], cr_end = Failed ''benchmark'' (BenchmarkFailed e)\<rparr>
           | (out, Inr _) \<Rightarrow> \<lparr>cr_stdout = out, cr_sent = [], cr_end = Done\<rparr>))"

definition geminactl_main :: "ctl_host \<Rightarrow> string list \<Rightarrow> ctl_run" where
  "geminactl_main H args =
     (case args of
        [] \<Rightarrow> \<lparr>cr_stdout = '''', cr_sent = [], cr_end = IndexPanic\<rparr>
      | [_] \<Rightarrow> \<lparr>cr_stdout = ComponentStage ''geminactl'' @ [newline], cr_sent = [], cr_end = Done\<rparr>
      | prog # command # rest \<Rightarrow>
          if command = ''darwin-evidence'' then ctl_evidence H
          else if command = ''preflight'' then ctl_preflight H rest
          else if command = ''probe'' then ctl_probe H rest
          else if command = ''benchmark'' then ctl_benchmark H rest
          else \<lparr>cr_stdout = '''', cr_sent = [], cr_end = Usage prog\<rparr>)"

section \<open>Command lines\<close>

definition probe_args :: "probe_flags \<Rightarrow> string list" where
  "probe_args fs =
     [flag_arg ''interface'' (fl_interface fs), flag_arg ''to'' (fl_to fs), flag_arg ''path'' (fl_path fs),
      flag_arg ''count'' (FormatInt (fl_count fs)), flag_arg ''duplicate'' (if fl_duplicate fs then ''true'' else ''false''),
      flag_arg ''interface2'' (fl_interface2 fs), flag_arg ''path2'' (fl_path2 fs)]"

definition benchmark_args :: "string list \<Rightarrow> int \<Rightarrow> string list" where
  "benchmark_args targets n = map (flag_arg ''to'') targets @ [flag_arg ''count'' (FormatInt n)]"

abbreviation stops :: "string list \<Rightarrow> bool" where
  "stops rest \<equiv> rest = [] \<or> hd rest = [] \<or> hd (hd rest) \<noteq> CHR ''-''"

lemma probe_args_parse:
  assumes "min_int64 \<le> fl_count fs" and "fl_count fs \<le> max_int64" and "stops rest"
  shows "flags_Parse probe_formal probe_defaults (probe_args fs @ rest) = Inr (fs, rest)"
proof -
  have formal: "probe_formal ''interface'' = Some (StringVar (\<lambda>s fs. fs\<lparr>fl_interface := s\<rparr>))"
    "probe_formal ''to'' = Some (StringVar (\<lambda>s fs. fs\<lparr>fl_to := s\<rparr>))" "probe_formal ''path'' = Some (StringVar (\<lambda>s fs. fs\<lparr>fl_path := s\<rparr>))"
    "probe_formal ''count'' = Some (IntVar (\<lambda>i fs. fs\<lparr>fl_count := i\<rparr>))"
    "probe_formal ''duplicate'' = Some (BoolFlag (\<lambda>b fs. fs\<lparr>fl_duplicate := b\<rparr>))"
    "probe_formal ''interface2'' = Some (StringVar (\<lambda>s fs. fs\<lparr>fl_interface2 := s\<rparr>))"
    "probe_formal ''path2'' = Some (StringVar (\<lambda>s fs. fs\<lparr>fl_path2 := s\<rparr>))"
    by (simp_all add: probe_formal_def)
  have r: "flags_Parse probe_formal q rest = Inr (q, rest)" for q using assms(3) by (intro flags_Parse_stop) auto
  show ?thesis
    unfolding probe_args_def append_Cons append_Nil
    by (simp add: flags_Parse_string [where formal = probe_formal, OF formal(1)] flags_Parse_string [where formal = probe_formal, OF formal(2)] flags_Parse_string [where formal = probe_formal, OF formal(3)]
        flags_Parse_string [where formal = probe_formal, OF formal(6)] flags_Parse_string [where formal = probe_formal, OF formal(7)] flags_Parse_int [where formal = probe_formal, OF formal(4) _ assms(1,2)] flags_Parse_bool [where formal = probe_formal, OF formal(5)]
        plain_name_def r probe_defaults_def del: flags_Parse.simps)
qed

lemma benchmark_args_parse:
  assumes "min_int64 \<le> n" and "n \<le> max_int64" and "stops rest"
  shows "flags_Parse benchmark_formal benchmark_defaults (benchmark_args targets n @ rest) =
     Inr (\<lparr>bf_targets = targets, bf_count = n, bf_timeout = nanos_per_second\<rparr>, rest)"
proof -
  have formal: "benchmark_formal ''to'' = Some (ValueFlag (\<lambda>s fs. Some (fs\<lparr>bf_targets := multiFlag_Set (bf_targets fs) s\<rparr>)))"
    "benchmark_formal ''count'' = Some (IntVar (\<lambda>i fs. fs\<lparr>bf_count := i\<rparr>))"
    by (simp_all add: benchmark_formal_def)
  have "flags_Parse benchmark_formal fs (map (flag_arg ''to'') ts @ args) = flags_Parse benchmark_formal (fs\<lparr>bf_targets := bf_targets fs @ ts\<rparr>) args"
    for ts args fs
  proof (induction ts arbitrary: fs)
    case (Cons t ts)
    have "flags_Parse benchmark_formal fs (flag_arg ''to'' t # map (flag_arg ''to'') ts @ args) =
        flags_Parse benchmark_formal (fs\<lparr>bf_targets := bf_targets fs @ [t]\<rparr>) (map (flag_arg ''to'') ts @ args)"
      using flag_name_arg [of "''to''" t] by (simp add: plain_name_def multiFlag_Set_def formal(1))
    with Cons show ?case by (simp del: flags_Parse.simps)
  qed simp
  moreover have "flags_Parse benchmark_formal q rest = Inr (q, rest)" for q using assms(3) by (intro flags_Parse_stop) auto
  ultimately show ?thesis
    by (simp add: benchmark_args_def flags_Parse_int [where formal = benchmark_formal, OF formal(2) _ assms(1,2)] plain_name_def benchmark_defaults_def del: flags_Parse.simps)
qed

text \<open>
  A command line reaches the command unchanged: whatever flag values are written out as arguments, followed by
  nothing or by an argument that is no flag, the tool runs the probe with exactly those values and the benchmark with
  exactly those targets and that count, and its exit code is 0 just when the command succeeds.
\<close>

theorem command_line_roundtrip:
  assumes "min_int64 \<le> fl_count fs" and "fl_count fs \<le> max_int64" and "min_int64 \<le> n" and "n \<le> max_int64" and "stops rest"
    and "runProbe fs (ct_dial H) (ct_random H) (ct_write H) = (sent, probed)"
    and "runBenchmark targets n (ct_ping_dial H) (ct_ping H nanos_per_second) (ct_stdout_ok H) = (out, benched)"
    and "probe = geminactl_main H (prog # ''probe'' # probe_args fs @ rest)"
    and "bench = geminactl_main H (prog # ''benchmark'' # benchmark_args targets n @ rest)"
  shows "cr_sent probe = sent \<and> (\<forall>e. cr_end probe = Failed ''probe'' (ProbeFailed e) \<longleftrightarrow> probed = Inl e) \<and>
     (exit_code (cr_end probe) = 0 \<longleftrightarrow> probed = Inr (cr_stdout probe)) \<and>
     cr_stdout bench = out \<and> (exit_code (cr_end bench) = 0 \<longleftrightarrow> benched = Inr ())"
proof -
  have "probe = (printed ''probe'' (map_sum ProbeFailed id probed))\<lparr>cr_sent := sent\<rparr>"
    using assms(6) by (simp add: assms(8) geminactl_main_def ctl_probe_def probe_args_parse [OF assms(1,2,5)])
  then have probe: "cr_sent probe = sent" "\<forall>e. cr_end probe = Failed ''probe'' (ProbeFailed e) \<longleftrightarrow> probed = Inl e"
    "exit_code (cr_end probe) = 0 \<longleftrightarrow> probed = Inr (cr_stdout probe)"
    by (cases probed; simp add: printed_def)+
  have "bench = \<lparr>cr_stdout = out, cr_sent = [], cr_end = (case benched of Inl e \<Rightarrow> Failed ''benchmark'' (BenchmarkFailed e) | Inr _ \<Rightarrow> Done)\<rparr>"
    using assms(7) by (cases benched) (simp_all add: assms(9) geminactl_main_def ctl_benchmark_def benchmark_args_parse [OF assms(3-5)])
  then have "cr_stdout bench = out" "exit_code (cr_end bench) = 0 \<longleftrightarrow> benched = Inr ()" by (cases benched; simp)+
  with probe show ?thesis by blast
qed

end
