(* ===== verification/Mac_Core.thy ===== *)
theory Mac_Core
  imports Float64 Gemina_Prelude "HOL-Library.Sublist"
begin

text \<open>
  The pure part of the macOS client, \<^verbatim>\<open>apps/macos/Core\<close>: which paths carry a packet, the status the menu bar
  shows, the impact figures and the consent default. A \<^verbatim>\<open>TimeInterval\<close> is a \<^verbatim>\<open>Double\<close>: sums and the fraction are rounded
  as in the theory \<^verbatim>\<open>Float64\<close>.
\<close>

section \<open>Path policy (\<^verbatim>\<open>PathPolicy.swift\<close>)\<close>

datatype PolicyMode = Mode_duplicate | Mode_failover | Mode_smart | Mode_auto

record PathInfo =
  pi_id :: string
  pi_up :: bool
  pi_metered :: bool

record PathPolicy =
  pp_mode :: PolicyMode
  pp_preferredID :: "string option"

definition effectiveMode :: "PathPolicy \<Rightarrow> PathInfo list \<Rightarrow> PolicyMode" where
  "effectiveMode p up =
     (if pp_mode p \<noteq> Mode_auto then pp_mode p
      else if list_all (\<lambda>x. \<not> pi_metered x) up then Mode_duplicate else Mode_smart)"

definition choosePrimary :: "PathPolicy \<Rightarrow> PathInfo list \<Rightarrow> PathInfo" where
  "choosePrimary p up =
     (let fallback = (case find (\<lambda>x. \<not> pi_metered x) up of Some x \<Rightarrow> x | None \<Rightarrow> up ! 0) in
      case pp_preferredID p of
        None \<Rightarrow> fallback
      | Some i \<Rightarrow> (case find (\<lambda>x. pi_id x = i) up of Some primary \<Rightarrow> primary | None \<Rightarrow> fallback))"

definition sendPaths :: "PathPolicy \<Rightarrow> PathInfo list \<Rightarrow> bool \<Rightarrow> string list" where
  "sendPaths p paths primaryUnstable =
     (let up = filter pi_up paths in
      if \<not> length up > 1 then map pi_id up
      else
        let primary = choosePrimary p up in
        case effectiveMode p up of
          Mode_duplicate \<Rightarrow> map pi_id up
        | Mode_failover \<Rightarrow> [pi_id primary]
        | Mode_smart \<Rightarrow> if primaryUnstable then map pi_id up else [pi_id primary]
        | Mode_auto \<Rightarrow> map pi_id up)"

section \<open>Status (\<^verbatim>\<open>ProtectionStatus.swift\<close>)\<close>

datatype ProtectionStatus = St_protected | St_degraded | St_atRisk | St_down | St_paused | St_connecting | St_off

definition protectionStatus :: "PathInfo list \<Rightarrow> bool \<Rightarrow> bool \<Rightarrow> ProtectionStatus" where
  "protectionStatus paths paused connecting =
     (if paused then St_paused
      else if connecting then St_connecting
      else if paths = [] then St_off
      else
        let upCount = length (filter pi_up paths) in
        if upCount \<ge> 2 then St_protected
        else if upCount = 1 \<and> length paths \<ge> 2 then St_degraded
        else if length paths = 1 \<and> upCount = 1 then St_atRisk
        else St_down)"

text \<open>The dash and the ellipsis of the source in UTF-8.\<close>

fun headline :: "ProtectionStatus \<Rightarrow> string" where
  "headline St_protected = ''Protected''"
| "headline St_degraded = ''Protected '' @ [CHR 0xE2, CHR 0x80, CHR 0x94] @ '' one link down''"
| "headline St_atRisk = ''Not protected '' @ [CHR 0xE2, CHR 0x80, CHR 0x94] @ '' add a second connection''"
| "headline St_down = ''No connection''"
| "headline St_paused = ''Paused''"
| "headline St_connecting = ''Connecting'' @ [CHR 0xE2, CHR 0x80, CHR 0xA6]"
| "headline St_off = ''Off''"

section \<open>Consent (\<^verbatim>\<open>Consent.swift\<close>)\<close>

datatype ConsentTier = Tier_free | Tier_hosted

fun defaultShareEnabled :: "ConsentTier \<Rightarrow> bool" where
  "defaultShareEnabled Tier_free = False"
| "defaultShareEnabled Tier_hosted = True"

section \<open>Impact (\<^verbatim>\<open>Impact.swift\<close>)\<close>

type_synonym TimeInterval = rat

definition fadd :: "TimeInterval \<Rightarrow> TimeInterval \<Rightarrow> TimeInterval" where
  "fadd x y = float64 (x + y)"

record ImpactSegment =
  seg_duration :: TimeInterval
  seg_upCount :: int

record ImpactStats =
  sessionDuration :: TimeInterval
  protectedDuration :: TimeInterval
  outageAbsorbed :: TimeInterval
  failoversSurvived :: int
  longestDropSurvived :: TimeInterval
  protectedFraction :: rat

text \<open>The variables of the loop beside the statistics.\<close>

record impact_state =
  im_stats :: ImpactStats
  im_previousUp :: int
  im_inSurvivedDrop :: bool
  im_currentDropRun :: TimeInterval

definition impact_start :: impact_state where
  "impact_start =
     \<lparr>im_stats = \<lparr>sessionDuration = 0, protectedDuration = 0, outageAbsorbed = 0, failoversSurvived = 0, longestDropSurvived = 0,
        protectedFraction = 0\<rparr>,
      im_previousUp = 0, im_inSurvivedDrop = False, im_currentDropRun = 0\<rparr>"

definition impact_step :: "impact_state \<Rightarrow> ImpactSegment \<Rightarrow> impact_state" where
  "impact_step st segment =
     (let d = seg_duration segment;
          stats = (im_stats st)\<lparr>sessionDuration := fadd (sessionDuration (im_stats st)) d\<rparr>;
          st1 =
            (if seg_upCount segment \<ge> 2 then
               st\<lparr>im_stats := stats\<lparr>protectedDuration := fadd (protectedDuration stats) d\<rparr>,
                  im_inSurvivedDrop := False, im_currentDropRun := 0\<rparr>
             else if seg_upCount segment = 1 then
               let (failovers, inDrop, run) =
                     (if im_previousUp st \<ge> 2 then (failoversSurvived stats + 1, True, d)
                      else if im_inSurvivedDrop st then (failoversSurvived stats, True, fadd (im_currentDropRun st) d)
                      else (failoversSurvived stats, False, im_currentDropRun st));
                   stats1 = stats\<lparr>failoversSurvived := failovers\<rparr>
               in st\<lparr>im_stats :=
                       (if inDrop then
                          stats1\<lparr>outageAbsorbed := fadd (outageAbsorbed stats1) d,
                                 longestDropSurvived := max (longestDropSurvived stats1) run\<rparr>
                        else stats1),
                     im_inSurvivedDrop := inDrop, im_currentDropRun := run\<rparr>
             else st\<lparr>im_stats := stats, im_inSurvivedDrop := False, im_currentDropRun := 0\<rparr>)
      in st1\<lparr>im_previousUp := seg_upCount segment\<rparr>)"

definition computeImpact :: "ImpactSegment list \<Rightarrow> ImpactStats" where
  "computeImpact segments =
     (let stats = im_stats (foldl impact_step impact_start segments) in
      if sessionDuration stats > 0
      then stats\<lparr>protectedFraction := float64 (protectedDuration stats / sessionDuration stats)\<rparr> else stats)"

section \<open>Sending never stops while a path is up\<close>

lemma effectiveMode_not_auto: "effectiveMode p up \<noteq> Mode_auto"
  by (simp add: effectiveMode_def)

lemma choosePrimary_in: "up \<noteq> [] \<Longrightarrow> choosePrimary p up \<in> set up"
  by (auto simp: choosePrimary_def Let_def find_Some_iff split: option.splits)

text \<open>The primary is the preferred path when that is up, and otherwise metered only if every path is.\<close>

definition preferred_up :: "PathPolicy \<Rightarrow> PathInfo list \<Rightarrow> bool" where
  "preferred_up p up \<longleftrightarrow> (\<exists>x \<in> set up. pp_preferredID p = Some (pi_id x))"

lemma choosePrimary_preferred: "preferred_up p up \<Longrightarrow> pp_preferredID p = Some (pi_id (choosePrimary p up))"
  by (auto simp: preferred_up_def choosePrimary_def find_None_iff find_Some_iff split: option.splits)

lemma choosePrimary_unmetered:
  assumes "\<not> preferred_up p up" and "x \<in> set up" and "\<not> pi_metered x"
  shows "\<not> pi_metered (choosePrimary p up)"
proof -
  obtain y where y: "find (\<lambda>x. \<not> pi_metered x) up = Some y" using assms(2,3) by (cases "find (\<lambda>x. \<not> pi_metered x) up") (auto simp: find_None_iff)
  then have "\<not> pi_metered y" by (auto simp: find_Some_iff)
  moreover have "choosePrimary p up = y"
  proof (cases "pp_preferredID p")
    case (Some i)
    with assms(1) have "find (\<lambda>x. pi_id x = i) up = None" by (auto simp: preferred_up_def find_None_iff)
    with Some show ?thesis by (simp add: choosePrimary_def y)
  qed (simp add: choosePrimary_def y)
  ultimately show ?thesis by simp
qed

text \<open>
  C38. What the policy sends over: only paths that are up, and some path whenever one is. It is all of them in
  duplicate mode, in automatic mode when none is metered, and while the primary is unstable except in failover mode; otherwise
  it is one path, the preferred one if it is up and else a metered one only if all are. The status is
  protected just when two paths are up, and down or off just when nothing is sent.
\<close>

theorem policy_exact:
  assumes "up = filter pi_up paths" and "sent = sendPaths p paths unstable" and "status = protectionStatus paths False False"
  shows "(if length up \<le> 1 \<or> pp_mode p = Mode_duplicate \<or> unstable \<and> pp_mode p \<noteq> Mode_failover \<or>
          pp_mode p = Mode_auto \<and> (\<forall>x \<in> set up. \<not> pi_metered x)
       then sent = map pi_id up
       else (\<exists>x \<in> set up. sent = [pi_id x] \<and> (if preferred_up p up then pp_preferredID p = Some (pi_id x)
          else pi_metered x \<longrightarrow> (\<forall>y \<in> set up. pi_metered y)))) \<and>
     (sent = [] \<longleftrightarrow> up = []) \<and> (status \<in> {St_down, St_off} \<longleftrightarrow> sent = []) \<and> (status = St_protected \<longleftrightarrow> length up \<ge> 2)"
proof -
  have empty: "sent = [] \<longleftrightarrow> up = []"
    by (auto simp: assms(1,2) sendPaths_def Let_def split: PolicyMode.splits if_splits)
  have n: "length up \<le> length paths" "paths = [] \<Longrightarrow> up = []" by (simp_all add: assms(1))
  have st: "status = (if paths = [] then St_off else if length up \<ge> 2 then St_protected
      else if length up = 1 \<and> length paths \<ge> 2 then St_degraded else if length paths = 1 \<and> length up = 1 then St_atRisk else St_down)"
    by (simp add: assms(1,3) protectionStatus_def Let_def)
  consider "up = []" | "length up = 1" "paths \<noteq> []" | "length up \<ge> 2" "paths \<noteq> []"     using n(2) by (cases up; cases "tl up") auto
  then have status: "(status \<in> {St_down, St_off} \<longleftrightarrow> up = []) \<and> (status = St_protected \<longleftrightarrow> length up \<ge> 2)"
  proof cases
    case 2
    with n(1) show ?thesis by (cases "length paths \<ge> 2") (auto simp: st)
  qed (use n in \<open>auto simp: st\<close>)
  have "if length up \<le> 1 \<or> pp_mode p = Mode_duplicate \<or> unstable \<and> pp_mode p \<noteq> Mode_failover \<or>
          pp_mode p = Mode_auto \<and> (\<forall>x \<in> set up. \<not> pi_metered x)
       then sent = map pi_id up else up \<noteq> [] \<and> sent = [pi_id (choosePrimary p up)]"
    unfolding assms(2) sendPaths_def Let_def assms(1) [symmetric]
    by (cases "pp_mode p") (auto simp: effectiveMode_def list_all_iff)
  then have "if length up \<le> 1 \<or> pp_mode p = Mode_duplicate \<or> unstable \<and> pp_mode p \<noteq> Mode_failover \<or>
          pp_mode p = Mode_auto \<and> (\<forall>x \<in> set up. \<not> pi_metered x)
       then sent = map pi_id up
       else (\<exists>x \<in> set up. sent = [pi_id x] \<and> (if preferred_up p up then pp_preferredID p = Some (pi_id x)
          else pi_metered x \<longrightarrow> (\<forall>y \<in> set up. pi_metered y)))"
    using choosePrimary_in [of up p] choosePrimary_preferred [of p up] choosePrimary_unmetered [of p up]
    by (auto split: if_splits)
  with empty status show ?thesis by blast
qed

definition demo_paths :: "PathInfo list" where
  "demo_paths = [\<lparr>pi_id = ''cell'', pi_up = True, pi_metered = True\<rparr>, \<lparr>pi_id = ''wifi'', pi_up = True, pi_metered = False\<rparr>]"

theorem policy_exact_witness:
  "sendPaths \<lparr>pp_mode = Mode_auto, pp_preferredID = None\<rparr> demo_paths True = [''cell'', ''wifi''] \<and>
   sendPaths \<lparr>pp_mode = Mode_auto, pp_preferredID = None\<rparr> demo_paths False = [''wifi'']"
  using policy_exact [OF refl refl refl, where p = "\<lparr>pp_mode = Mode_auto, pp_preferredID = None\<rparr>" and paths = demo_paths and unstable = True]
    policy_exact [OF refl refl refl, where p = "\<lparr>pp_mode = Mode_auto, pp_preferredID = None\<rparr>" and paths = demo_paths and unstable = False]
  by (auto simp: demo_paths_def preferred_up_def)

section \<open>What the impact figures count\<close>

text \<open>
  The stretch on one path that a session is in after these segments, if it began with a fall from two or more paths; and the
  moments of a session at which it was in such a stretch.
\<close>

definition drop_run :: "ImpactSegment list \<Rightarrow> ImpactSegment list" where
  "drop_run xs =
     (let before = dropWhile (\<lambda>x. seg_upCount x = 1) (rev xs) in
      if before \<noteq> [] \<and> seg_upCount (hd before) \<ge> 2 then rev (takeWhile (\<lambda>x. seg_upCount x = 1) (rev xs)) else [])"

definition survived :: "ImpactSegment list \<Rightarrow> ImpactSegment list list" where
  "survived xs = filter (\<lambda>ys. drop_run ys \<noteq> []) (prefixes xs)"

definition fsum :: "TimeInterval \<Rightarrow> ImpactSegment list \<Rightarrow> TimeInterval" where
  "fsum t xs = foldl fadd t (map seg_duration xs)"

definition run_time :: "ImpactSegment list \<Rightarrow> TimeInterval" where
  "run_time xs = (case xs of [] \<Rightarrow> 0 | x # r \<Rightarrow> fsum (seg_duration x) r)"

lemma fsum_snoc [simp]: "fsum t (xs @ [x]) = fadd (fsum t xs) (seg_duration x)" "fsum t [] = t"
  by (simp_all add: fsum_def)

lemma drop_run_snoc:
  "drop_run (xs @ [x]) =
     (if seg_upCount x = 1 \<and> (drop_run xs \<noteq> [] \<or> xs \<noteq> [] \<and> seg_upCount (last xs) \<ge> 2) then drop_run xs @ [x] else [])"
  by (cases xs rule: rev_cases) (auto simp: drop_run_def Let_def)

lemma drop_run_fresh: "xs \<noteq> [] \<Longrightarrow> seg_upCount (last xs) \<ge> 2 \<Longrightarrow> drop_run xs = []"
  by (cases xs rule: rev_cases) (simp_all add: drop_run_snoc)

lemma survived_snoc [simp]: "survived (xs @ [x]) = survived xs @ (if drop_run (xs @ [x]) \<noteq> [] then [xs @ [x]] else [])" "survived [] = []"
  by (simp_all add: survived_def drop_run_def)

lemma run_time_snoc: "run_time (xs @ [x]) = (if xs = [] then seg_duration x else fadd (run_time xs) (seg_duration x))"
  by (cases xs) (simp_all add: run_time_def)

definition impact_inv :: "ImpactSegment list \<Rightarrow> impact_state \<Rightarrow> bool" where
  "impact_inv xs st \<longleftrightarrow>
     im_previousUp st = (if xs = [] then 0 else seg_upCount (last xs)) \<and>
     im_inSurvivedDrop st = (drop_run xs \<noteq> []) \<and> (im_inSurvivedDrop st \<longrightarrow> im_currentDropRun st = run_time (drop_run xs)) \<and>
     im_stats st = \<lparr>sessionDuration = fsum 0 xs, protectedDuration = fsum 0 (filter (\<lambda>x. seg_upCount x \<ge> 2) xs),
       outageAbsorbed = fsum 0 (map last (survived xs)),
       failoversSurvived = int (length (filter (\<lambda>ys. length (drop_run ys) = 1) (survived xs))),
       longestDropSurvived = foldl max 0 (map (\<lambda>ys. run_time (drop_run ys)) (survived xs)), protectedFraction = 0\<rparr>"

lemma impact_inv_step:
  assumes "impact_inv xs st"
  shows "impact_inv (xs @ [x]) (impact_step st x)"
proof -
  note inv = assms [unfolded impact_inv_def]
  consider (many) "seg_upCount x \<ge> 2" | (fall) "seg_upCount x = 1" "xs \<noteq> []" "seg_upCount (last xs) \<ge> 2"
    | (on) "seg_upCount x = 1" "drop_run xs \<noteq> []" "\<not> (xs \<noteq> [] \<and> seg_upCount (last xs) \<ge> 2)"
    | (alone) "seg_upCount x = 1" "drop_run xs = []" "\<not> (xs \<noteq> [] \<and> seg_upCount (last xs) \<ge> 2)"
    | (none) "seg_upCount x < 1"
    by linarith
  then show ?thesis
  proof cases
    case many
    then have "drop_run (xs @ [x]) = []" by (simp add: drop_run_snoc)
    with many inv show ?thesis by (simp add: impact_inv_def impact_step_def Let_def)
  next
    case fall
    then have "drop_run (xs @ [x]) = [x]" by (simp add: drop_run_snoc drop_run_fresh)
    with fall inv show ?thesis by (simp add: impact_inv_def impact_step_def Let_def run_time_def)
  next
    case on
    then have "drop_run (xs @ [x]) = drop_run xs @ [x]" by (simp add: drop_run_snoc)
    moreover have "xs \<noteq> []" using on(2) by (auto simp: drop_run_def)
    ultimately show ?thesis using on inv by (simp add: impact_inv_def impact_step_def Let_def run_time_snoc)
  next
    case alone
    then have "drop_run (xs @ [x]) = []" by (simp add: drop_run_snoc)
    moreover have "\<not> im_previousUp st \<ge> 2" using inv alone by auto
    ultimately show ?thesis using alone inv by (simp add: impact_inv_def impact_step_def Let_def)
  next
    case none
    then have "drop_run (xs @ [x]) = []" by (simp add: drop_run_snoc)
    with none inv show ?thesis by (simp add: impact_inv_def impact_step_def Let_def)
  qed
qed

lemma impact_inv_all: "impact_inv xs (foldl impact_step impact_start xs)"
proof (induction xs rule: rev_induct)
  case Nil
  then show ?case by (simp add: impact_inv_def impact_start_def drop_run_def fsum_def)
qed (simp add: impact_inv_step)

text \<open>
  The impact figures are exactly what their names promise, for every timeline: the session time, the time on
  two or more paths, the time of the segments in which the session survived on one path after a fall from two or
  more, the number of such falls and the longest such stretch, zero if there is none; the fraction is the protected time over the session time.
\<close>

theorem impact_exact:
  "computeImpact xs =
     (let total = fsum 0 xs; covered = fsum 0 (filter (\<lambda>x. seg_upCount x \<ge> 2) xs) in
      \<lparr>sessionDuration = total, protectedDuration = covered, outageAbsorbed = fsum 0 (map last (survived xs)),
       failoversSurvived = int (length (filter (\<lambda>ys. length (drop_run ys) = 1) (survived xs))),
       longestDropSurvived = foldl max 0 (map (\<lambda>ys. run_time (drop_run ys)) (survived xs)),
       protectedFraction = (if total > 0 then float64 (covered / total) else 0)\<rparr>)"
  using impact_inv_all [of xs] by (simp add: computeImpact_def impact_inv_def Let_def)

end
