(* ===== verification/Mac_Transport.thy ===== *)
theory Mac_Transport
  imports Bridge Mac_Core Go_Strings
begin

text \<open>
  The packet tunnel of the macOS client, \<^verbatim>\<open>apps/macos/PacketTunnelExtension\<close>, down to the C interface of the Go core:
  \<^verbatim>\<open>CoreTransport.swift\<close>, \<^verbatim>\<open>DualPathTransport.swift\<close> and the packet handling of the tunnel providers. A Swift
  trap, like a panic below the C interface, is \<^term>\<open>None\<close>; the sockets are arguments.
\<close>

section \<open>The core behind the C interface (\<^verbatim>\<open>CoreTransport.swift\<close>)\<close>

datatype CoreTransportError = sessionCreateFailed | badHandle | bufferTooSmall | coreRejected | unknownCode int

definition coreError :: "int \<Rightarrow> CoreTransportError" where
  "coreError code =
     (if code = -1 then badHandle else if code = -2 then bufferTooSmall else if code = -3 then coreRejected else unknownCode code)"

definition frameOverhead :: nat where "frameOverhead = 64"

text \<open>\<^verbatim>\<open>Int32(n)\<close> traps beyond the type.\<close>

definition fits_Int32 :: "nat \<Rightarrow> bool" where "fits_Int32 n \<longleftrightarrow> n < 2 ^ 31"

definition CoreTransport_init ::
  "bridge \<Rightarrow> bytes \<Rightarrow> bytes \<Rightarrow> int \<Rightarrow> int \<Rightarrow> ((CoreTransportError, u64) result \<times> bridge) option" where
  "CoreTransport_init b sessionID key role dedupCapacity =
     (if length sessionID \<noteq> 16 \<or> length key \<noteq> 32 then None
      else case cc_session_new b sessionID key role dedupCapacity of
        (created, b') \<Rightarrow> Some (if created \<noteq> 0 then Inr created else Inl sessionCreateFailed, b'))"

definition CoreTransport_deinit :: "bridge \<Rightarrow> u64 \<Rightarrow> bridge" where
  "CoreTransport_deinit b handle = cc_session_free b handle"

definition CoreTransport_outbound ::
  "crypto \<Rightarrow> bridge \<Rightarrow> u64 \<Rightarrow> bytes \<Rightarrow> ((CoreTransportError, bytes) result \<times> bridge) option" where
  "CoreTransport_outbound C b handle payload =
     (if \<not> fits_Int32 (length payload + frameOverhead) then None
      else case cc_outbound C b handle payload (int (length payload + frameOverhead)) of
        None \<Rightarrow> None
      | Some (written, out, b') \<Rightarrow> Some (if written \<ge> 0 then Inr out else Inl (coreError written), b'))"

definition CoreTransport_inbound ::
  "crypto \<Rightarrow> bridge \<Rightarrow> u64 \<Rightarrow> bytes \<Rightarrow> ((CoreTransportError, bytes \<times> bool) result \<times> bridge) option" where
  "CoreTransport_inbound C b handle wire =
     (if \<not> fits_Int32 (length wire) then None
      else case cc_inbound C b handle wire (int (max (length wire) 1)) of
        None \<Rightarrow> None
      | Some (written, out, deliver, b') \<Rightarrow> Some (if written \<ge> 0 then Inr (out, deliver) else Inl (coreError written), b'))"

datatype connect_error = ConnectCore CoreTransportError | ConnectSend string | ConnectReceive string

text \<open>
  \<open>send\<close> is the error of sending the hello, if it fails, and \<open>receive\<close> what the socket answers to it. The
  deferred cancellation runs on every path that did not reach the completion. A C string ends at its first zero byte.
\<close>

definition CoreTransport_connect ::
  "crypto \<Rightarrow> go_time \<Rightarrow> bytes option \<Rightarrow> bytes option \<Rightarrow> bridge \<Rightarrow> bytes \<Rightarrow> string \<Rightarrow> int \<Rightarrow>
   (bytes \<Rightarrow> string option) \<Rightarrow> (bytes \<Rightarrow> (string, bytes) result) \<Rightarrow> ((connect_error, u64 \<times> bytes) result \<times> bridge) option" where
  "CoreTransport_connect C now rndID rndKey b gatewayPublicKey token dedupCapacity send receive =
     (if length gatewayPublicKey \<noteq> 32 then None
      else case cc_handshake_begin C now rndID rndKey b gatewayPublicKey (takeWhile (\<lambda>c. c \<noteq> CHR 0x00) token) 8192 of
        None \<Rightarrow> None
      | Some (helloLen, hsHandle, hello, b1) \<Rightarrow>
          if \<not> (helloLen > 0 \<and> hsHandle \<noteq> 0) then Some (Inl (ConnectCore (coreError helloLen)), b1)
          else case send hello of
            Some e \<Rightarrow> Some (Inl (ConnectSend e), cc_handshake_cancel b1 hsHandle)
          | None \<Rightarrow>
              (case receive hello of
                 Inl e \<Rightarrow> Some (Inl (ConnectReceive e), cc_handshake_cancel b1 hsHandle)
               | Inr serverHello \<Rightarrow>
                   if \<not> fits_Int32 (length serverHello) then None
                   else case cc_handshake_complete C b1 hsHandle serverHello dedupCapacity of
                     (sessionHandle, assigned, b2) \<Rightarrow>
                       Some (if sessionHandle = 0 then Inl (ConnectCore coreRejected)
                             else Inr (sessionHandle, case assigned of Some ip \<Rightarrow> ip | None \<Rightarrow> replicate 4 0), b2)))"

section \<open>The relay (\<^verbatim>\<open>DualPathTransport.swift\<close>)\<close>

text \<open>The core is its handle, a path sender its name; \<open>send\<close> is the error of a sender on a datagram.\<close>

record DualPathRelay =
  dr_core :: u64
  dr_paths :: "string list"
  dr_policy :: PathPolicy

datatype relay_failure = SendError string | noSenderForSelectedPath string

text \<open>What is sent, the failures by path, and the bridge; an error of the core is thrown before anything is sent.\<close>

definition sendOutbound ::
  "crypto \<Rightarrow> (string \<Rightarrow> bytes \<Rightarrow> string option) \<Rightarrow> bridge \<Rightarrow> DualPathRelay \<Rightarrow> bytes \<Rightarrow> PathInfo list \<Rightarrow> bool \<Rightarrow>
   ((string \<times> bytes) list \<times> (CoreTransportError, string \<rightharpoonup> relay_failure) result \<times> bridge) option" where
  "sendOutbound C send b r packet pathStates primaryUnstable =
     (case CoreTransport_outbound C b (dr_core r) packet of
        None \<Rightarrow> None
      | Some (Inl e, b') \<Rightarrow> Some ([], Inl e, b')
      | Some (Inr framed, b') \<Rightarrow>
          let selected = sendPaths (dr_policy r) pathStates primaryUnstable;
              used = filter (\<lambda>name. name \<in> set selected) (dr_paths r);
              failed = foldl (\<lambda>m name. case send name framed of None \<Rightarrow> m | Some e \<Rightarrow> m(name \<mapsto> SendError e)) Map.empty used;
              missing = filter (\<lambda>name. name \<notin> set (dr_paths r)) selected
          in Some (map (\<lambda>name. (name, framed)) used, Inr (foldl (\<lambda>m name. m(name \<mapsto> noSenderForSelectedPath name)) failed missing), b'))"

definition receiveInbound ::
  "crypto \<Rightarrow> bridge \<Rightarrow> DualPathRelay \<Rightarrow> bytes \<Rightarrow> ((CoreTransportError, bytes option) result \<times> bridge) option" where
  "receiveInbound C b r datagram =
     (case CoreTransport_inbound C b (dr_core r) datagram of
        None \<Rightarrow> None
      | Some (Inl e, b') \<Rightarrow> Some (Inl e, b')
      | Some (Inr (payload, deliver), b') \<Rightarrow> Some (Inr (if deliver then Some payload else None), b'))"

section \<open>The tunnel (\<^verbatim>\<open>GeminaTunnelProvider.swift\<close>, \<^verbatim>\<open>GeminaTunnelBootstrap.swift\<close>)\<close>

record tunnel =
  tn_relay :: "DualPathRelay option"
  tn_pathStates :: "PathInfo list"
  tn_primaryUnstable :: bool

definition shouldRelayOutbound :: "bytes \<Rightarrow> bool" where
  "shouldRelayOutbound packet = (case packet of [] \<Rightarrow> False | first # _ \<Rightarrow> drop_bit 4 first = 4)"

definition AF_INET :: int where "AF_INET = 2"
definition AF_INET6 :: int where "AF_INET6 = 30"

definition ipFamily :: "bytes \<Rightarrow> int" where
  "ipFamily packet = (case packet of [] \<Rightarrow> AF_INET | first # _ \<Rightarrow> if drop_bit 4 first = 6 then AF_INET6 else AF_INET)"

text \<open>One batch of packets read from the tunnel; errors of a packet are ignored, and the loop ends when the relay is gone.\<close>

fun send_packets ::
  "crypto \<Rightarrow> (string \<Rightarrow> bytes \<Rightarrow> string option) \<Rightarrow> bridge \<Rightarrow> DualPathRelay \<Rightarrow> PathInfo list \<Rightarrow> bool \<Rightarrow> bytes list \<Rightarrow>
   ((string \<times> bytes) list \<times> bridge) option" where
  "send_packets C send b r states unstable [] = Some ([], b)"
| "send_packets C send b r states unstable (packet # packets) =
     (if \<not> shouldRelayOutbound packet then send_packets C send b r states unstable packets
      else case sendOutbound C send b r packet states unstable of
        None \<Rightarrow> None
      | Some (out, _, b1) \<Rightarrow>
          (case send_packets C send b1 r states unstable packets of None \<Rightarrow> None | Some (outs, b2) \<Rightarrow> Some (out @ outs, b2)))"

definition readOutbound ::
  "crypto \<Rightarrow> (string \<Rightarrow> bytes \<Rightarrow> string option) \<Rightarrow> tunnel \<Rightarrow> bridge \<Rightarrow> bytes list \<Rightarrow> ((string \<times> bytes) list \<times> bool \<times> bridge) option" where
  "readOutbound C send t b packets =
     (case tn_relay t of
        None \<Rightarrow> Some ([], False, b)
      | Some r \<Rightarrow> map_option (\<lambda>(outs, b'). (outs, True, b')) (send_packets C send b r (tn_pathStates t) (tn_primaryUnstable t) packets))"

text \<open>What is written back to the tunnel, with its protocol family.\<close>

definition handleInbound :: "crypto \<Rightarrow> tunnel \<Rightarrow> bridge \<Rightarrow> bytes \<Rightarrow> ((bytes \<times> int) list \<times> bridge) option" where
  "handleInbound C t b datagram =
     (case tn_relay t of
        None \<Rightarrow> Some ([], b)
      | Some r \<Rightarrow>
          (case receiveInbound C b r datagram of
             None \<Rightarrow> None
           | Some (Inr (Some payload), b') \<Rightarrow> Some ([(payload, ipFamily payload)], b')
           | Some (_, b') \<Rightarrow> Some ([], b')))"

text \<open>
  Stopping drops the last reference to the relay, and with it the core. \<^verbatim>\<open>shouldRelayOutbound\<close>,
  \<^verbatim>\<open>makeTunnelSettings\<close>, \<^verbatim>\<open>initialPathStates\<close> and \<^verbatim>\<open>makeRelay\<close> are the overrides of the bootstrap class.
\<close>

definition stopTunnel :: "tunnel \<Rightarrow> bridge \<Rightarrow> tunnel \<times> bridge" where
  "stopTunnel t b =
     (t\<lparr>tn_relay := None\<rparr>, case tn_relay t of None \<Rightarrow> b | Some r \<Rightarrow> CoreTransport_deinit b (dr_core r))"

section \<open>Starting the tunnel\<close>








record bootstrap =
  bt_assignedAddress :: "string option"
  bt_dnsServers :: "string list"
  bt_wifiSender :: bool


text \<open>The bootstrap's \<^verbatim>\<open>stopTunnel\<close> also takes the sender out and closes it; the flag says whether there was one.\<close>

definition Bootstrap_stopTunnel :: "tunnel \<Rightarrow> bootstrap \<Rightarrow> bridge \<Rightarrow> bool \<times> tunnel \<times> bootstrap \<times> bridge" where
  "Bootstrap_stopTunnel t bt b =
     (let (t', b') = stopTunnel t b in (bt_wifiSender bt, t', bt\<lparr>bt_wifiSender := False\<rparr>, b'))"



definition initialPathStates :: "PathInfo list" where
  "initialPathStates = [\<lparr>pi_id = ''wifi'', pi_up = True, pi_metered = False\<rparr>]"





section \<open>The buffers are large enough\<close>

lemma length_frame:
  "aead_overhead C \<Longrightarrow> wf_session sid \<Longrightarrow> length (frame C key sid dir n p) = length p + 46"
  by (simp add: frame_def aead_overhead_def dataHeaderSize_def SessionIDSize_def gcmTagSize_def Let_def)

lemma take_copy_into: "length src \<le> length dst \<Longrightarrow> take (length src) (copy_into dst src) = src"
  by (simp add: copy_into_def)

definition core_result :: "(core_error, 'a) result \<Rightarrow> (CoreTransportError, 'a) result" where
  "core_result r = (case r of Inl _ \<Rightarrow> Inl coreRejected | Inr x \<Rightarrow> Inr x)"

lemma CoreTransport_outbound_eq:
  assumes "aead_overhead C" and "session_inv s" and "reg_get (br_reg b) h = Some s" and "fits_Int32 (length p + 64)"
  shows "CoreTransport_outbound C b h p =
     Some (core_result (fst (Session_Outbound C s p)), put_session b h (snd (Session_Outbound C s p)))"
proof (cases "length p > maxPayload")
  case True
  then show ?thesis
    using assms(3,4)
    by (simp add: CoreTransport_outbound_def cc_outbound_def outboundInto_def Outbound_eq core_result_def frameOverhead_def coreError_def
        errCodeCore_def)
next
  case False
  let ?f = "frame C (s_sealer s) (s_id s) (sendDir (s_role s)) (s_next s + 1) p"
  have "length ?f \<le> length (replicate (length p + 64) (0 :: byte))"
    using length_frame [OF assms(1)] assms(2) by (simp add: session_inv_def)
  moreover have "nat (int (length p) + 64) = length p + 64" by simp
  ultimately show ?thesis
    using False assms(3,4) take_copy_into [of ?f "replicate (length p + 64) 0"]
    by (simp add: CoreTransport_outbound_def cc_outbound_def outboundInto_def Outbound_eq core_result_def frameOverhead_def)
qed

lemma Inbound_payload_length:
  assumes "aead_exact C" and "aead_overhead C" and "session_inv s" and "fst (Session_Inbound C s w) = Inr (p, d)"
  shows "length p \<le> length w"
proof -
  obtain e s' where c: "InboundClassified C s w = (Inr (p, e), s')"
    using assms(4) by (auto simp: Session_Inbound_def split: prod.splits sum.splits)
  from InboundClassified_sealed [OF assms(3,1) c] assms(2)
  show ?thesis by (metis aead_overhead_def le_add1 le_add2 length_append order_trans)
qed

lemma CoreTransport_inbound_eq:
  assumes "aead_exact C" and "aead_overhead C" and "session_inv s" and "reg_get (br_reg b) h = Some s" and "fits_Int32 (length w)"
  shows "CoreTransport_inbound C b h w =
     Some (core_result (fst (Session_Inbound C s w)), put_session b h (snd (Session_Inbound C s w)))"
proof (cases "Session_Inbound C s w")
  case (Pair r s')
  show ?thesis
  proof (cases r)
    case (Inl e)
    have "e \<noteq> panicIndex"
      using Pair Inl by (rule_tac InboundClassified_cases [OF assms(3), of C w]) (auto simp: Session_Inbound_def)
    then show ?thesis
      using assms(4,5) Pair Inl
      by (simp add: CoreTransport_inbound_def cc_inbound_def inboundInto_def core_result_def coreError_def errCodeCore_def)
  next
    case (Inr pd)
    obtain p d where pd: "pd = (p, d)" by (cases pd)
    have "length p \<le> length w" using Inbound_payload_length [OF assms(1-3), of w p d] Pair Inr pd by simp
    then show ?thesis
      using assms(4,5) Pair Inr pd take_copy_into [of p "replicate (max (length w) 1) 0"]
      by (simp add: CoreTransport_inbound_def cc_inbound_def inboundInto_def core_result_def max.coboundedI1)
  qed
qed

section \<open>The tunnel is its session\<close>

text \<open>What happens to a running tunnel, as a sequence of whole steps: a batch read from the system, a datagram from a socket.\<close>

datatype tunnel_event = ReadPackets "bytes list" | Arrived bytes

fun tunnel_run ::
  "crypto \<Rightarrow> (string \<Rightarrow> bytes \<Rightarrow> string option) \<Rightarrow> tunnel \<Rightarrow> bridge \<Rightarrow> tunnel_event list \<Rightarrow>
   ((string \<times> bytes) list \<times> (bytes \<times> int) list \<times> bridge) option" where
  "tunnel_run C send t b [] = Some ([], [], b)"
| "tunnel_run C send t b (ReadPackets ps # evs) =
     (case readOutbound C send t b ps of
        None \<Rightarrow> None
      | Some (out, _, b1) \<Rightarrow>
          (case tunnel_run C send t b1 evs of None \<Rightarrow> None | Some (outs, ins, b2) \<Rightarrow> Some (out @ outs, ins, b2)))"
| "tunnel_run C send t b (Arrived w # evs) =
     (case handleInbound C t b w of
        None \<Rightarrow> None
      | Some (inp, b1) \<Rightarrow>
          (case tunnel_run C send t b1 evs of None \<Rightarrow> None | Some (outs, ins, b2) \<Rightarrow> Some (outs, inp @ ins, b2)))"

text \<open>The specification: the Go session alone frames the IPv4 packets and delivers the first copies.\<close>

fun session_run :: "crypto \<Rightarrow> Session \<Rightarrow> tunnel_event list \<Rightarrow> bytes list \<times> bytes list \<times> Session" where
  "session_run C s [] = ([], [], s)"
| "session_run C s (ReadPackets ps # evs) =
     (case outbound_all C s (filter (\<lambda>p. p \<noteq> [] \<and> unat (hd p) div 16 = 4) ps) of (frames, s1) \<Rightarrow>
      case session_run C s1 evs of (fs, ds, s2) \<Rightarrow> (frames @ fs, ds, s2))"
| "session_run C s (Arrived w # evs) =
     (case Session_Inbound C s w of (r, s1) \<Rightarrow>
      case session_run C s1 evs of (fs, ds, s2) \<Rightarrow> (fs, (case r of Inr (p, True) \<Rightarrow> [p] | _ \<Rightarrow> []) @ ds, s2))"

fun event_ok :: "tunnel_event \<Rightarrow> bool" where
  "event_ok (ReadPackets ps) \<longleftrightarrow> (\<forall>p \<in> set ps. fits_Int32 (length p + 64))"
| "event_ok (Arrived w) \<longleftrightarrow> fits_Int32 (length w)"

lemma shouldRelay_iff: "shouldRelayOutbound p \<longleftrightarrow> p \<noteq> [] \<and> unat (hd p) div 16 = 4"
proof -
  have "drop_bit 4 x = 4 \<longleftrightarrow> unat x div 16 = 4" for x :: byte
    unfolding word_unat_eq_iff unat_drop_bit_eq by (simp add: drop_bit_eq_div)
  then show ?thesis by (cases p) (simp_all add: shouldRelayOutbound_def)
qed

lemma Inbound_inv: "session_inv s \<Longrightarrow> session_inv (snd (Session_Inbound C s w))"
  using session_once.inv_step [of s C w] by (simp add: session_step_def split_beta)

lemma send_packets_eq:
  assumes "aead_overhead C" and "session_inv s" and "reg_get (br_reg b) (dr_core r) = Some s"
    and "\<forall>p \<in> set ps. fits_Int32 (length p + 64)"
    and "used = filter (\<lambda>name. name \<in> set (sendPaths (dr_policy r) states unstable)) (dr_paths r)"
  shows "\<exists>b'. send_packets C send b r states unstable ps =
       Some (concat (map (\<lambda>f. map (\<lambda>n. (n, f)) used) (fst (outbound_all C s (filter shouldRelayOutbound ps)))), b') \<and>
     reg_get (br_reg b') (dr_core r) = Some (snd (outbound_all C s (filter shouldRelayOutbound ps))) \<and>
     session_inv (snd (outbound_all C s (filter shouldRelayOutbound ps)))"
  using assms(2-4)
proof (induction ps arbitrary: s b)
  case (Cons p ps)
  show ?case
  proof (cases "shouldRelayOutbound p")
    case False
    with Cons show ?thesis by simp
  next
    case True
    let ?s1 = "snd (Session_Outbound C s p)" and ?b1 = "put_session b (dr_core r) (snd (Session_Outbound C s p))"
    have step: "\<exists>res. sendOutbound C send b r p states unstable =
        Some (case fst (Session_Outbound C s p) of Inl _ \<Rightarrow> [] | Inr f \<Rightarrow> map (\<lambda>n. (n, f)) used, res, ?b1)"
      using CoreTransport_outbound_eq [OF assms(1) Cons.prems(1,2), of p] Cons.prems(3)
      by (simp add: sendOutbound_def core_result_def Let_def assms(5) split: sum.splits)
    have "session_inv ?s1" by (rule Outbound_inv [OF Cons.prems(1)])
    moreover have "reg_get (br_reg ?b1) (dr_core r) = Some ?s1" by simp
    ultimately obtain b' where b': "send_packets C send ?b1 r states unstable ps =
         Some (concat (map (\<lambda>f. map (\<lambda>n. (n, f)) used) (fst (outbound_all C ?s1 (filter shouldRelayOutbound ps)))), b')"
       "reg_get (br_reg b') (dr_core r) = Some (snd (outbound_all C ?s1 (filter shouldRelayOutbound ps)))"
       "session_inv (snd (outbound_all C ?s1 (filter shouldRelayOutbound ps)))"
      using Cons.IH [of ?s1 ?b1] Cons.prems(3) by auto
    with True step show ?thesis by (cases "Session_Outbound C s p") (auto split: sum.splits)
  qed
qed simp

lemma handleInbound_eq:
  assumes "aead_exact C" and "aead_overhead C" and "session_inv s" and "tn_relay t = Some r"
    and "reg_get (br_reg b) (dr_core r) = Some s" and "fits_Int32 (length w)"
  shows "handleInbound C t b w =
     Some (map (\<lambda>p. (p, ipFamily p)) (case fst (Session_Inbound C s w) of Inr (p, True) \<Rightarrow> [p] | _ \<Rightarrow> []),
       put_session b (dr_core r) (snd (Session_Inbound C s w)))"
  using CoreTransport_inbound_eq [OF assms(1-3,5,6)] assms(4)
  by (auto simp: handleInbound_def receiveInbound_def core_result_def split: sum.splits bool.splits)

text \<open>
  C18. The tunnel is its Go session: whatever batches of packets it reads and whatever datagrams arrive, in any order
  and whichever sockets fail, nothing traps and no buffer is too small; over each of the paths the policy selects go
  exactly the frames that the session makes of the IPv4 packets, and back to the system go exactly the first
  copies that the session delivers. IPv6 never leaves the machine.
\<close>

theorem tunnel_refines_session:
  assumes "aead_exact C" and "aead_overhead C" and "br_inv b" and "tn_relay t = Some r"
    and "reg_get (br_reg b) (dr_core r) = Some s" and "list_all event_ok evs" and "session_run C s evs = (frames, payloads, s')"
    and "used = filter (\<lambda>name. name \<in> set (sendPaths (dr_policy r) (tn_pathStates t) (tn_primaryUnstable t))) (dr_paths r)"
  shows "\<exists>b'. tunnel_run C send t b evs =
       Some (concat (map (\<lambda>f. map (\<lambda>n. (n, f)) used) frames), map (\<lambda>p. (p, ipFamily p)) payloads, b') \<and>
     reg_get (br_reg b') (dr_core r) = Some s'"
proof -
  have "session_inv s" using assms(3,5) by (simp add: br_inv_def)
  then show ?thesis
    using assms(5-7)
  proof (induction evs arbitrary: s b frames payloads s')
    case (Cons ev evs)
    show ?case
    proof (cases ev)
      case (ReadPackets ps)
      obtain f1 s1 where o: "outbound_all C s (filter shouldRelayOutbound ps) = (f1, s1)" by fastforce
      then have spec: "outbound_all C s (filter (\<lambda>p. p \<noteq> [] \<and> unat (hd p) div 16 = 4) ps) = (f1, s1)" by (simp add: shouldRelay_iff [abs_def])
      obtain f2 ds s2 where rest: "session_run C s1 evs = (f2, ds, s2)" by (metis prod_cases3)
      have fits: "\<forall>p \<in> set ps. fits_Int32 (length p + 64)" using Cons.prems(3) by (simp add: ReadPackets)
      obtain b1 where "send_packets C send b r (tn_pathStates t) (tn_primaryUnstable t) ps =
            Some (concat (map (\<lambda>f. map (\<lambda>n. (n, f)) used) f1), b1)"
          and b1: "reg_get (br_reg b1) (dr_core r) = Some s1" "session_inv s1"
        using send_packets_eq [OF assms(2) Cons.prems(1,2) fits assms(8), of send] unfolding o by auto
      moreover have "list_all event_ok evs" using Cons.prems(3) by simp
      ultimately show ?thesis
        using Cons.IH [OF b1(2,1) _ rest] Cons.prems(4) spec rest assms(4) by (auto simp: ReadPackets readOutbound_def)
    next
      case (Arrived w)
      obtain r1 s1 where i: "Session_Inbound C s w = (r1, s1)" by fastforce
      obtain f2 ds s2 where rest: "session_run C s1 evs = (f2, ds, s2)" by (metis prod_cases3)
      have "session_inv s1" using Inbound_inv [OF Cons.prems(1), of C w] i by simp
      moreover have "list_all event_ok evs" "fits_Int32 (length w)" using Cons.prems(3) by (simp_all add: Arrived)
      ultimately show ?thesis
        using Cons.IH [of s1 "put_session b (dr_core r) s1" f2 ds s2] Cons.prems(4) i rest
          handleInbound_eq [OF assms(1,2) Cons.prems(1) assms(4) Cons.prems(2), of w] by (auto simp: Arrived)
    qed
  qed simp
qed

section \<open>Handshakes leave nothing behind\<close>

lemma hello_nonempty: "BeginClientHandshake C now r1 r2 pub token = Inr (hello, hs) \<Longrightarrow> 0 < length hello"
  by (auto simp: BeginClientHandshake_def res_bind_Inr_iff EncodeClientHello_def putHandshakeHeader_def split: if_splits prod.splits)

lemma begun_identity: "BeginClientHandshake C now r1 r2 pub token = Inr (hello, hs) \<Longrightarrow> hs_gatewayIdentity hs = pub"
  by (auto simp: BeginClientHandshake_def res_bind_Inr_iff split: if_splits prod.splits)

lemma begin_cases:
  assumes "cc_handshake_begin C now r1 r2 b pub token cap = Some (n, h, hello, b1)" and "br_inv b" and "room (Suc k) b"
  obtains (failed) "n < 0" "b1 = b" | (begun) hs where "0 < n" "h \<noteq> 0" "h = hsr_next (br_hsReg b) + 1"
    "hsr_pending (br_hsReg b) h = None" "hsr_pending (br_hsReg b1) = (hsr_pending (br_hsReg b))(h \<mapsto> hs)"
    "br_reg b1 = br_reg b" "br_inv b1" "room k b1" "hs_gatewayIdentity hs = take 32 pub"
proof (cases "length (take 32 pub) = PublicKeySize \<and> (\<exists>hello hs. BeginClientHandshake C now r1 r2 (take 32 pub) token = Inr (hello, hs) \<and> length hello \<le> nat cap)")
  case False
  then have "n < 0 \<and> b1 = b"
    using assms(1) by (auto simp: cc_handshake_begin_def beginHandshake_def errCodeBadArgs_def errCodeCore_def errCodeBufferSize_def
        split: if_splits sum.splits prod.splits)
  then show thesis using failed by blast
next
  case True
  then obtain hello' hs where t: "length (take 32 pub) = PublicKeySize" "BeginClientHandshake C now r1 r2 (take 32 pub) token = Inr (hello', hs)"
    "length hello' \<le> nat cap" by blast
  have live: "hand.live_below (br_hsReg b)" "unat (hsr_next (br_hsReg b)) + 1 < 2 ^ 64" using assms(2,3) by (simp_all add: br_inv_def room_def)
  note f = hand.add_fresh [OF live, of hs]
  have h: "h = fst (hs_add (br_hsReg b) hs)" "n = int (length hello')" "b1 = b\<lparr>br_hsReg := snd (hs_add (br_hsReg b) hs)\<rparr>"
    using assms(1) t by (auto simp: cc_handshake_begin_def beginHandshake_def split: if_splits prod.splits)
  have e: "hsr_pending (br_hsReg b1) = (hsr_pending (br_hsReg b))(h \<mapsto> hs)"
    using hand.add_entry [of "br_hsReg b" hs] hand.add_handle [of "br_hsReg b" hs] h by (auto simp: fun_eq_iff)
  have "unat (hsr_next (br_hsReg b) + 1) = unat (hsr_next (br_hsReg b)) + 1" by (rule hand.next_greater [OF live(2)])
  then show thesis
    using begun [of hs] f h e hello_nonempty [OF t(2)] begun_identity [OF t(2)] assms(2,3) hand.add_handle [of "br_hsReg b" hs] hand.add_next [of "br_hsReg b" hs]
    by (simp add: br_inv_def room_def)
qed

lemma complete_effect:
  assumes "br_inv b" and "room 1 b" and "cap < 2 ^ 31" and "hsr_pending (br_hsReg b) h = Some hs"
    and "cc_handshake_complete C b h sh cap = (g, ip, b')"
  shows "hsr_pending (br_hsReg b') = (hsr_pending (br_hsReg b))(h := None) \<and>
     (if g = 0 then br_reg b' = br_reg b
      else reg_get (br_reg b) g = None \<and>
        (\<exists>s. session_inv s \<and> s_role s = RoleInitiator \<and> ClientHandshake_Complete C hs sh cap = Inr s \<and> ip = Some (AssignedIPv4 s) \<and>
           reg_get (br_reg b') = (reg_get (br_reg b))(g \<mapsto> s)))"
proof -
  let ?hr = "(br_hsReg b)\<lparr>hsr_pending := (hsr_pending (br_hsReg b))(h := None)\<rparr>"
  have t: "hs_take (br_hsReg b) h = (Some hs, ?hr)" by (simp add: hs_take_def assms(4))
  show ?thesis
  proof (cases "ClientHandshake_Complete C hs sh cap")
    case (Inl e)
    then show ?thesis using assms(5) by (auto simp: cc_handshake_complete_def completeHandshake_def t)
  next
    case (Inr s)
    obtain g' r where a: "reg_add (br_reg b) s = (g', r)" by fastforce
    note inv = Complete_inv [OF Inr assms(3)]
    note add = step_add [OF assms(1,2) inv a]
    have free: "reg_get (br_reg b) g' = None"
      using sess.add_fresh(1) [of "br_reg b" s] assms(1,2) a by (simp add: br_inv_def room_def)
    have ip: "copy_into (replicate 4 0) (AssignedIPv4 s) = AssignedIPv4 s"
      using inv by (simp add: session_inv_def AssignedIPv4_def assignedIPv4Size_def copy_into_def)
    have "s_role s = RoleInitiator" using Inr by (auto simp: Complete_Inr NewSession_Inr)
    moreover have "g = g'" "ip = Some (AssignedIPv4 s)" "b' = b\<lparr>br_hsReg := ?hr, br_reg := r\<rparr>"
      using assms(5) Inr a add(1) ip by (auto simp: cc_handshake_complete_def completeHandshake_def t Let_def)
    ultimately show ?thesis using add(1,5) free inv Inr by (auto simp: fun_eq_iff)
  qed
qed

lemma pending_restored: "hsr_pending (snd (hs_take r h)) = (hsr_pending r)(h := None)"
  using hand.drop_entry_none [of r h] by (auto simp: fun_eq_iff)

lemma connect_outcome:
  assumes "br_inv b" and "room 2 b" and "dedupCapacity < 2 ^ 31"
    and "CoreTransport_connect C now rndID rndKey b pub token dedupCapacity send receive = Some (res, b')"
  shows "hsr_pending (br_hsReg b') = hsr_pending (br_hsReg b) \<and>
     (case res of
        Inl _ \<Rightarrow> reg_get (br_reg b') = reg_get (br_reg b)
      | Inr (h, ip) \<Rightarrow> h \<noteq> 0 \<and> reg_get (br_reg b) h = None \<and>
          (\<exists>s hs hello sh. session_inv s \<and> s_role s = RoleInitiator \<and> AssignedIPv4 s = ip \<and> reg_get (br_reg b') = (reg_get (br_reg b))(h \<mapsto> s) \<and>
             hs_gatewayIdentity hs = pub \<and> receive hello = Inr sh \<and> ClientHandshake_Complete C hs sh dedupCapacity = Inr s))"
proof -
  from assms(4) obtain n h hello b1 where beg: "cc_handshake_begin C now rndID rndKey b pub (takeWhile (\<lambda>c. c \<noteq> CHR 0x00) token) 8192 = Some (n, h, hello, b1)"
    by (auto simp: CoreTransport_connect_def split: if_splits option.splits prod.splits)
  have len: "length pub = 32" using assms(4) by (auto simp: CoreTransport_connect_def split: if_splits)
  have "room (Suc 1) b" using assms(2) by (simp add: numeral_2_eq_2)
  with beg assms(1) show ?thesis
  proof (cases rule: begin_cases)
    case failed
    then show ?thesis using assms(4) beg len by (auto simp: CoreTransport_connect_def)
  next
    case (begun hs)
    have cancel: "hsr_pending (br_hsReg (cc_handshake_cancel b1 h)) = hsr_pending (br_hsReg b)" "br_reg (cc_handshake_cancel b1 h) = br_reg b"
      using begun by (simp_all add: cc_handshake_cancel_def cancelHandshake_def pending_restored fun_upd_idem)
    show ?thesis
    proof (cases "send hello = None \<and> (\<exists>sh. receive hello = Inr sh)")
      case False
      then show ?thesis using assms(4) beg len begun(1,2) cancel
        by (auto simp: CoreTransport_connect_def split: option.splits sum.splits)
    next
      case True
      then obtain sh where sh: "send hello = None" "receive hello = Inr sh" by blast
      obtain g ip b2 where c: "cc_handshake_complete C b1 h sh dedupCapacity = (g, ip, b2)" by (metis prod_cases3)
      have res: "res = (if g = 0 then Inl (ConnectCore coreRejected) else Inr (g, case ip of Some ip \<Rightarrow> ip | None \<Rightarrow> replicate 4 0))" "b' = b2"
        using assms(4) beg len begun(1,2) sh c by (auto simp: CoreTransport_connect_def split: if_splits)
      show ?thesis
        unfolding res using complete_effect [OF begun(7,8) assms(3) _ c, of hs] begun sh(2) len by (auto simp: fun_upd_idem) blast
    qed
  qed
qed

text \<open>
  C19. A handshake leaves nothing behind: however the sockets and the gateway answer, after the call the handshakes in
  flight are those from before, so no ephemeral key leaks; a failure leaves the sessions as they were, and a success
  adds one session, under a handle that was free, whose assigned address is the one returned.
\<close>

theorem connect_no_leak:
  assumes "br_inv b" and "room 2 b" and "dedupCapacity < 2 ^ 31"
    and "CoreTransport_connect C now rndID rndKey b pub token dedupCapacity send receive = Some (res, b')"
  shows "hsr_pending (br_hsReg b') = hsr_pending (br_hsReg b) \<and>
     (case res of
        Inl _ \<Rightarrow> reg_get (br_reg b') = reg_get (br_reg b)
      | Inr (h, ip) \<Rightarrow> h \<noteq> 0 \<and> reg_get (br_reg b) h = None \<and>
          (\<exists>s. session_inv s \<and> s_role s = RoleInitiator \<and> AssignedIPv4 s = ip \<and> reg_get (br_reg b') = (reg_get (br_reg b))(h \<mapsto> s)))"
  using connect_outcome [OF assms] by (auto split: sum.splits)

lemma demo_sid_or: "demo_sid ! 0 OR 1 = demo_sid ! 0"
  by (simp add: demo_sid_def)

lemma demo_begin:
  assumes "length key = 32"
  obtains hello where "BeginClientHandshake demo_crypto 0 (Some demo_sid) (Some (replicate 32 1)) key ''token'' =
     Inr (hello, \<lparr>hs_sessionID = demo_sid, hs_ephemeralPriv = replicate 32 1, hs_gatewayIdentity = key\<rparr>)" "length hello \<le> 8192"
  using demo_sid_wf assms list_update_id [of demo_sid 0]
  by (simp add: demo_sid_or BeginClientHandshake_def PublicKeySize_def randomSessionID_def GenerateKeyPair_def EncodeClientHello_def demo_crypto_def
      x25519PubSize_def x25519KeySize_def maxTokenLen_def putHandshakeHeader_def handshakeMagic_def wf_session_def SessionIDSize_def put_be64_def)

theorem connect_no_leak_witness:
  "\<exists>b'. CoreTransport_connect demo_crypto 0 (Some demo_sid) (Some (replicate 32 1)) bridge_start (replicate 32 3) ''token'' 1024
       (\<lambda>_. None) (\<lambda>_. Inl ''timeout'') = Some (Inl (ConnectReceive ''timeout''), b') \<and>
     hsr_pending (br_hsReg b') = Map.empty"
proof -
  let ?connect = "CoreTransport_connect demo_crypto 0 (Some demo_sid) (Some (replicate 32 1)) bridge_start (replicate 32 3) ''token'' 1024
       (\<lambda>_. None) (\<lambda>_. Inl ''timeout'')"
  obtain hello hs where h: "BeginClientHandshake demo_crypto 0 (Some demo_sid) (Some (replicate 32 1)) (replicate 32 3) ''token'' = Inr (hello, hs)"
    "length hello \<le> 8192" by (metis demo_begin length_replicate)
  obtain b' where run: "?connect = Some (Inl (ConnectReceive ''timeout''), b')"
    using h hello_nonempty [OF h(1)]
    by (simp add: CoreTransport_connect_def cc_handshake_begin_def beginHandshake_def PublicKeySize_def hs_add_def bridge_start_def newHSRegistry_def)
  have "hsr_pending (br_hsReg bridge_start) = Map.empty" by (simp add: bridge_start_def newHSRegistry_def)
  with connect_no_leak [OF bridge_start_ok(1) _ _ run] run show ?thesis
    by (simp add: room_def bridge_start_def newRegistry_def newHSRegistry_def)
qed

definition demo_tunnel :: tunnel where
  "demo_tunnel = \<lparr>tn_relay = Some \<lparr>dr_core = 1, dr_paths = [''wifi''], dr_policy = \<lparr>pp_mode = Mode_auto, pp_preferredID = None\<rparr>\<rparr>,
     tn_pathStates = initialPathStates, tn_primaryUnstable = False\<rparr>"

theorem tunnel_refines_session_witness:
  "\<exists>f payloads b'. tunnel_run demo_crypto (\<lambda>_ _. None) demo_tunnel demo_bridge [ReadPackets [[0x45, 1], [0x60, 2], []], Arrived [9]] =
     Some ([(''wifi'', f)], payloads, b')"
proof -
  let ?evs = "[ReadPackets [[0x45, 1], [0x60, 2], []], Arrived [9]]"
  let ?f = "frame demo_crypto demo_key demo_sid dirResponder 1 [0x45, 1]"
  have n0: "s_next (demo_session RoleResponder) = 0" by (simp add: demo_session_def)
  obtain r1 s1 where i: "Session_Inbound demo_crypto ((demo_session RoleResponder)\<lparr>s_next := 1\<rparr>) [9] = (r1, s1)" by fastforce
  obtain payloads s' where run: "session_run demo_crypto (demo_session RoleResponder) ?evs = ([?f], payloads, s')"
    using i n0 by (simp add: Outbound_eq maxPayload_def sendDir_def)
  have ok: "list_all event_ok ?evs" by (simp add: fits_Int32_def)
  have relay: "tn_relay demo_tunnel = Some \<lparr>dr_core = 1, dr_paths = [''wifi''], dr_policy = \<lparr>pp_mode = Mode_auto, pp_preferredID = None\<rparr>\<rparr>"
    by (simp add: demo_tunnel_def)
  from tunnel_refines_session [OF demo_crypto_laws(2,3) demo_bridge_ok(1) relay _ ok run refl, of "\<lambda>_ _. None"] demo_bridge_ok(2)
  show ?thesis by (auto simp: demo_tunnel_def initialPathStates_def sendPaths_def)
qed

section \<open>A tunnel that has started\<close>







end
