(* ===== verification/Spec2Isabelle.thy ===== *)
theory Spec2Isabelle
  imports Protocol Once_Filter Replay Fifo_Window Wire Crypto_Api Handshake_Wire Session_Core Client_Handshake Allocator Path_Set Router
    Go_Strings Entitlement Providers Admission Data_Plane Metrics Data_Gateway Gateway_Metrics Gateway_Client Gateway_Types
    Path_Classifier Go_Text Darwin_Evidence Diagnostics Probe_Server Bridge Startup Probe_Client
    Tun_Device Path_Dial Identity_Text Float64 Benchmark Go_Flags Report_Json Geminactl Mac_Core Mac_Transport
begin

text \<open>
  Gemina keeps a connection alive over two networks at once: a client sends each packet, encrypted, over Wi-Fi and over
  a tethered phone, and a gateway decrypts it, drops the second copy and writes the first to its exit device. This
  development models the Go code of client core, gateway and tools, and the Swift code of the macOS packet tunnel, and
  proves what makes them correct. File names are relative to \<^verbatim>\<open>src/\<close>.

  \<^bold>\<open>How the parts interact.\<close> The macOS tunnel (\<open>Mac_Transport\<close>) calls the C bridge (\<open>Bridge\<close>), which holds client
  sessions and handshakes by handle. A handshake (\<open>Handshake_Wire\<close>, \<open>Client_Handshake\<close>) carries an entitlement token
  (\<open>Entitlement\<close>, paid for through \<open>Providers\<close>) to the gateway's \<open>Admission\<close>, which stores the session key and leases an
  address (\<open>Allocator\<close>). Data packets are framed and sealed by a session (\<open>Wire\<close>, \<open>Session_Core\<close>), sent over the chosen
  paths (\<open>Mac_Core\<close>), opened by the gateway's \<open>Data_Plane\<close>, deduplicated by the \<open>Replay\<close> window and written out by the
  \<open>Router\<close>, which sends answers back to the endpoints in \<open>Path_Set\<close>. \<open>Data_Gateway\<close> dispatches datagrams over all of
  these; \<open>Startup\<close> is the gateway process that creates it. \<open>Geminactl\<close> is the diagnostic tool.

  \<^bold>\<open>Theories and sources.\<close>
  \<^item> \<open>Gemina_Prelude\<close>, \<open>Go_Strings\<close>, \<open>Go_Text\<close>, \<open>Go_Flags\<close>, \<open>Float64\<close>: what the code uses of the Go language and its library:
    wrapping integers, slices, saturating time, string functions, base64 and hex, UTF-8, flag and number parsing,
    rounding of floating point.
  \<^item> \<open>Crypto_Api\<close>: the cryptographic primitives as a record that the definitions take as an argument, with their
    documented laws as named predicates. Nothing is assumed of an adversary: authenticity is stated as "what is accepted
    is the sealing, signature or code of its content under this key".
  \<^item> \<open>Protocol\<close>, \<open>Identity_Text\<close> (\<^verbatim>\<open>internal/protocol\<close>): packet identities and probe datagrams, as bytes and as text.
  \<^item> \<open>Replay\<close>, \<open>Fifo_Window\<close> (\<^verbatim>\<open>internal/dedup\<close>): the sliding bitmap and the identity queue; each refines a reference.
    \<open>Once_Filter\<close> is the contract of every layer that drops duplicates, interpreted for the bitmap, a session, the data
    plane and the gateway.
  \<^item> \<open>Wire\<close>, \<open>Session_Core\<close>, \<open>Handshake_Wire\<close>, \<open>Client_Handshake\<close> (\<^verbatim>\<open>pkg/clientcore\<close>): codecs with round trips, sessions with
    nonces that never repeat, key agreement, authentication of the gateway, freshness.
  \<^item> \<open>Allocator\<close>, \<open>Path_Set\<close>, \<open>Router\<close>, \<open>Tun_Device\<close> (\<^verbatim>\<open>internal/exit\<close>): the address pool behind the contract
    \<open>lease_table\<close>, return endpoints, filtering and demultiplexing, opening the device.
  \<^item> \<open>Entitlement\<close>, \<open>Providers\<close> (\<^verbatim>\<open>internal/entitlement\<close>): tokens and the two providers behind \<open>payment_provider\<close>.
  \<^item> \<open>Admission\<close>, \<open>Data_Plane\<close>, \<open>Data_Gateway\<close>, \<open>Probe_Server\<close> (\<^verbatim>\<open>internal/gateway\<close>), with \<open>Metrics\<close>
    (\<^verbatim>\<open>internal/metrics\<close>): the gateway's operations. \<open>Gateway_Metrics\<close>, \<open>Gateway_Types\<close> and \<open>Gateway_Client\<close> hold
    properties across them: counters, types along every run, and client and gateway together.
  \<^item> \<open>Startup\<close> (\<^verbatim>\<open>cmd/gateway\<close>, \<^verbatim>\<open>internal/gateway/identity.go\<close>, \<^verbatim>\<open>internal/exit/nat_linux.go\<close>): the order of privileged steps,
    the privilege drop, the identity file.
  \<^item> \<open>Path_Classifier\<close> (\<^verbatim>\<open>internal/paths\<close>), \<open>Darwin_Evidence\<close> (\<^verbatim>\<open>internal/platform/darwin\<close>), \<open>Diagnostics\<close> and \<open>Report_Json\<close>
    (\<^verbatim>\<open>internal/diagnostics\<close>): which interface serves as which path, and the reports.
  \<^item> \<open>Path_Dial\<close> (\<^verbatim>\<open>internal/transport\<close>), \<open>Probe_Client\<close>, \<open>Benchmark\<close>, \<open>Geminactl\<close> (\<^verbatim>\<open>cmd/geminactl\<close>): sockets bound to an
    interface and the commands, from their arguments to datagrams, output and exit code.
  \<^item> \<open>Bridge\<close> (\<^verbatim>\<open>bridge/geminacore\<close>): the handle tables, both instances of \<open>handle_table\<close>, and the exported calls.
  \<^item> \<open>Mac_Core\<close> (\<^verbatim>\<open>apps/macos/Core\<close>), \<open>Mac_Transport\<close> (\<^verbatim>\<open>apps/macos/PacketTunnelExtension\<close>): path policy, status and impact
    figures; starting, running and stopping the tunnel over the bridge.

  \<^bold>\<open>How code becomes definitions.\<close> A struct is a record, an enumeration or the errors of a package a datatype, a method a
  function that takes the receiver and returns it updated. Bytes, \<^verbatim>\<open>uint32\<close> and \<^verbatim>\<open>uint64\<close> are words; a Go \<^verbatim>\<open>int\<close> is an integer
  with \<^term>\<open>wrap64\<close> written where it can overflow. A pair of value and error is a \<open>result\<close>; a panic or a trap is \<open>None\<close> or a
  constructor of the error type. Time is a number of nanoseconds. Clocks, random bytes, system calls, resolvers and
  sockets are arguments, and what the code sends, writes or logs is a returned list. A mutex makes a method one step:
  concurrent loops are all interleavings of whole handler steps (the datagram loop and the return loop of the gateway).

  \<^bold>\<open>What is shown.\<close>
  \<^item> End to end: a fresh admitted hello is served and the packets of both sides arrive intact; a packet reaches the exit
    device unchanged; the started gateway is unprivileged, well-typed and delivers nothing twice, along every run.
  \<^item> Safety: delivered packets were sealed in an admitted session; refused datagrams and handshakes change nothing;
    return packets go only to the session that holds their destination; leases are exclusive; handles and nonces are
    never reused; the tunnel talks only to the pinned gateway and leaves no default route uncovered.
  \<^item> Refinement: bitmap and queue against references, lazily created sessions against eager ones, bridge and tunnel
    against the sessions they manage, the probe server against a bounded queue.
  \<^item> Round trips and exact characterisations of codecs, tokens, parsers, classification, policy and freshness, including
    the places where the code departs from its documentation.

  \<^bold>\<open>Loops and bounds.\<close> Loops are structural recursion or have a termination proof; the pool loop of the allocator has
  its exact number of rounds. Only the sum of a duration string counts down a bound, the length of the string,
  with a lemma that more changes nothing. Hypotheses that bound a run say that a 64-bit counter of packets or handles
  has not wrapped. Floating point values are finite.

  \<^bold>\<open>Not modelled.\<close> Shutdown and context cancellation, logging of the data gateway, and the HTTP server that publishes the
  rendered metrics; reading from and writing to the device beyond their bytes; the HTTP exchange with Stripe and its
  JSON decoder (arguments); usage texts and the wording of errors; the Network framework under the Wi-Fi sender and the
  views of the macOS app (\<^verbatim>\<open>apps/macos/AppUI\<close>), which only call system frameworks; the RNDIS experiment in C under
  \<^verbatim>\<open>research\<close>, which no product code links; tests, website and deployment files. Interleavings inside one locked
  operation are not distinguished.
\<close>

section \<open>The started gateway\<close>



lemma EnableExit_identity [simp]: "g_identityPriv (EnableExit g r) = g_identityPriv g"
  by (simp add: EnableExit_def)

lemma NewDataGateway_identity [simp]: "g_identityPriv (NewDataGateway priv svc cap) = priv"
  by (simp add: NewDataGateway_def Registry_Counter_def Registry_Gauge_def)




end
